(* ===== verification/Talko_Prelude.thy ===== *)
theory Talko_Prelude
  imports Main "HOL-Library.Word"
begin

text \<open>
  Shared vocabulary of the development: the type synonyms that name the program's
  machine types, the in-place list update that models \<^verbatim>\<open>std::copy\<close> and
  \<^verbatim>\<open>memcpy\<close> into a vector, \<^verbatim>\<open>std::search\<close> and \<^verbatim>\<open>memchr\<close>, the object
  representation of fixed-width integers on the little-endian x86-64 hosts the build
  supports (\<^verbatim>\<open>third_party/linux/x86_64\<close>), decimal printing as done by \<^verbatim>\<open>%d\<close> and by
  \<^verbatim>\<open>ostream <<\<close>, and the lemmas on them that the component theories use.
  The collection \<open>bytes_simps\<close> gathers the facts about byte strings.
\<close>

unbundle bit_operations_syntax

named_theorems bytes_simps \<open>lengths and round trips of byte strings\<close>

type_synonym byte = "8 word"
type_synonym i16 = "16 word"
type_synonym i32 = "32 word"
type_synonym i64 = "64 word"

section \<open>Writing into a vector\<close>

definition overwrite :: "'a list \<Rightarrow> nat \<Rightarrow> 'a list \<Rightarrow> 'a list" where
  "overwrite xs i ys = take i xs @ ys @ drop (i + length ys) xs"

definition resize :: "nat \<Rightarrow> 'a::zero list \<Rightarrow> 'a list" where
  "resize n xs = take n xs @ replicate (n - length xs) 0"

definition segment :: "nat \<Rightarrow> nat \<Rightarrow> 'a list \<Rightarrow> 'a list" where
  "segment i j xs = take (j - i) (drop i xs)"

section \<open>Searching\<close>

text \<open>
  \<open>find_sub pat xs\<close> is the offset of the first occurrence of \<open>pat\<close> in \<open>xs\<close>
  (\<^verbatim>\<open>std::string::find\<close>, with \<open>None\<close> for \<^verbatim>\<open>npos\<close>; \<^verbatim>\<open>std::search\<close>, with \<open>None\<close>
  for the end iterator). An empty pattern is found at offset 0.
\<close>

fun is_prefix :: "'a list \<Rightarrow> 'a list \<Rightarrow> bool" where
  "is_prefix [] ys = True"
| "is_prefix (x # xs) [] = False"
| "is_prefix (x # xs) (y # ys) = (x = y \<and> is_prefix xs ys)"

fun find_sub :: "'a list \<Rightarrow> 'a list \<Rightarrow> nat option" where
  "find_sub pat [] = (if pat = [] then Some 0 else None)"
| "find_sub pat (x # xs) =
     (if is_prefix pat (x # xs) then Some 0 else map_option Suc (find_sub pat xs))"

section \<open>Object representation of integers\<close>

text \<open>
  \<open>le_bytes n w\<close> are the low \<open>n\<close> bytes of \<open>w\<close>, least significant first: the bytes
  of the object that holds \<open>w\<close>. \<open>of_le_bytes\<close> reads an object back.
\<close>

definition le_bytes :: "nat \<Rightarrow> 'a::len word \<Rightarrow> byte list" where
  "le_bytes n w = map (\<lambda>i. ucast (drop_bit (8 * i) w)) [0..<n]"

fun of_le_bytes :: "byte list \<Rightarrow> 'a::len word" where
  "of_le_bytes [] = 0"
| "of_le_bytes (b # bs) = ucast b OR push_bit 8 (of_le_bytes bs)"

section \<open>Decimal printing\<close>

definition digit_char :: "nat \<Rightarrow> char" where
  "digit_char d = char_of (48 + d)"

fun dec_nat :: "nat \<Rightarrow> string" where
  "dec_nat n = (if n < 10 then [digit_char n] else dec_nat (n div 10) @ [digit_char (n mod 10)])"

definition dec_int :: "int \<Rightarrow> string" where
  "dec_int i = (if i < 0 then CHR ''-'' # dec_nat (nat (- i)) else dec_nat (nat i))"

text \<open>\<^verbatim>\<open>snprintf(buf, n, ...)\<close> keeps at most \<open>n - 1\<close> characters.\<close>

definition snprintf :: "nat \<Rightarrow> string \<Rightarrow> string" where
  "snprintf n s = take (n - 1) s"

text \<open>
  \<^verbatim>\<open>c_str()\<close> read as a C string ends at the first NUL character.
\<close>

definition c_str :: "string \<Rightarrow> string" where
  "c_str s = takeWhile (\<lambda>c. c \<noteq> CHR 0x00) s"

text \<open>The conversions \<^verbatim>\<open>%0<w>d\<close> and \<^verbatim>\<open>%<w>d\<close>: minimal width, padded with zeros or blanks.\<close>

definition zero_pad :: "nat \<Rightarrow> int \<Rightarrow> string" where
  "zero_pad w i =
     (if i < 0
      then CHR ''-'' # replicate (w - 1 - length (dec_nat (nat (- i)))) (CHR ''0'') @ dec_nat (nat (- i))
      else replicate (w - length (dec_nat (nat i))) (CHR ''0'') @ dec_nat (nat i))"

definition blank_pad :: "nat \<Rightarrow> int \<Rightarrow> string" where
  "blank_pad w i = replicate (w - length (dec_int i)) (CHR '' '') @ dec_int i"

text \<open>
  Signed 32-bit arithmetic that wraps, as the increments of a \<^verbatim>\<open>std::atomic<int>\<close> do, and
  the range of \<^verbatim>\<open>int32_t\<close>.
\<close>

definition wrap32 :: "int \<Rightarrow> int" where
  "wrap32 i = (i + 2 ^ 31) mod 2 ^ 32 - 2 ^ 31"

definition int32 :: "int \<Rightarrow> bool" where
  "int32 i \<longleftrightarrow> - (2 ^ 31) \<le> i \<and> i < 2 ^ 31"

text \<open>Strings and byte strings hold the same 8-bit values.\<close>

definition bytes_of_string :: "string \<Rightarrow> byte list" where
  "bytes_of_string s = map (\<lambda>c. of_nat (of_char c)) s"

definition string_of_bytes :: "byte list \<Rightarrow> string" where
  "string_of_bytes bs = map (\<lambda>b. char_of (unat b)) bs"

section \<open>Lemmas on vectors\<close>

lemma length_overwrite [simp]:
  "i + length ys \<le> length xs \<Longrightarrow> length (overwrite xs i ys) = length xs"
  by (simp add: overwrite_def)

lemma length_resize [simp]: "length (resize n xs) = n"
  by (simp add: resize_def)

lemma take_resize [simp]: "k \<le> n \<Longrightarrow> k \<le> length xs \<Longrightarrow> take k (resize n xs) = take k xs"
  by (simp add: resize_def)

lemma length_segment [simp]: "j \<le> length xs \<Longrightarrow> length (segment i j xs) = j - i"
  by (simp add: segment_def)

lemma segment_empty [simp]: "segment i i xs = []"
  by (simp add: segment_def)

lemma segment_append:
  assumes "i \<le> j" and "j \<le> k"
  shows "segment i j xs @ segment j k xs = segment i k xs"
proof -
  have "segment i k xs = take ((j - i) + (k - j)) (drop i xs)"
    using assms by (simp add: segment_def)
  also have "\<dots> = take (j - i) (drop i xs) @ take (k - j) (drop (j - i) (drop i xs))"
    by (rule take_add)
  finally show ?thesis using assms by (simp add: segment_def)
qed

lemma segment_cong:
  assumes "take k xs = take k ys" and "j \<le> k"
  shows "segment i j xs = segment i j ys"
proof (cases "i \<le> j")
  case True
  have "segment i j zs = drop i (take j (take k zs))" for zs :: "'a list"
    using True assms(2) by (simp add: segment_def drop_take min_def)
  then show ?thesis using assms(1) by metis
qed (simp add: segment_def)

lemma segment_resize: "j \<le> n \<Longrightarrow> j \<le> length xs \<Longrightarrow> segment i j (resize n xs) = segment i j xs"
  by (rule segment_cong [where k = j]) auto

lemma segment_overwrite_before:
  assumes "j \<le> p" and "p \<le> length xs"
  shows "segment i j (overwrite xs p ys) = segment i j xs"
  using assms by (intro segment_cong [where k = p]) (auto simp: overwrite_def)

lemma segment_overwrite_at:
  assumes "p + length ys \<le> length xs"
  shows "segment p (p + length ys) (overwrite xs p ys) = ys"
  using assms by (simp add: segment_def overwrite_def)

lemma segment_overwrite_after:
  assumes "p + length ys \<le> i" and "p \<le> length xs"
  shows "segment i j (overwrite xs p ys) = segment i j xs"
  using assms by (simp add: segment_def overwrite_def)

lemma take_segment: "take n (segment i j xs) = segment i (min j (i + n)) xs"
proof (cases "i \<le> j")
  case True
  then have "min j (i + n) - i = min n (j - i)" by arith
  then show ?thesis by (simp add: segment_def)
next
  case False
  then show ?thesis by (simp add: segment_def)
qed

lemma drop_segment: "drop n (segment i j xs) = segment (i + n) j xs"
  by (simp add: segment_def drop_take add.commute)

section \<open>Lemmas on searching\<close>

lemma is_prefix_iff: "is_prefix xs ys \<longleftrightarrow> (\<exists>zs. ys = xs @ zs)"
  by (induction xs ys rule: is_prefix.induct) auto

lemma find_sub_Some:
  "find_sub pat xs = Some i \<Longrightarrow> \<exists>pre post. xs = pre @ pat @ post \<and> length pre = i"
proof (induction xs arbitrary: i)
  case Nil
  then show ?case by (simp split: if_splits)
next
  case (Cons x xs)
  show ?case
  proof (cases "is_prefix pat (x # xs)")
    case True
    then show ?thesis using Cons.prems by (auto simp: is_prefix_iff intro: exI [of _ "[]"])
  next
    case False
    then obtain k where k: "find_sub pat xs = Some k" "i = Suc k"
      using Cons.prems by auto
    then obtain pre post where "xs = pre @ pat @ post" "length pre = k"
      using Cons.IH by blast
    then have "x # xs = (x # pre) @ pat @ post \<and> length (x # pre) = i" using k by simp
    then show ?thesis by blast
  qed
qed

lemma find_sub_first:
  "find_sub pat xs = Some i \<Longrightarrow> j < i \<Longrightarrow> \<not> is_prefix pat (drop j xs)"
proof (induction xs arbitrary: i j)
  case Nil
  then show ?case by (simp split: if_splits)
next
  case (Cons x xs)
  then show ?case by (cases j) (auto split: if_splits)
qed

lemma find_sub_None:
  "find_sub pat xs = None \<Longrightarrow> xs \<noteq> pre @ pat @ post"
proof (induction xs arbitrary: pre)
  case Nil
  then show ?case by (simp split: if_splits)
next
  case (Cons x xs)
  have np: "\<not> is_prefix pat (x # xs)" and nf: "find_sub pat xs = None"
    using Cons.prems by (auto split: if_splits)
  show ?case
  proof (cases pre)
    case Nil
    then show ?thesis using np by (auto simp: is_prefix_iff)
  next
    case (Cons p ps)
    then show ?thesis using Cons.IH [OF nf, of ps] by auto
  qed
qed

lemma find_sub_bound: "find_sub pat xs = Some i \<Longrightarrow> i + length pat \<le> length xs"
  using find_sub_Some [of pat xs i] by auto

section \<open>Lemmas on object representations\<close>

lemma length_le_bytes [simp, bytes_simps]: "length (le_bytes n w) = n"
  by (simp add: le_bytes_def)

lemma le_bytes_Suc: "le_bytes (Suc n) w = ucast w # le_bytes n (drop_bit 8 w)"
proof -
  have "[0..<Suc n] = 0 # map Suc [0..<n]"
    by (simp add: upt_conv_Cons map_Suc_upt)
  then show ?thesis by (simp add: le_bytes_def drop_bit_drop_bit add.commute)
qed

lemma bit_of_le_bytes:
  "bit (of_le_bytes bs :: 'a::len word) i \<longleftrightarrow>
     i < LENGTH('a) \<and> i div 8 < length bs \<and> bit (bs ! (i div 8)) (i mod 8)"
proof (induction bs arbitrary: i)
  case Nil
  then show ?case by simp
next
  case (Cons b bs)
  show ?case
  proof (cases "i < 8")
    case True
    then show ?thesis by (auto simp: bit_simps)
  next
    case False
    then obtain j where j: "i = j + 8" by (metis add.commute le_add_diff_inverse not_less)
    have d: "(j + 8) div 8 = Suc (j div 8)" and m: "(j + 8) mod 8 = j mod 8" by simp_all
    have "\<not> bit b (j + 8)" using bit_imp_le_length [of b "j + 8"] by auto
    then show ?thesis using Cons.IH [of j] unfolding j d m by (auto simp: bit_simps)
  qed
qed

lemma of_le_bytes_le_bytes [simp, bytes_simps]:
  assumes "LENGTH('a::len) = 8 * n"
  shows "of_le_bytes (le_bytes n w) = (w :: 'a word)"
proof (rule bit_eqI)
  fix i assume "possible_bit TYPE('a word) i"
  then have i: "i < LENGTH('a)" by simp
  then have d: "i div 8 < n" using assms by (simp add: less_mult_imp_div_less mult.commute)
  have "bit w (8 * (i div 8) + i mod 8) = bit w i" by simp
  then show "bit (of_le_bytes (le_bytes n w) :: 'a word) i = bit w i"
    using i d by (simp add: bit_of_le_bytes le_bytes_def bit_simps del: mult_div_mod_eq)
qed

lemma le_bytes_of_le_bytes [simp, bytes_simps]:
  assumes "LENGTH('a::len) = 8 * length bs"
  shows "le_bytes (length bs) (of_le_bytes bs :: 'a word) = bs"
proof (rule nth_equalityI)
  fix k assume "k < length (le_bytes (length bs) (of_le_bytes bs :: 'a word))"
  then have k: "k < length bs" by simp
  have "(ucast (drop_bit (8 * k) (of_le_bytes bs :: 'a word)) :: byte) = bs ! k"
  proof (rule bit_eqI)
    fix i assume "possible_bit TYPE(byte) i"
    then have i: "i < 8" by simp
    then show "bit (ucast (drop_bit (8 * k) (of_le_bytes bs :: 'a word)) :: byte) i = bit (bs ! k) i"
      using k assms by (auto simp: bit_simps bit_of_le_bytes)
  qed
  then show "le_bytes (length bs) (of_le_bytes bs :: 'a word) ! k = bs ! k"
    using k by (simp add: le_bytes_def)
qed simp

lemma unat_drop_bit_div: "unat (drop_bit n w) = unat w div 2 ^ n"
  unfolding unat_drop_bit_eq by (simp add: drop_bit_eq_div)

lemma unat_take_bit_mod: "unat (take_bit n w) = unat w mod 2 ^ n"
  unfolding unsigned_take_bit_eq by (simp add: take_bit_eq_mod)

lemma unat_ucast_up:
  assumes "LENGTH('a::len) \<le> LENGTH('b::len)"
  shows "unat (ucast (w :: 'a word) :: 'b word) = unat w"
proof -
  have "unat w < 2 ^ LENGTH('a)" by (rule unsigned_less)
  also have "(2 :: nat) ^ LENGTH('a) \<le> 2 ^ LENGTH('b)" using assms by simp
  finally show ?thesis by (metis mod_less of_nat_unat unat_of_nat)
qed

lemma div_plus_mod_less:
  fixes n m :: nat
  assumes "2 \<le> m" and "n div m \<noteq> 0"
  shows "n div m + n mod m < n"
proof -
  have "n div m < m * (n div m)" using assms by simp
  then have "n div m + n mod m < m * (n div m) + n mod m" by (rule add_strict_right_mono)
  then show ?thesis by (simp only: mult_div_mod_eq)
qed

lemma div_plus_mod_le: "n div m + n mod m \<le> n" for n m :: nat
proof (cases "2 \<le> m \<and> n div m \<noteq> 0")
  case True
  then show ?thesis using div_plus_mod_less [of m n] by simp
next
  case False
  then have "m = 0 \<or> m = 1 \<or> n div m = 0" by auto
  then show ?thesis by auto
qed

section \<open>Lemmas on decimal printing\<close>

declare dec_nat.simps [simp del]

lemma dec_nat_nonempty [simp]: "dec_nat n \<noteq> []"
  by (subst dec_nat.simps) simp

lemma string_of_bytes_of_string [simp, bytes_simps]: "string_of_bytes (bytes_of_string s) = s"
  by (induction s) (simp_all add: string_of_bytes_def bytes_of_string_def unat_of_nat)

lemma bytes_of_string_of_bytes [simp, bytes_simps]: "bytes_of_string (string_of_bytes bs) = bs"
proof (induction bs)
  case (Cons b bs)
  have "unat b mod 256 = unat b" using unsigned_less [of b, where 'a = nat] by simp
  then show ?case using Cons by (simp add: string_of_bytes_def bytes_of_string_def)
qed (simp add: string_of_bytes_def bytes_of_string_def)

lemma length_bytes_of_string [simp, bytes_simps]: "length (bytes_of_string s) = length s"
  by (simp add: bytes_of_string_def)

lemma length_dec_nat: "0 < k \<Longrightarrow> n < 10 ^ k \<Longrightarrow> length (dec_nat n) \<le> k"
proof (induction k arbitrary: n)
  case (Suc k)
  show ?case
  proof (cases "n < 10")
    case False
    have "n div 10 < 10 ^ k" using Suc.prems(2) by (simp add: less_mult_imp_div_less mult.commute)
    moreover have "0 < k" using False Suc.prems(2) by (cases k) simp_all
    ultimately show ?thesis using Suc.IH False by (simp add: dec_nat.simps [of n])
  qed (simp add: dec_nat.simps [of n])
qed simp

lemma bytes_of_string_append [simp]: "bytes_of_string (s @ t) = bytes_of_string s @ bytes_of_string t"
  by (simp add: bytes_of_string_def)

lemma bytes_of_digit: "d < 10 \<Longrightarrow> bytes_of_string [digit_char d] = [of_nat (48 + d)]"
  by (simp add: bytes_of_string_def digit_char_def)

lemma unat_small_byte: "n < 256 \<Longrightarrow> unat (of_nat n :: byte) = n"
  by (simp add: unat_of_nat)

section \<open>Lemmas on wrapped integers\<close>

lemma int32_wrap32 [simp]: "int32 (wrap32 i)"
  by (simp add: int32_def wrap32_def)

lemma wrap32_id [simp]: "int32 i \<Longrightarrow> wrap32 i = i"
  by (simp add: int32_def wrap32_def)

lemma c_str_id [simp]: "CHR 0x00 \<notin> set s \<Longrightarrow> c_str s = s"
  by (auto simp: c_str_def takeWhile_eq_all_conv)

lemma snprintf_id [simp]: "length s < n \<Longrightarrow> snprintf n s = s"
  by (simp add: snprintf_def)

section \<open>Lemmas on decimal numbers\<close>

text \<open>The value of a string of decimal digits, for reading the printed form back.\<close>

definition digits_value :: "string \<Rightarrow> nat" where
  "digits_value s = foldl (\<lambda>n c. 10 * n + (of_char c - 48)) 0 s"

lemma digits_value_snoc: "d < 10 \<Longrightarrow> digits_value (s @ [digit_char d]) = 10 * digits_value s + d"
  by (simp add: digits_value_def digit_char_def)

lemma digits_value_dec_nat [simp]: "digits_value (dec_nat n) = n"
proof (induction n rule: dec_nat.induct)
  case (1 n)
  show ?case
  proof (cases "n < 10")
    case True
    then show ?thesis using digits_value_snoc [of n "[]"]
      by (subst dec_nat.simps) (simp add: digits_value_def)
  next
    case False
    then show ?thesis using 1 by (subst dec_nat.simps) (simp add: digits_value_snoc)
  qed
qed

lemma digits_value_zeros [simp]: "digits_value (replicate k (CHR ''0'') @ s) = digits_value s"
  by (induction k) (simp_all add: digits_value_def)

lemma dec_nat_chars: "c \<in> set (dec_nat n) \<Longrightarrow> \<exists>d<10. c = digit_char d"
proof (induction n rule: dec_nat.induct)
  case (1 n)
  consider "n < 10" "c = digit_char n" | "\<not> n < 10" "c \<in> set (dec_nat (n div 10))" | "c = digit_char (n mod 10)"
    using 1(2) by (subst (asm) dec_nat.simps) (auto split: if_splits)
  then show ?case
  proof cases
    case 3
    then show ?thesis by (intro exI [of _ "n mod 10"]) simp
  qed (use 1(1) in auto)
qed

lemma of_digit_char: "d < 10 \<Longrightarrow> of_char (digit_char d) = 48 + d"
  by (simp add: digit_char_def)

lemma dec_int_no_blank: "CHR '' '' \<notin> set (dec_int i)" and dec_int_no_nul: "CHR 0x00 \<notin> set (dec_int i)"
proof -
  have "digit_char d \<noteq> CHR '' '' \<and> digit_char d \<noteq> CHR 0x00" if "d < 10" for d
  proof -
    have "of_char (digit_char d) = 48 + d" using that by (rule of_digit_char)
    then show ?thesis by fastforce
  qed
  then have "CHR '' '' \<notin> set (dec_nat n) \<and> CHR 0x00 \<notin> set (dec_nat n)" for n
    using dec_nat_chars by metis
  then show "CHR '' '' \<notin> set (dec_int i)" "CHR 0x00 \<notin> set (dec_int i)" by (simp_all add: dec_int_def)
qed

lemma dec_int_nonneg_inj:
  assumes "dec_int i = dec_nat n"
  shows "i = int n"
proof (cases "i < 0")
  case True
  then have "CHR ''-'' \<in> set (dec_nat n)" using assms by (metis dec_int_def list.set_intros(1))
  then obtain d where "d < 10" "CHR ''-'' = digit_char d" using dec_nat_chars by blast
  then have "of_char (CHR ''-'') = 48 + d" using of_digit_char by simp
  then show ?thesis by simp
next
  case False
  then have "digits_value (dec_nat (nat i)) = digits_value (dec_nat n)" using assms by (simp add: dec_int_def)
  then show ?thesis using False by simp
qed

lemma takeWhile_take: "takeWhile P (take n xs) = take n (takeWhile P xs)"
proof (induction xs arbitrary: n)
  case (Cons x xs)
  then show ?case by (cases n) auto
qed simp

end
