(* ===== verification/Inet_Endian.thy ===== *)
theory Inet_Endian
  imports Talko_Prelude
begin

text \<open>
  \<^verbatim>\<open>network/inet_endian.h\<close>: conversion between host and network byte order. The Linux
  branch calls \<^verbatim>\<open>htobe16/32/64\<close> and \<^verbatim>\<open>be16/32/64toh\<close>; on a little-endian host both
  directions reverse the bytes of the object.
\<close>

definition byte_swap :: "nat \<Rightarrow> 'a::len word \<Rightarrow> 'a word" where
  "byte_swap n w = of_le_bytes (rev (le_bytes n w))"

definition host_2_network64 :: "i64 \<Rightarrow> i64" where "host_2_network64 host64 = byte_swap 8 host64"

definition host_2_network32 :: "i32 \<Rightarrow> i32" where "host_2_network32 host32 = byte_swap 4 host32"

definition host_2_network16 :: "i16 \<Rightarrow> i16" where "host_2_network16 host16 = byte_swap 2 host16"

definition network_2_host64 :: "i64 \<Rightarrow> i64" where "network_2_host64 net64 = byte_swap 8 net64"

definition network_2_host32 :: "i32 \<Rightarrow> i32" where "network_2_host32 net32 = byte_swap 4 net32"

definition network_2_host16 :: "i16 \<Rightarrow> i16" where "network_2_host16 net16 = byte_swap 2 net16"

lemmas endian_defs =
  host_2_network64_def host_2_network32_def host_2_network16_def
  network_2_host64_def network_2_host32_def network_2_host16_def

text \<open>The object that holds a swapped value holds the bytes most significant first.\<close>

lemma le_bytes_byte_swap:
  assumes "LENGTH('a::len) = 8 * n"
  shows "le_bytes n (byte_swap n (w :: 'a word)) = rev (le_bytes n w)"
  using le_bytes_of_le_bytes [of "rev (le_bytes n w)", where 'a = 'a] assms
  by (simp add: byte_swap_def)

lemma byte_swap_involution:
  assumes "LENGTH('a::len) = 8 * n"
  shows "byte_swap n (byte_swap n w) = (w :: 'a word)"
proof -
  have "byte_swap n (byte_swap n w) = of_le_bytes (rev (le_bytes n (byte_swap n w)))"
    by (simp add: byte_swap_def)
  also have "\<dots> = w" using assms by (simp add: le_bytes_byte_swap)
  finally show ?thesis .
qed

lemma network_host_round_trip [simp]:
  "network_2_host64 (host_2_network64 x) = x"
  "network_2_host32 (host_2_network32 y) = y"
  "network_2_host16 (host_2_network16 z) = z"
  by (simp_all add: endian_defs byte_swap_involution)

lemma host_network_round_trip [simp]:
  "host_2_network64 (network_2_host64 x) = x"
  "host_2_network32 (network_2_host32 y) = y"
  "host_2_network16 (network_2_host16 z) = z"
  by (simp_all add: endian_defs byte_swap_involution)

lemma le_bytes_host_2_network [simp, bytes_simps]:
  "le_bytes 8 (host_2_network64 x) = rev (le_bytes 8 x)"
  "le_bytes 4 (host_2_network32 y) = rev (le_bytes 4 y)"
  "le_bytes 2 (host_2_network16 z) = rev (le_bytes 2 z)"
  by (simp_all add: endian_defs le_bytes_byte_swap)

end
