(* ===== verification/Protocol_Stream.thy ===== *)
theory Protocol_Stream
  imports Inet_Endian
begin

text \<open>
  \<^verbatim>\<open>network/protocol_stream.cpp\<close>: the checksum, the 7-bit length encoding, and the classes
  \<^verbatim>\<open>BinaryStreamReader\<close> and \<^verbatim>\<open>BinaryStreamWriter\<close> of the binary chat protocol.

  A reader is the memory its pointer designates, the package length and the offset of
  \<^verbatim>\<open>cur\<close>. The memory may extend past the package. An operation returns
  \<open>None\<close> where the C++ would read outside that memory or outside its local array (undefined
  behaviour), and otherwise the reader with \<open>None\<close> for \<^verbatim>\<open>return false\<close> or the value read.
  A writer is the string it appends to; the six bytes of head room that the source leaves
  uninitialised are an argument.
\<close>

definition TEXT_PACKLEN_LEN :: nat where "TEXT_PACKLEN_LEN = 4"
definition BINARY_PACKLEN_LEN_2 :: nat where "BINARY_PACKLEN_LEN_2 = 4"
definition CHECKSUM_LEN :: nat where "CHECKSUM_LEN = 2"

section \<open>Checksum\<close>

text \<open>The first loop and the odd byte: 16-bit words are read as objects, sums wrap at 32 bits.\<close>

fun cksum_sum :: "byte list \<Rightarrow> i32 \<Rightarrow> i32" where
  "cksum_sum [] cksum = cksum"
| "cksum_sum [b] cksum = cksum + ucast b"
| "cksum_sum (b0 # b1 # bs) cksum = cksum_sum bs (cksum + ucast (of_le_bytes [b0, b1] :: i16))"

lemma fold_halves:
  fixes x :: i32
  shows "unat (drop_bit 16 x + (x AND 65535)) = unat x div 65536 + unat x mod 65536"
proof -
  have m: "x AND 65535 = take_bit 16 x"
    using take_bit_eq_mask [of 16 x] by (simp add: mask_eq_exp_minus_1)
  have h: "unat (drop_bit 16 x) = unat x div 65536"
    using unat_drop_bit_div [of 16 x] by simp
  have l: "unat (take_bit 16 x) = unat x mod 65536"
    using unat_take_bit_mod [of 16 x] by simp
  have "unat x < 2 ^ 32" using unsigned_less [of x, where 'a = nat] by simp
  then have "unat x div 65536 + unat x mod 65536 < 2 ^ 32"
    using div_plus_mod_le [of "unat x" 65536] by (rule le_less_trans [rotated])
  then show ?thesis unfolding m by (simp add: unat_word_ariths h l)
qed

text \<open>The second loop folds the high half into the low half until it is zero.\<close>

function cksum_fold :: "i32 \<Rightarrow> i32" where
  "cksum_fold cksum =
     (if drop_bit 16 cksum \<noteq> 0 then cksum_fold (drop_bit 16 cksum + (cksum AND 65535)) else cksum)"
  by pat_completeness auto

termination
proof (relation "measure unat")
  fix x :: i32
  assume "drop_bit 16 x \<noteq> 0"
  then have "unat x div 2 ^ 16 \<noteq> 0" by (metis unat_drop_bit_div unat_eq_zero)
  then have "unat x div 65536 \<noteq> 0" by simp
  then have "unat x div 65536 + unat x mod 65536 < unat x" by (intro div_plus_mod_less) simp_all
  then show "(drop_bit 16 x + (x AND 65535), x) \<in> measure unat"
    by (simp only: in_measure fold_halves)
qed simp

declare cksum_fold.simps [simp del]

definition checksum :: "byte list \<Rightarrow> i16" where
  "checksum buf = ucast (NOT (cksum_fold (cksum_sum buf 0)))"

section \<open>Seven-bit encoded lengths\<close>

text \<open>
  Both overloads of \<^verbatim>\<open>write7BitEncoded\<close> have the same body at two widths: emit the low seven
  bits, with the continuation bit set while higher bits remain.
\<close>

function write7bits :: "'a::len word \<Rightarrow> byte list \<Rightarrow> byte list" where
  "write7bits v buf =
     (let c = ucast (v AND 127) :: byte; v' = drop_bit 7 v
      in if v' \<noteq> 0 then write7bits v' (buf @ [c OR 128]) else buf @ [c])"
  by pat_completeness auto

termination
proof (relation "measure (\<lambda>(v, _). unat v)")
  fix v :: "'a word" and buf :: "byte list" and c v'
  assume "v' = drop_bit 7 v" "v' \<noteq> 0"
  then have "unat v' = unat v div 2 ^ 7" and "unat v' \<noteq> 0"
    by (metis unat_drop_bit_div, metis unat_eq_zero)
  then have "unat v' < unat v" by simp
  then show "((v', buf @ [c OR 128]), v, buf) \<in> measure (\<lambda>(v, _). unat v)" by simp
qed simp

declare write7bits.simps [simp del]

definition write7BitEncoded32 :: "i32 \<Rightarrow> byte list \<Rightarrow> byte list" where
  "write7BitEncoded32 v buf = write7bits v buf"

definition write7BitEncoded64 :: "i64 \<Rightarrow> byte list \<Rightarrow> byte list" where
  "write7BitEncoded64 v buf = write7bits v buf"

text \<open>
  Both overloads of \<^verbatim>\<open>read7BitEncoded\<close>: accumulate seven bits per byte until a byte without
  the continuation bit. The \<^verbatim>\<open>len\<close> argument is never used; running off the array, and
  shifting by the width of the type or more, is undefined.
\<close>

fun read7bits :: "byte list \<Rightarrow> nat \<Rightarrow> 'a::len word \<Rightarrow> 'a word option" where
  "read7bits [] bitCount v = None"
| "read7bits (c # cs) bitCount v =
     (if LENGTH('a) \<le> bitCount then None
      else let v' = v + push_bit bitCount (ucast (c AND 127))
           in if c AND 128 \<noteq> 0 then read7bits cs (bitCount + 7) v' else Some v')"

definition read7BitEncoded32 :: "byte list \<Rightarrow> i32 option" where
  "read7BitEncoded32 buf = read7bits buf 0 0"

definition read7BitEncoded64 :: "byte list \<Rightarrow> i64 option" where
  "read7BitEncoded64 buf = read7bits buf 0 0"

section \<open>BinaryStreamReader\<close>

record binary_reader =
  rmem :: "byte list"
  rlen :: nat
  rcur :: nat

type_synonym 'a read_result = "(binary_reader \<times> 'a option) option"

definition BinaryStreamReader :: "byte list \<Rightarrow> nat \<Rightarrow> binary_reader" where
  "BinaryStreamReader ptr len =
     \<lparr>rmem = ptr, rlen = len, rcur = BINARY_PACKLEN_LEN_2 + CHECKSUM_LEN\<rparr>"

definition IsEmpty :: "binary_reader \<Rightarrow> bool" where
  "IsEmpty r \<longleftrightarrow> rlen r \<le> BINARY_PACKLEN_LEN_2"

definition GetSize :: "binary_reader \<Rightarrow> nat" where
  "GetSize r = rlen r"

text \<open>The copy loop into \<^verbatim>\<open>char buf[5]\<close>: one byte at a time, up to a byte without the top bit.\<close>

fun read_head :: "nat \<Rightarrow> byte list \<Rightarrow> byte list option" where
  "read_head 0 bs = Some []"
| "read_head (Suc k) [] = None"
| "read_head (Suc k) (b # bs) =
     (if b AND 128 = 0 then Some [b] else map_option (Cons b) (read_head k bs))"

definition ReadLengthWithoutOffset :: "binary_reader \<Rightarrow> (nat \<times> nat) read_result" where
  "ReadLengthWithoutOffset r =
     (case read_head 5 (drop (rcur r) (rmem r)) of
        None \<Rightarrow> None
      | Some buf \<Rightarrow>
          let headlen = length buf
          in if rcur r + headlen > rlen r then Some (r, None)
             else (case read7BitEncoded32 buf of
                     None \<Rightarrow> None
                   | Some v \<Rightarrow> Some (r, Some (headlen, unat v))))"

definition ReadLength :: "binary_reader \<Rightarrow> nat read_result" where
  "ReadLength r =
     (case ReadLengthWithoutOffset r of
        None \<Rightarrow> None
      | Some (r', None) \<Rightarrow> Some (r', None)
      | Some (r', Some (headlen, outlen)) \<Rightarrow> Some (r'\<lparr>rcur := rcur r' + headlen\<rparr>, Some outlen))"

text \<open>
  The three string readers share their body: the length prefix, a size test (a failed one
  leaves \<^verbatim>\<open>cur\<close>), the jump over the prefix, the test against the package end (a failed one
  keeps the jump), the copy. \<open>ok\<close> is the size test.
\<close>

definition read_field :: "(nat \<Rightarrow> bool) \<Rightarrow> binary_reader \<Rightarrow> (nat \<times> byte list) read_result" where
  "read_field ok r =
     (case ReadLengthWithoutOffset r of
        None \<Rightarrow> None
      | Some (r', None) \<Rightarrow> Some (r', None)
      | Some (r', Some (headlen, fieldlen)) \<Rightarrow>
          if \<not> ok fieldlen then Some (r', None)
          else let r1 = r'\<lparr>rcur := rcur r' + headlen\<rparr>
               in if rcur r1 + fieldlen > rlen r1 then Some (r1, None)
                  else Some (r1\<lparr>rcur := rcur r1 + fieldlen\<rparr>,
                             Some (rcur r1, segment (rcur r1) (rcur r1 + fieldlen) (rmem r1))))"

definition ReadCString :: "nat \<Rightarrow> binary_reader \<Rightarrow> byte list read_result" where
  "ReadCString strlen r =
     map_option (map_prod id (map_option snd)) (read_field (\<lambda>n. n \<le> strlen) r)"

definition ReadString :: "nat \<Rightarrow> binary_reader \<Rightarrow> byte list read_result" where
  "ReadString maxlen r =
     map_option (map_prod id (map_option snd))
       (read_field (\<lambda>n. \<not> (maxlen \<noteq> 0 \<and> n > maxlen)) r)"

text \<open>\<^verbatim>\<open>ReadCCString\<close> yields the pointer (an offset) and the length instead of a copy.\<close>

definition ReadCCString :: "nat \<Rightarrow> binary_reader \<Rightarrow> (nat \<times> nat) read_result" where
  "ReadCCString maxlen r =
     map_option (map_prod id (map_option (map_prod id length)))
       (read_field (\<lambda>n. \<not> (maxlen \<noteq> 0 \<and> n > maxlen)) r)"

definition read_raw :: "nat \<Rightarrow> binary_reader \<Rightarrow> byte list read_result" where
  "read_raw sz r =
     (if rcur r + sz > rlen r then Some (r, None)
      else Some (r\<lparr>rcur := rcur r + sz\<rparr>, Some (segment (rcur r) (rcur r + sz) (rmem r))))"

definition ReadInt32 :: "binary_reader \<Rightarrow> i32 read_result" where
  "ReadInt32 r =
     map_option (map_prod id (map_option (\<lambda>bs. network_2_host32 (of_le_bytes bs)))) (read_raw 4 r)"

definition ReadShort :: "binary_reader \<Rightarrow> i16 read_result" where
  "ReadShort r =
     map_option (map_prod id (map_option (\<lambda>bs. network_2_host16 (of_le_bytes bs)))) (read_raw 2 r)"

definition ReadChar :: "binary_reader \<Rightarrow> byte read_result" where
  "ReadChar r = map_option (map_prod id (map_option (\<lambda>bs. of_le_bytes bs))) (read_raw 1 r)"

text \<open>
  \<^verbatim>\<open>atoll\<close>: white space, an optional sign, digits up to the first other character. Running
  off the array without a terminator and a value outside \<^verbatim>\<open>int64_t\<close> are undefined.
\<close>

definition is_space :: "byte \<Rightarrow> bool" where
  "is_space b \<longleftrightarrow> b = 32 \<or> (9 \<le> b \<and> b \<le> 13)"

definition is_digit :: "byte \<Rightarrow> bool" where
  "is_digit b \<longleftrightarrow> 48 \<le> b \<and> b \<le> 57"

fun atoll_digits :: "byte list \<Rightarrow> nat \<Rightarrow> nat option" where
  "atoll_digits [] acc = None"
| "atoll_digits (b # bs) acc =
     (if is_digit b then atoll_digits bs (acc * 10 + (unat b - 48)) else Some acc)"

definition atoll :: "byte list \<Rightarrow> i64 option" where
  "atoll s =
     (let t = dropWhile is_space s;
          neg = (case t of b # _ \<Rightarrow> b = 45 | [] \<Rightarrow> False);
          u = (case t of b # bs \<Rightarrow> if b = 45 \<or> b = 43 then bs else t | [] \<Rightarrow> t)
      in case atoll_digits u 0 of
           None \<Rightarrow> None
         | Some n \<Rightarrow>
             let i = (if neg then - int n else int n)
             in if - (2 ^ 63) \<le> i \<and> i < 2 ^ 63 then Some (word_of_int i) else None)"

definition ReadInt64 :: "binary_reader \<Rightarrow> i64 read_result" where
  "ReadInt64 r =
     (case ReadCString 128 r of
        None \<Rightarrow> None
      | Some (r', None) \<Rightarrow> Some (r', None)
      | Some (r', Some s) \<Rightarrow>
          (case atoll (s @ replicate (128 - length s) 0) of
             None \<Rightarrow> None
           | Some i \<Rightarrow> Some (r', Some i)))"

text \<open>\<^verbatim>\<open>assert(cur <= ptr + len)\<close> aborts (\<^const>\<open>None\<close>) when \<^verbatim>\<open>cur\<close> is past the package.\<close>

definition IsEnd :: "binary_reader \<Rightarrow> bool option" where
  "IsEnd r = (if rcur r \<le> rlen r then Some (rcur r = rlen r) else None)"

text \<open>Pointers into the package: the memory it starts, and the position of \<^verbatim>\<open>cur\<close> in it.\<close>

definition GetData :: "binary_reader \<Rightarrow> byte list" where
  "GetData r = rmem r"

definition GetCurrent :: "binary_reader \<Rightarrow> nat" where
  "GetCurrent r = rcur r"

definition ReadAll :: "binary_reader \<Rightarrow> nat \<Rightarrow> byte list" where
  "ReadAll r iLen = take (min iLen (rlen r)) (rmem r)"

section \<open>BinaryStreamWriter\<close>

definition BinaryStreamWriter :: "byte list \<Rightarrow> byte list" where
  "BinaryStreamWriter str = [] @ take (BINARY_PACKLEN_LEN_2 + CHECKSUM_LEN) str"

definition writer_GetData :: "byte list \<Rightarrow> byte list" where
  "writer_GetData data = data"

definition writer_GetSize :: "byte list \<Rightarrow> nat" where
  "writer_GetSize data = length data"

definition GetCurrentPos :: "byte list \<Rightarrow> nat" where
  "GetCurrentPos data = length data"

definition WriteCString :: "byte list \<Rightarrow> byte list \<Rightarrow> byte list" where
  "WriteCString data s = data @ write7BitEncoded64 (of_nat (length s)) [] @ s"

definition WriteString :: "byte list \<Rightarrow> byte list \<Rightarrow> byte list" where
  "WriteString data s = WriteCString data s"

definition WriteInt32 :: "byte list \<Rightarrow> i32 \<Rightarrow> bool \<Rightarrow> byte list" where
  "WriteInt32 data i isNULL =
     data @ le_bytes 4 (if \<not> isNULL then host_2_network32 i else 999999999)"

definition WriteInt64 :: "byte list \<Rightarrow> i64 \<Rightarrow> bool \<Rightarrow> byte list" where
  "WriteInt64 data v isNULL =
     (if \<not> isNULL then WriteCString data (bytes_of_string (dec_int (sint v)))
      else WriteCString data [])"

definition WriteShort :: "byte list \<Rightarrow> i16 \<Rightarrow> bool \<Rightarrow> byte list" where
  "WriteShort data i isNULL = data @ le_bytes 2 (if \<not> isNULL then host_2_network16 i else 0)"

definition WriteChar :: "byte list \<Rightarrow> byte \<Rightarrow> bool \<Rightarrow> byte list" where
  "WriteChar data c isNULL = data @ [if \<not> isNULL then c else 0]"

text \<open>The text of a double is what \<^verbatim>\<open>sprintf\<close> with \<^verbatim>\<open>%f\<close> prints, an argument.\<close>

definition WriteDouble :: "('d \<Rightarrow> byte list) \<Rightarrow> byte list \<Rightarrow> 'd \<Rightarrow> bool \<Rightarrow> byte list" where
  "WriteDouble sprintf_f data v isNULL =
     (if \<not> isNULL then WriteCString data (sprintf_f v) else WriteCString data [])"

definition Flush :: "byte list \<Rightarrow> byte list" where
  "Flush data = overwrite data 0 (le_bytes 4 (host_2_network32 (of_nat (length data))))"

definition Clear :: "byte list \<Rightarrow> byte list \<Rightarrow> byte list" where
  "Clear data str = [] @ take (BINARY_PACKLEN_LEN_2 + CHECKSUM_LEN) str"

section \<open>The seven-bit code on numbers\<close>

text \<open>The reference: base 128, least significant digit first, continuation bit on all but the last.\<close>

fun enc7 :: "nat \<Rightarrow> byte list" where
  "enc7 n = (if n < 128 then [of_nat n] else of_nat (n mod 128 + 128) # enc7 (n div 128))"

declare enc7.simps [simp del]

lemma and_127: "(w :: 'a::len word) AND 127 = take_bit 7 w"
  using take_bit_eq_mask [of 7 w] by (simp add: mask_eq_exp_minus_1)

lemma low_seven_bits: "(ucast ((v :: 'a::len word) AND 127) :: byte) = of_nat (unat v mod 128)"
proof -
  have "(ucast (take_bit 7 v) :: byte) = of_nat (unat (take_bit 7 v))" by simp
  then show ?thesis using unat_take_bit_mod [of 7 v] by (simp add: and_127)
qed

lemma byte_and_128: "(c :: byte) AND 128 = 0 \<longleftrightarrow> \<not> bit c 7"
  using and_exp_eq_0_iff_not_bit [of c 7] by simp

lemma byte_small_bit7:
  assumes "n < 128"
  shows "\<not> bit (of_nat n :: byte) 7"
proof -
  have "unat (of_nat n :: byte) = n" using assms by (simp add: unat_of_nat)
  then have "unat (drop_bit 7 (of_nat n :: byte)) = 0"
    using assms by (simp only: unat_drop_bit_div) simp
  then have "drop_bit 7 (of_nat n :: byte) = 0" by (simp only: unat_eq_zero)
  then show ?thesis by (simp add: bit_iff_odd_drop_bit)
qed

lemma byte_set_bit7:
  assumes "n < 128"
  shows "(of_nat n OR 128 :: byte) = of_nat (n + 128)" "bit (of_nat (n + 128) :: byte) 7"
proof -
  have z: "(of_nat n :: byte) AND 128 = 0"
    using byte_small_bit7 [OF assms] by (simp add: byte_and_128)
  show eq: "(of_nat n OR 128 :: byte) = of_nat (n + 128)"
    using word_plus_and_or [of "of_nat n :: byte" 128] z by simp
  have "bit (of_nat n OR 128 :: byte) 7"
    using bit_exp_iff [where 'a = byte, of 7 7] by (simp add: bit_or_iff)
  then show "bit (of_nat (n + 128) :: byte) 7" by (simp only: eq)
qed

lemma write7bits_enc7: "write7bits v buf = buf @ enc7 (unat v)"
proof (induction v buf rule: write7bits.induct)
  case (1 v buf)
  have lt: "unat v mod 128 < 128" by simp
  have d: "unat (drop_bit 7 v) = unat v div 128" using unat_drop_bit_div [of 7 v] by simp
  show ?case
  proof (cases "drop_bit 7 v = 0")
    case True
    then have "unat v div 128 = 0" using d by (metis unat_0)
    then have "unat v < 128" by (simp add: div_eq_0_iff)
    then show ?thesis using True
      by (simp add: write7bits.simps [of v] enc7.simps [of "unat v"] low_seven_bits Let_def)
  next
    case False
    then have "unat v div 128 \<noteq> 0" using d by (metis unat_eq_zero)
    then have "\<not> unat v < 128" by (simp add: div_eq_0_iff)
    then show ?thesis using "1.IH" [OF refl refl False] False d byte_set_bit7(1) [OF lt]
      by (simp add: write7bits.simps [of v] enc7.simps [of "unat v"] low_seven_bits Let_def)
  qed
qed

lemma byte_and_127: "n < 128 \<Longrightarrow> ucast ((of_nat n :: byte) AND 127) = (of_nat n :: 'a::len word)"
  "n < 128 \<Longrightarrow> ucast ((of_nat (n + 128) :: byte) AND 127) = (of_nat n :: 'a::len word)"
proof -
  have *: "ucast ((of_nat m :: byte) AND 127) = (of_nat (m mod 128) :: 'a word)" for m
  proof -
    have "unat ((of_nat m :: byte) AND 127) = m mod 128"
      using unat_take_bit_mod [of 7 "of_nat m :: byte"] by (simp add: and_127 unat_of_nat mod_mod_cancel)
    then show ?thesis by (metis of_nat_unat)
  qed
  show "n < 128 \<Longrightarrow> ucast ((of_nat n :: byte) AND 127) = (of_nat n :: 'a word)"
    and "n < 128 \<Longrightarrow> ucast ((of_nat (n + 128) :: byte) AND 127) = (of_nat n :: 'a word)"
    using * [of n] * [of "n + 128"] by simp_all
qed

lemma read7bits_enc7:
  "n * 2 ^ k < 2 ^ LENGTH('a) \<Longrightarrow> k < LENGTH('a) \<Longrightarrow>
     read7bits (enc7 n @ rest) k v = Some (v + of_nat (n * 2 ^ k) :: 'a::len word)"
proof (induction n arbitrary: k v rule: enc7.induct)
  case (1 n)
  show ?case
  proof (cases "n < 128")
    case True
    then show ?thesis using 1 byte_and_127(1) [OF True, where 'a = 'a] byte_small_bit7 [OF True]
      by (simp add: enc7.simps [of n] byte_and_128 Let_def push_bit_eq_mult)
  next
    case False
    let ?r = "n mod 128" and ?q = "n div 128"
    have n: "n = ?r + 128 * ?q" by simp
    have r: "?r < 128" by simp
    have q: "0 < ?q" using False by (simp add: div_greater_zero_iff)
    have "(a + 128 * b) * 2 ^ k = a * 2 ^ k + b * 2 ^ (k + 7)" for a b :: nat
      by (simp add: power_add algebra_simps)
    then have e: "n * 2 ^ k = ?r * 2 ^ k + ?q * 2 ^ (k + 7)" using n by metis
    then have le: "?q * 2 ^ (k + 7) < 2 ^ LENGTH('a)" using "1.prems"(1) by simp
    have "2 ^ (k + 7) \<le> ?q * 2 ^ (k + 7)" using q by simp
    then have "(2::nat) ^ (k + 7) < 2 ^ LENGTH('a)" using le by linarith
    then have kk: "k + 7 < LENGTH('a)" by (rule power_less_imp_less_exp [rotated]) simp
    have IH: "read7bits (enc7 ?q @ rest) (k + 7) u = Some (u + of_nat (?q * 2 ^ (k + 7)) :: 'a word)" for u
      using "1.IH" [OF False le kk] .
    have "v + push_bit k (of_nat ?r) + of_nat (?q * 2 ^ (k + 7)) = v + of_nat (n * 2 ^ k)"
      by (simp add: e push_bit_eq_mult)
    then show ?thesis
      using "1.prems"(2) False byte_and_127(2) [OF r, where 'a = 'a] byte_set_bit7(2) [OF r] IH
      by (simp add: enc7.simps [of n] byte_and_128 Let_def del: of_nat_add)
  qed
qed

lemma read_head_enc7: "0 < k \<Longrightarrow> n < 128 ^ k \<Longrightarrow> read_head k (enc7 n @ rest) = Some (enc7 n)"
proof (induction k arbitrary: n)
  case (Suc k)
  show ?case
  proof (cases "n < 128")
    case True
    then show ?thesis using byte_small_bit7 [OF True] by (simp add: enc7.simps [of n] byte_and_128)
  next
    case False
    have q: "n div 128 < 128 ^ k" using Suc.prems(2) by (simp add: less_mult_imp_div_less mult.commute)
    have k: "0 < k" using False Suc.prems(2) by (cases k) simp_all
    have r: "n mod 128 < 128" by simp
    show ?thesis using False byte_set_bit7(2) [OF r] Suc.IH [OF k q]
      by (simp add: enc7.simps [of n] byte_and_128 del: of_nat_add)
  qed
qed simp

lemma length_enc7: "0 < k \<Longrightarrow> n < 128 ^ k \<Longrightarrow> length (enc7 n) \<le> k"
proof (induction k arbitrary: n)
  case (Suc k)
  show ?case
  proof (cases "n < 128")
    case False
    have "n div 128 < 128 ^ k" using Suc.prems(2) by (simp add: less_mult_imp_div_less mult.commute)
    moreover have "0 < k" using False Suc.prems(2) by (cases k) simp_all
    ultimately show ?thesis using Suc.IH False by (simp add: enc7.simps [of n])
  qed (simp add: enc7.simps [of n])
qed simp

lemma enc7_nonempty [simp]: "enc7 n \<noteq> []"
  by (simp add: enc7.simps [of n])

lemma read7BitEncoded32_enc7: "n < 2 ^ 32 \<Longrightarrow> read7BitEncoded32 (enc7 n @ rest) = Some (of_nat n)"
  using read7bits_enc7 [of n 0 rest "0 :: i32"] by (simp add: read7BitEncoded32_def)

section \<open>The checksum as a one's complement sum\<close>

fun le16_sum :: "byte list \<Rightarrow> nat" where
  "le16_sum [] = 0"
| "le16_sum [b] = unat b"
| "le16_sum (b0 # b1 # bs) = unat b0 + 256 * unat b1 + le16_sum bs"

lemma unat_pair: "unat (of_le_bytes [b0, b1] :: i16) = unat b0 + 256 * unat b1"
proof -
  have "(of_le_bytes [b0, b1] :: i16) = ucast b0 OR push_bit 8 (ucast b1)" by simp
  also have "\<dots> = ucast b0 + push_bit 8 (ucast b1)"
  proof -
    have "ucast b0 AND push_bit 8 (ucast b1 :: i16) = 0"
      by (rule bit_eqI) (auto simp: bit_simps dest: bit_imp_le_length)
    then show ?thesis using word_plus_and_or [of "ucast b0" "push_bit 8 (ucast b1 :: i16)"] by simp
  qed
  finally have "(of_le_bytes [b0, b1] :: i16) = of_nat (unat b0 + 256 * unat b1)"
    by (simp add: push_bit_eq_mult mult.commute)
  moreover have "unat b0 + 256 * unat b1 < 2 ^ 16"
    using unsigned_less [of b0, where 'a = nat] unsigned_less [of b1, where 'a = nat] by simp
  ultimately show ?thesis by (simp only: unat_of_nat) simp
qed

lemma unat_cksum_sum:
  "unat c + le16_sum bs < 2 ^ 32 \<Longrightarrow> unat (cksum_sum bs c) = unat c + le16_sum bs"
proof (induction bs c rule: cksum_sum.induct)
  case (2 b c)
  have "unat (ucast b :: i32) = unat b" by (simp add: unat_ucast_up)
  then show ?case using "2.prems" by (simp add: unat_word_ariths)
next
  case (3 b0 b1 bs c)
  let ?w = "ucast (of_le_bytes [b0, b1] :: i16) :: i32"
  have w: "unat ?w = unat b0 + 256 * unat b1"
    using unat_pair [of b0 b1] by (simp add: unat_ucast_up del: of_le_bytes.simps)
  then have u: "unat (c + ?w) = unat c + unat b0 + 256 * unat b1"
    using "3.prems" by (simp add: unat_word_ariths del: of_le_bytes.simps)
  then show ?case using 3 by (simp del: of_le_bytes.simps)
qed simp

lemma cksum_fold_correct: "unat (cksum_fold x) < 65536 \<and> unat (cksum_fold x) mod 65535 = unat x mod 65535"
proof (induction x rule: cksum_fold.induct)
  case (1 x)
  show ?case
  proof (cases "drop_bit 16 x = 0")
    case True
    then have "unat x div 2 ^ 16 = 0" by (metis unat_0 unat_drop_bit_div)
    then show ?thesis using True by (simp add: cksum_fold.simps [of x] div_eq_0_iff)
  next
    case False
    let ?q = "unat x div 65536" and ?r = "unat x mod 65536"
    have "unat x = ?q + ?r + 65535 * ?q"
      using div_mult_mod_eq [of "unat x" 65536] by linarith
    then have "unat x mod 65535 = (?q + ?r) mod 65535" by (metis mod_mult_self2)
    then show ?thesis using 1 False by (simp add: cksum_fold.simps [of x] fold_halves)
  qed
qed

section \<open>Decimal text of 64-bit integers\<close>

lemma is_digit_digit:
  assumes "d < 10"
  shows "is_digit (of_nat (48 + d))" "unat (of_nat (48 + d) :: byte) = 48 + d"
proof -
  show u: "unat (of_nat (48 + d) :: byte) = 48 + d" using assms by (intro unat_small_byte) simp
  show "is_digit (of_nat (48 + d))"
    using assms by (simp add: is_digit_def word_le_nat_alt u del: of_nat_add)
qed

lemma atoll_digits_dec_nat:
  "atoll_digits (bytes_of_string (dec_nat n) @ xs) acc =
     atoll_digits xs (acc * 10 ^ length (dec_nat n) + n)"
proof (induction n arbitrary: xs acc rule: dec_nat.induct)
  case (1 n)
  show ?case
  proof (cases "n < 10")
    case True
    then show ?thesis using is_digit_digit [OF True]
      by (simp add: dec_nat.simps [of n] bytes_of_digit del: of_nat_add)
  next
    case False
    let ?d = "n mod 10" and ?q = "n div 10"
    have d: "?d < 10" by simp
    have "atoll_digits (bytes_of_string (dec_nat n) @ xs) acc =
        atoll_digits (of_nat (48 + ?d) # xs) (acc * 10 ^ length (dec_nat ?q) + ?q)"
      using False "1.IH" [OF False] by (simp add: dec_nat.simps [of n] bytes_of_digit del: of_nat_add)
    also have "\<dots> = atoll_digits xs ((acc * 10 ^ length (dec_nat ?q) + ?q) * 10 + ?d)"
      using is_digit_digit [OF d] by (simp del: of_nat_add)
    also have "(acc * 10 ^ length (dec_nat ?q) + ?q) * 10 + ?d = acc * 10 ^ length (dec_nat n) + n"
      using False by (simp add: dec_nat.simps [of n] algebra_simps)
    finally show ?thesis .
  qed
qed

lemma dec_nat_head: "\<exists>d ds. dec_nat n = digit_char d # ds \<and> d < 10"
proof (induction n rule: dec_nat.induct)
  case (1 n)
  then show ?case by (cases "n < 10") (auto simp: dec_nat.simps [of n])
qed

lemma bytes_dec_nat_head: "\<exists>b bs. bytes_of_string (dec_nat n) = b # bs \<and> is_digit b"
proof -
  obtain d ds where "dec_nat n = [digit_char d] @ ds" "d < 10" using dec_nat_head [of n] by auto
  then have "bytes_of_string (dec_nat n) = of_nat (48 + d) # bytes_of_string ds"
    by (simp add: bytes_of_string_def digit_char_def)
  then show ?thesis using is_digit_digit(1) [OF \<open>d < 10\<close>] by blast
qed

lemma digit_no_space: "is_digit b \<Longrightarrow> \<not> is_space b \<and> b \<noteq> 45 \<and> b \<noteq> 43"
  by (auto simp: is_digit_def is_space_def word_le_nat_alt)

lemma atoll_dec_int:
  assumes "- (2 ^ 63) \<le> i" and "i < 2 ^ 63"
  shows "atoll (bytes_of_string (dec_int i) @ 0 # rest) = Some (word_of_int i)"
proof (cases "i < 0")
  case True
  have "bytes_of_string (dec_int i) = 45 # bytes_of_string (dec_nat (nat (- i)))"
    using True by (simp add: dec_int_def bytes_of_string_def)
  then show ?thesis using True assms
    by (simp add: atoll_def is_space_def atoll_digits_dec_nat is_digit_def Let_def)
next
  case False
  obtain b bs where b: "bytes_of_string (dec_nat (nat i)) = b # bs" "is_digit b"
    using bytes_dec_nat_head by blast
  have "atoll_digits (b # bs @ 0 # rest) 0 = Some (nat i)"
    using atoll_digits_dec_nat [of "nat i" "0 # rest" 0] b(1) by (simp add: is_digit_def)
  then show ?thesis using False assms b digit_no_space [OF b(2)]
    by (simp add: atoll_def dec_int_def Let_def)
qed

lemma length_dec_int: "- (2 ^ 63) \<le> i \<Longrightarrow> i < 2 ^ 63 \<Longrightarrow> length (dec_int i) \<le> 20"
  using length_dec_nat [of 19 "nat (- i)"] length_dec_nat [of 19 "nat i"]
  by (cases "i < 0") (simp_all add: dec_int_def nat_less_iff)

lemma sint_int64: "- (2 ^ 63) \<le> sint (v :: i64)" "sint v < 2 ^ 63"
  using sint_greater_eq [of v] sint_less [of v] by simp_all

section \<open>Fields on the wire\<close>

datatype pfield = PInt32 i32 | PShort i16 | PChar byte | PString "byte list" | PInt64 i64

fun write_pfield :: "byte list \<Rightarrow> pfield \<Rightarrow> byte list" where
  "write_pfield data (PInt32 i) = WriteInt32 data i False"
| "write_pfield data (PShort i) = WriteShort data i False"
| "write_pfield data (PChar c) = WriteChar data c False"
| "write_pfield data (PString s) = WriteString data s"
| "write_pfield data (PInt64 i) = WriteInt64 data i False"

definition tag_result :: "('a \<Rightarrow> pfield) \<Rightarrow> 'a read_result \<Rightarrow> pfield read_result" where
  "tag_result f x = map_option (map_prod id (map_option f)) x"

fun read_pfield :: "binary_reader \<Rightarrow> pfield \<Rightarrow> pfield read_result" where
  "read_pfield r (PInt32 _) = tag_result PInt32 (ReadInt32 r)"
| "read_pfield r (PShort _) = tag_result PShort (ReadShort r)"
| "read_pfield r (PChar _) = tag_result PChar (ReadChar r)"
| "read_pfield r (PString _) = tag_result PString (ReadString 0 r)"
| "read_pfield r (PInt64 _) = tag_result PInt64 (ReadInt64 r)"

fun read_pfields :: "binary_reader \<Rightarrow> pfield list \<Rightarrow> pfield list read_result" where
  "read_pfields r [] = Some (r, Some [])"
| "read_pfields r (f # fs) =
     (case read_pfield r f of
        None \<Rightarrow> None
      | Some (r', None) \<Rightarrow> Some (r', None)
      | Some (r', Some g) \<Rightarrow>
          (case read_pfields r' fs of
             None \<Rightarrow> None
           | Some (r'', gs) \<Rightarrow> Some (r'', map_option (Cons g) gs)))"

fun pfield_bytes :: "pfield \<Rightarrow> byte list" where
  "pfield_bytes (PInt32 i) = rev (le_bytes 4 i)"
| "pfield_bytes (PShort i) = rev (le_bytes 2 i)"
| "pfield_bytes (PChar c) = [c]"
| "pfield_bytes (PString s) = enc7 (length s) @ s"
| "pfield_bytes (PInt64 i) =
     enc7 (length (dec_int (sint i))) @ bytes_of_string (dec_int (sint i))"

fun pfield_ok :: "pfield \<Rightarrow> bool" where
  "pfield_ok (PString s) = (length s < 2 ^ 32)"
| "pfield_ok _ = True"

lemma WriteCString_enc7: "length s < 2 ^ 64 \<Longrightarrow> WriteCString data s = data @ enc7 (length s) @ s"
  by (simp add: WriteCString_def write7BitEncoded64_def write7bits_enc7 unat_of_nat)

lemma write_pfield_bytes: "pfield_ok f \<Longrightarrow> write_pfield data f = data @ pfield_bytes f"
proof (cases f)
  case (PInt64 i)
  have "length (dec_int (sint i)) < 2 ^ 64"
    using length_dec_int [OF sint_int64, of i] by (simp add: le_less_trans)
  then show ?thesis using PInt64 by (simp add: WriteInt64_def WriteCString_enc7)
qed (simp_all add: WriteInt32_def WriteShort_def WriteChar_def WriteString_def WriteCString_enc7)

text \<open>A reader is positioned at \<open>bs\<close> when those bytes are next and belong to the package.\<close>

definition at_bytes :: "binary_reader \<Rightarrow> byte list \<Rightarrow> byte list \<Rightarrow> bool" where
  "at_bytes r bs rest \<longleftrightarrow>
     drop (rcur r) (rmem r) = bs @ rest \<and> rcur r + length bs \<le> rlen r"

lemma at_bytes_segment: "at_bytes r bs rest \<Longrightarrow> segment (rcur r) (rcur r + length bs) (rmem r) = bs"
  by (simp add: at_bytes_def segment_def)

lemma at_bytes_advance:
  assumes "at_bytes r (a @ b) rest"
  shows "at_bytes (r\<lparr>rcur := rcur r + length a\<rparr>) b rest"
proof -
  have eq: "drop (rcur r) (rmem r) = a @ (b @ rest)" using assms by (simp add: at_bytes_def)
  have "drop (length a) (drop (rcur r) (rmem r)) = b @ rest" by (simp only: eq) simp
  then show ?thesis using assms by (simp add: at_bytes_def add.commute)
qed

lemma read_raw_at:
  assumes "at_bytes r bs rest"
  shows "read_raw (length bs) r = Some (r\<lparr>rcur := rcur r + length bs\<rparr>, Some bs)"
  using assms at_bytes_segment [OF assms] by (simp add: read_raw_def at_bytes_def)

lemma ReadLengthWithoutOffset_at:
  assumes "at_bytes r (enc7 n) rest" and "n < 2 ^ 32"
  shows "ReadLengthWithoutOffset r = Some (r, Some (length (enc7 n), n))"
proof -
  have "read_head 5 (drop (rcur r) (rmem r)) = Some (enc7 n)"
    using assms read_head_enc7 [of 5 n rest] by (simp add: at_bytes_def)
  moreover have "read7BitEncoded32 (enc7 n) = Some (of_nat n)"
    using read7BitEncoded32_enc7 [OF assms(2), of "[]"] by simp
  moreover have "unat (of_nat n :: i32) = n" using assms(2) by (simp add: unat_of_nat)
  ultimately show ?thesis using assms(1) by (simp add: ReadLengthWithoutOffset_def at_bytes_def Let_def)
qed

lemma read_field_at:
  assumes "at_bytes r (enc7 (length s) @ s) rest" and "length s < 2 ^ 32" and "ok (length s)"
  shows "read_field ok r =
    Some (r\<lparr>rcur := rcur r + length (enc7 (length s) @ s)\<rparr>,
          Some (rcur r + length (enc7 (length s)), s))"
proof -
  let ?h = "enc7 (length s)"
  have h: "at_bytes r ?h (s @ rest)" using assms(1) by (simp add: at_bytes_def)
  note l = ReadLengthWithoutOffset_at [OF h assms(2)]
  have a: "at_bytes (r\<lparr>rcur := rcur r + length ?h\<rparr>) s rest"
    using at_bytes_advance assms(1) by blast
  have "segment (rcur r + length ?h) (rcur r + length ?h + length s) (rmem r) = s"
    using at_bytes_segment [OF a] by simp
  then show ?thesis using a assms(3) by (simp add: read_field_def l at_bytes_def Let_def add.assoc)
qed

lemma read_pfield_at:
  assumes "at_bytes r (pfield_bytes f) rest" and "pfield_ok f"
  shows "read_pfield r f = Some (r\<lparr>rcur := rcur r + length (pfield_bytes f)\<rparr>, Some f)"
proof (cases f)
  case (PInt32 i)
  have "of_le_bytes (rev (le_bytes 4 i)) = host_2_network32 i"
    by (simp add: host_2_network32_def byte_swap_def)
  then show ?thesis using read_raw_at [OF assms(1)] PInt32
    by (simp add: ReadInt32_def tag_result_def)
next
  case (PShort i)
  have "of_le_bytes (rev (le_bytes 2 i)) = host_2_network16 i"
    by (simp add: host_2_network16_def byte_swap_def)
  then show ?thesis using read_raw_at [OF assms(1)] PShort
    by (simp add: ReadShort_def tag_result_def)
next
  case (PChar c)
  then show ?thesis using read_raw_at [OF assms(1)] by (simp add: ReadChar_def tag_result_def)
next
  case (PString s)
  then show ?thesis using read_field_at [of r s rest] assms by (simp add: ReadString_def tag_result_def)
next
  case (PInt64 i)
  let ?s = "bytes_of_string (dec_int (sint i))"
  have len: "length ?s \<le> 20" using length_dec_int [OF sint_int64, of i] by simp
  then obtain z where "replicate (128 - length ?s) (0 :: byte) = 0 # z"
    by (cases "128 - length ?s") simp_all
  then have "atoll (?s @ replicate (128 - length ?s) 0) = Some (word_of_int (sint i))"
    using atoll_dec_int [OF sint_int64, of i z] by simp
  then have at: "atoll (?s @ replicate (128 - length (dec_int (sint i))) 0) = Some i" by simp
  have "read_field (\<lambda>n. n \<le> 128) r =
      Some (r\<lparr>rcur := rcur r + length (pfield_bytes f)\<rparr>, Some (rcur r + length (enc7 (length ?s)), ?s))"
    using read_field_at [of r ?s rest "\<lambda>n. n \<le> 128"] assms(1) PInt64 len by simp
  then show ?thesis using at PInt64 by (simp add: ReadInt64_def ReadCString_def tag_result_def)
qed

lemma read_pfields_at:
  "at_bytes r (concat (map pfield_bytes fs)) rest \<Longrightarrow> list_all pfield_ok fs \<Longrightarrow>
     read_pfields r fs =
       Some (r\<lparr>rcur := rcur r + length (concat (map pfield_bytes fs))\<rparr>, Some fs)"
proof (induction fs arbitrary: r)
  case (Cons f fs)
  let ?b = "pfield_bytes f" and ?bs = "concat (map pfield_bytes fs)"
  have a: "at_bytes r (?b @ ?bs) rest" using Cons.prems(1) by simp
  have "at_bytes r ?b (?bs @ rest)" using a by (simp add: at_bytes_def)
  then have f: "read_pfield r f = Some (r\<lparr>rcur := rcur r + length ?b\<rparr>, Some f)"
    using Cons.prems(2) by (intro read_pfield_at) simp_all
  show ?case using Cons.IH [OF at_bytes_advance [OF a]] Cons.prems(2) f by (simp add: add.assoc)
qed simp

lemma write_pfields_bytes:
  "list_all pfield_ok fs \<Longrightarrow> foldl write_pfield data fs = data @ concat (map pfield_bytes fs)"
  by (induction fs arbitrary: data) (simp_all add: write_pfield_bytes)

lemma Flush_eq:
  assumes "6 \<le> length data"
  shows "Flush data = rev (le_bytes 4 (of_nat (length data) :: i32)) @ drop 4 data"
  using assms by (simp add: Flush_def overwrite_def)

section \<open>Properties\<close>

text \<open>
  every number survives the seven-bit length code at both widths, whatever follows it in
  memory, and the code takes at most 5 bytes for 32 bits and 10 bytes for 64 bits.
\<close>

theorem seven_bit_round_trip:
  "read7BitEncoded32 (write7BitEncoded32 v [] @ rest) = Some v \<and>
   read7BitEncoded64 (write7BitEncoded64 w [] @ rest) = Some w \<and>
   length (write7BitEncoded32 v []) \<le> 5 \<and> length (write7BitEncoded64 w []) \<le> 10"
proof -
  have v: "unat v < 2 ^ 32" and w: "unat w < 2 ^ 64"
    using unsigned_less [of v, where 'a = nat] unsigned_less [of w, where 'a = nat] by simp_all
  show ?thesis
    using read7bits_enc7 [of "unat v" 0 rest "0 :: i32"] read7bits_enc7 [of "unat w" 0 rest "0 :: i64"]
      length_enc7 [of 5 "unat v"] length_enc7 [of 10 "unat w"] v w
    by (simp add: read7BitEncoded32_def read7BitEncoded64_def write7BitEncoded32_def
        write7BitEncoded64_def write7bits_enc7)
qed



text \<open>
  C2: a package written field by field and flushed carries its own length in network order in
  its first four bytes, and a reader on it returns every field with its value and then reports
  the end of the package. Strings must be shorter than four gigabytes.
\<close>

theorem stream_round_trip:
  assumes "list_all pfield_ok fs" and "length junk = 6"
  shows "let data = Flush (foldl write_pfield (BinaryStreamWriter junk) fs);
             r = BinaryStreamReader data (length data)
         in take 4 data = rev (le_bytes 4 (of_nat (length data) :: i32)) \<and>
            (\<exists>r'. read_pfields r fs = Some (r', Some fs) \<and> IsEnd r' = Some True)"
proof -
  let ?bs = "concat (map pfield_bytes fs)"
  let ?raw = "junk @ ?bs"
  have raw: "foldl write_pfield (BinaryStreamWriter junk) fs = ?raw"
    using assms by (simp add: BinaryStreamWriter_def BINARY_PACKLEN_LEN_2_def CHECKSUM_LEN_def
        write_pfields_bytes)
  define data where "data = rev (le_bytes 4 (of_nat (length ?raw) :: i32)) @ drop 4 ?raw"
  have fl: "Flush ?raw = data" unfolding data_def using assms by (intro Flush_eq) simp
  have len: "length data = 6 + length ?bs" using assms by (simp add: data_def)
  have hd: "take 4 data = rev (le_bytes 4 (of_nat (length data) :: i32))"
    using len assms(2) by (simp add: data_def)
  let ?r = "BinaryStreamReader data (length data)"
  have "at_bytes ?r ?bs []"
    using assms by (simp add: at_bytes_def BinaryStreamReader_def BINARY_PACKLEN_LEN_2_def
        CHECKSUM_LEN_def len) (simp add: data_def)
  then have rd: "read_pfields ?r fs = Some (?r\<lparr>rcur := rcur ?r + length ?bs\<rparr>, Some fs)"
    using assms(1) by (rule read_pfields_at)
  have "IsEnd (?r\<lparr>rcur := rcur ?r + length ?bs\<rparr>) = Some True"
    by (simp add: IsEnd_def BinaryStreamReader_def BINARY_PACKLEN_LEN_2_def CHECKSUM_LEN_def len)
  then show ?thesis using rd hd by (simp add: raw fl Let_def)
qed

theorem stream_round_trip_witness:
  "let data = Flush (foldl write_pfield (BinaryStreamWriter [0, 0, 0, 0, 0, 0]) [PInt32 1002, PString [104, 105]]);
       r = BinaryStreamReader data (length data)
   in take 4 data = rev (le_bytes 4 (of_nat (length data) :: i32)) \<and>
      (\<exists>r'. read_pfields r [PInt32 1002, PString [104, 105]] = Some (r', Some [PInt32 1002, PString [104, 105]])
        \<and> IsEnd r' = Some True)"
  by (rule stream_round_trip) simp_all

text \<open>
  a length prefix of five bytes that all carry the continuation bit makes the reader run
  past its five-byte array (undefined behaviour) instead of returning false.
\<close>

theorem length_prefix_overrun:
  assumes "drop (rcur r) (rmem r) = [c0, c1, c2, c3, c4] @ rest"
    and "\<forall>c \<in> set [c0, c1, c2, c3, c4]. c AND 128 \<noteq> 0"
    and "rcur r + 5 \<le> rlen r"
  shows "ReadLengthWithoutOffset r = None \<and> ReadString maxlen r = None"
proof -
  have "read_head 5 (drop (rcur r) (rmem r)) = Some [c0, c1, c2, c3, c4]"
    using assms(1,2) by (simp add: eval_nat_numeral)
  moreover have "read7BitEncoded32 [c0, c1, c2, c3, c4] = None"
    using assms(2) by (simp add: read7BitEncoded32_def Let_def)
  ultimately have "ReadLengthWithoutOffset r = None"
    using assms(3) by (simp add: ReadLengthWithoutOffset_def Let_def)
  then show ?thesis by (simp add: ReadString_def read_field_def)
qed

theorem length_prefix_overrun_witness:
  "ReadLengthWithoutOffset \<lparr>rmem = [128, 129, 130, 131, 255, 7], rlen = 6, rcur = 0\<rparr> = None"
  using length_prefix_overrun [of "\<lparr>rmem = [128, 129, 130, 131, 255, 7], rlen = 6, rcur = 0\<rparr>"
      128 129 130 131 255 "[7]" 0]
  by simp

end
