(* ===== verification/Byte_Buffer.thy ===== *)
theory Byte_Buffer
  imports Inet_Endian
begin

text \<open>
  \<^verbatim>\<open>network/byte_buffer.h\<close> and \<^verbatim>\<open>network/byte_buffer.cpp\<close>: the class \<^verbatim>\<open>ByteBuffer\<close>, a
  vector with a reader and a writer index; the members lose their trailing underscore. Indices are \<^verbatim>\<open>size_t\<close> in the source and
  \<^typ>\<open>nat\<close> here; every subtraction the code makes is guarded or kept exact by
  \<open>bb_wf\<close>, so no index wraps. A pointer into the buffer is the index it points at, and a
  null pointer is \<^const>\<open>None\<close>.
  The locale \<open>byte_queue\<close> is the contract the connection layer relies on: a first-in
  first-out stream of bytes; it is interpreted on this model at the end.
\<close>

section \<open>State and operations\<close>

definition cheap_prepend :: nat where "cheap_prepend = 8"

definition initial_size :: nat where "initial_size = 1024"

record byte_buffer =
  buffer :: "byte list"
  read_idx :: nat
  write_idx :: nat

text \<open>The constructor ignores its argument and always allocates \<^verbatim>\<open>initial_size\<close>.\<close>

definition ByteBuffer :: "nat \<Rightarrow> byte_buffer" where
  "ByteBuffer sz =
     \<lparr>buffer = replicate (cheap_prepend + initial_size) 0,
      read_idx = cheap_prepend, write_idx = cheap_prepend\<rparr>"

definition bb_swap :: "byte_buffer \<Rightarrow> byte_buffer \<Rightarrow> byte_buffer \<times> byte_buffer" where
  "bb_swap lhs rhs =
     (lhs\<lparr>buffer := buffer rhs, read_idx := read_idx rhs, write_idx := write_idx rhs\<rparr>,
      rhs\<lparr>buffer := buffer lhs, read_idx := read_idx lhs, write_idx := write_idx lhs\<rparr>)"

definition bb_bytes_readable :: "byte_buffer \<Rightarrow> nat" where
  "bb_bytes_readable b = write_idx b - read_idx b"

definition bb_bytes_writeable :: "byte_buffer \<Rightarrow> nat" where
  "bb_bytes_writeable b = length (buffer b) - write_idx b"

definition bb_bytes_prependable :: "byte_buffer \<Rightarrow> nat" where
  "bb_bytes_prependable b = read_idx b"

definition bb_peek :: "byte_buffer \<Rightarrow> nat" where
  "bb_peek b = read_idx b"

definition bb_write_beginning :: "byte_buffer \<Rightarrow> nat" where
  "bb_write_beginning b = write_idx b"

text \<open>
  \<open>search_from b p pat\<close> is \<^verbatim>\<open>std::search(p, bb_write_beginning(), pat, pat + n)\<close> followed by
  the comparison with the end iterator that turns "not found" into a null pointer. A match
  at the end itself (possible only for an empty pattern) also compares equal to the end.
\<close>

definition search_from :: "byte_buffer \<Rightarrow> nat \<Rightarrow> byte list \<Rightarrow> nat option" where
  "search_from b p pat =
     (case find_sub pat (segment p (write_idx b) (buffer b)) of
        None \<Rightarrow> None
      | Some i \<Rightarrow> if p + i = bb_write_beginning b then None else Some (p + i))"

definition CLRF :: "byte list" where "CLRF = [13, 10]"

definition bb_find_string :: "byte_buffer \<Rightarrow> byte list \<Rightarrow> nat option" where
  "bb_find_string b target = search_from b (bb_peek b) target"

definition bb_find_CLRF :: "byte_buffer \<Rightarrow> nat option" where
  "bb_find_CLRF b = search_from b (bb_peek b) CLRF"

definition bb_find_CLRF_start :: "byte_buffer \<Rightarrow> nat \<Rightarrow> nat option" where
  "bb_find_CLRF_start b start =
     (if bb_peek b > start then None
      else if start > bb_write_beginning b then None
      else search_from b start CLRF)"

text \<open>\<^verbatim>\<open>memchr(p, 10, n)\<close> over the bytes from \<open>p\<close>.\<close>

definition memchr_from :: "byte_buffer \<Rightarrow> nat \<Rightarrow> byte \<Rightarrow> nat \<Rightarrow> nat option" where
  "memchr_from b p c n = map_option (\<lambda>i. p + i) (find_sub [c] (segment p (p + n) (buffer b)))"

definition bb_find_EOL :: "byte_buffer \<Rightarrow> nat option" where
  "bb_find_EOL b = memchr_from b (bb_peek b) 10 (bb_bytes_readable b)"

definition bb_findEOL :: "byte_buffer \<Rightarrow> nat \<Rightarrow> nat option" where
  "bb_findEOL b start =
     (if bb_peek b > start then None
      else if start > bb_write_beginning b then None
      else memchr_from b start 10 (bb_write_beginning b - start))"

definition bb_retrieve_all :: "byte_buffer \<Rightarrow> byte_buffer" where
  "bb_retrieve_all b = b\<lparr>read_idx := cheap_prepend, write_idx := cheap_prepend\<rparr>"

definition bb_retrieve :: "byte_buffer \<Rightarrow> nat \<Rightarrow> byte_buffer \<times> bool" where
  "bb_retrieve b len =
     (if len > bb_bytes_readable b then (b, False)
      else if len < bb_bytes_readable b then (b\<lparr>read_idx := read_idx b + len\<rparr>, True)
      else (bb_retrieve_all b, True))"

definition bb_retrieve_until :: "byte_buffer \<Rightarrow> nat \<Rightarrow> byte_buffer \<times> bool" where
  "bb_retrieve_until b pend =
     (if bb_peek b > pend then (b, False)
      else if pend > bb_write_beginning b then (b, False)
      else (fst (bb_retrieve b (pend - bb_peek b)), True))"

definition bb_retrieve_int64 :: "byte_buffer \<Rightarrow> byte_buffer" where
  "bb_retrieve_int64 b = fst (bb_retrieve b 8)"

definition bb_retrieve_int32 :: "byte_buffer \<Rightarrow> byte_buffer" where
  "bb_retrieve_int32 b = fst (bb_retrieve b 4)"

definition bb_retrieve_int16 :: "byte_buffer \<Rightarrow> byte_buffer" where
  "bb_retrieve_int16 b = fst (bb_retrieve b 2)"

definition bb_retrieve_int8 :: "byte_buffer \<Rightarrow> byte_buffer" where
  "bb_retrieve_int8 b = fst (bb_retrieve b 1)"

definition bb_retrieve_as_string :: "byte_buffer \<Rightarrow> nat \<Rightarrow> byte_buffer \<times> byte list" where
  "bb_retrieve_as_string b len =
     (if len > bb_bytes_readable b then (b, [])
      else let result = segment (bb_peek b) (bb_peek b + len) (buffer b)
           in (fst (bb_retrieve b len), result))"

definition bb_retrieve_all_as_string :: "byte_buffer \<Rightarrow> byte_buffer \<times> byte list" where
  "bb_retrieve_all_as_string b = bb_retrieve_as_string b (bb_bytes_readable b)"

text \<open>
  \<^verbatim>\<open>std::string(bb_peek(), static_cast<int>(n))\<close>: the length is narrowed to 32 bits; a
  negative length converts back to a huge \<^verbatim>\<open>size_t\<close> and the constructor throws
  \<^verbatim>\<open>std::length_error\<close> (\<^const>\<open>None\<close>).
\<close>

definition bb_2_string_piece :: "byte_buffer \<Rightarrow> byte list option" where
  "bb_2_string_piece b =
     (let n = bb_bytes_readable b mod 2 ^ 32
      in if n < 2 ^ 31 then Some (segment (bb_peek b) (bb_peek b + n) (buffer b)) else None)"

definition make_zoom :: "byte_buffer \<Rightarrow> nat \<Rightarrow> byte_buffer" where
  "make_zoom b len =
     (if bb_bytes_writeable b + bb_bytes_prependable b < len + cheap_prepend
      then b\<lparr>buffer := resize (write_idx b + len) (buffer b)\<rparr>
      else if cheap_prepend \<ge> read_idx b then b
      else let readable = bb_bytes_readable b
           in b\<lparr>buffer := overwrite (buffer b) cheap_prepend
                             (segment (read_idx b) (write_idx b) (buffer b)),
                read_idx := cheap_prepend,
                write_idx := cheap_prepend + readable\<rparr>)"

definition bb_bytes_check_writable :: "byte_buffer \<Rightarrow> nat \<Rightarrow> byte_buffer \<times> bool" where
  "bb_bytes_check_writable b len =
     (if bb_bytes_writeable b < len then (make_zoom b len, True) else (b, True))"

definition bb_bytes_written :: "byte_buffer \<Rightarrow> nat \<Rightarrow> byte_buffer \<times> bool" where
  "bb_bytes_written b len =
     (if len > bb_bytes_writeable b then (b, False)
      else (b\<lparr>write_idx := write_idx b + len\<rparr>, True))"

definition bb_bytes_unwrite :: "byte_buffer \<Rightarrow> nat \<Rightarrow> byte_buffer \<times> bool" where
  "bb_bytes_unwrite b len =
     (if len > bb_bytes_readable b then (b, False)
      else (b\<lparr>write_idx := write_idx b - len\<rparr>, True))"

text \<open>
  \<^verbatim>\<open>bb_append\<close> names \<^verbatim>\<open>bb_bytes_writeable()\<close>, a count, as the destination of
  \<^verbatim>\<open>std::copy\<close>; that call has no meaning as C++ (a \<^verbatim>\<open>size_t\<close> is no output iterator).
  The model copies to \<^verbatim>\<open>bb_write_beginning()\<close>, the start of the writable region that the
  next line, \<^verbatim>\<open>bb_bytes_written(len)\<close>, then declares written.
\<close>

definition bb_append :: "byte_buffer \<Rightarrow> byte list \<Rightarrow> byte_buffer" where
  "bb_append b data =
     (let b1 = fst (bb_bytes_check_writable b (length data));
          b2 = b1\<lparr>buffer := overwrite (buffer b1) (bb_write_beginning b1) data\<rparr>
      in fst (bb_bytes_written b2 (length data)))"

definition bb_append_int64 :: "byte_buffer \<Rightarrow> i64 \<Rightarrow> byte_buffer" where
  "bb_append_int64 b x = bb_append b (le_bytes 8 (host_2_network64 x))"

definition bb_append_int32 :: "byte_buffer \<Rightarrow> i32 \<Rightarrow> byte_buffer" where
  "bb_append_int32 b x = bb_append b (le_bytes 4 (host_2_network32 x))"

definition bb_append_int16 :: "byte_buffer \<Rightarrow> i16 \<Rightarrow> byte_buffer" where
  "bb_append_int16 b x = bb_append b (le_bytes 2 (host_2_network16 x))"

definition bb_append_int8 :: "byte_buffer \<Rightarrow> byte \<Rightarrow> byte_buffer" where
  "bb_append_int8 b x = bb_append b [x]"

definition bb_peek_int64 :: "byte_buffer \<Rightarrow> i64" where
  "bb_peek_int64 b =
     (if bb_bytes_readable b < 8 then - 1
      else network_2_host64 (of_le_bytes (segment (bb_peek b) (bb_peek b + 8) (buffer b))))"

definition bb_peek_int32 :: "byte_buffer \<Rightarrow> i32" where
  "bb_peek_int32 b =
     (if bb_bytes_readable b < 4 then - 1
      else network_2_host32 (of_le_bytes (segment (bb_peek b) (bb_peek b + 4) (buffer b))))"

definition bb_peek_int16 :: "byte_buffer \<Rightarrow> i16" where
  "bb_peek_int16 b =
     (if bb_bytes_readable b < 2 then - 1
      else network_2_host16 (of_le_bytes (segment (bb_peek b) (bb_peek b + 2) (buffer b))))"

definition bb_peek_int8 :: "byte_buffer \<Rightarrow> byte" where
  "bb_peek_int8 b = (if bb_bytes_readable b < 1 then - 1 else buffer b ! bb_peek b)"

definition bb_read_int64 :: "byte_buffer \<Rightarrow> byte_buffer \<times> i64" where
  "bb_read_int64 b = (let result = bb_peek_int64 b in (bb_retrieve_int64 b, result))"

definition bb_read_int32 :: "byte_buffer \<Rightarrow> byte_buffer \<times> i32" where
  "bb_read_int32 b = (let result = bb_peek_int32 b in (bb_retrieve_int32 b, result))"

definition bb_read_int16 :: "byte_buffer \<Rightarrow> byte_buffer \<times> i16" where
  "bb_read_int16 b = (let result = bb_peek_int16 b in (bb_retrieve_int16 b, result))"

definition bb_read_int8 :: "byte_buffer \<Rightarrow> byte_buffer \<times> byte" where
  "bb_read_int8 b = (let result = bb_peek_int8 b in (bb_retrieve_int8 b, result))"

definition bb_prepend :: "byte_buffer \<Rightarrow> byte list \<Rightarrow> byte_buffer \<times> bool" where
  "bb_prepend b data =
     (if length data > bb_bytes_prependable b then (b, False)
      else let r = read_idx b - length data
           in (b\<lparr>read_idx := r, buffer := overwrite (buffer b) r data\<rparr>, True))"

definition bb_prepend_int64 :: "byte_buffer \<Rightarrow> i64 \<Rightarrow> byte_buffer" where
  "bb_prepend_int64 b x = fst (bb_prepend b (le_bytes 8 (host_2_network64 x)))"

definition bb_prepend_int32 :: "byte_buffer \<Rightarrow> i32 \<Rightarrow> byte_buffer" where
  "bb_prepend_int32 b x = fst (bb_prepend b (le_bytes 4 (host_2_network32 x)))"

definition bb_prepend_int16 :: "byte_buffer \<Rightarrow> i16 \<Rightarrow> byte_buffer" where
  "bb_prepend_int16 b x = fst (bb_prepend b (le_bytes 2 (host_2_network16 x)))"

definition bb_prepend_int8 :: "byte_buffer \<Rightarrow> byte \<Rightarrow> byte_buffer" where
  "bb_prepend_int8 b x = fst (bb_prepend b [x])"

definition bb_shrink :: "byte_buffer \<Rightarrow> nat \<Rightarrow> byte_buffer option" where
  "bb_shrink b reserve =
     (let other = fst (bb_bytes_check_writable (ByteBuffer initial_size)
                         (bb_bytes_readable b + reserve))
      in case bb_2_string_piece b of
           None \<Rightarrow> None
         | Some piece \<Rightarrow> Some (fst (bb_swap b (bb_append other piece))))"

text \<open>
  The Linux branch of \<^verbatim>\<open>bb_read_fd\<close>. The system call is an argument: \<open>n\<close> its result,
  \<open>extrabuf\<close> the bytes it stored in the stack buffer and \<open>err\<close> the value of \<^verbatim>\<open>errno\<close>. The
  result is the buffer, \<open>n\<close>, and what \<^verbatim>\<open>*saved_errno\<close> was set to, if it was.
\<close>

definition bb_read_fd ::
  "byte_buffer \<Rightarrow> int \<Rightarrow> byte list \<Rightarrow> int \<Rightarrow> byte_buffer \<times> int \<times> int option" where
  "bb_read_fd b n extrabuf err =
     (let writable = bb_bytes_writeable b in
      if n \<le> 0 then (b, n, Some err)
      else if nat n \<le> writable then (b\<lparr>write_idx := write_idx b + nat n\<rparr>, n, None)
      else let b1 = b\<lparr>write_idx := length (buffer b)\<rparr>
           in (bb_append b1 (take (nat n - writable) extrabuf), n, None))"

section \<open>Invariant and abstraction\<close>

text \<open>
  The class comment's picture \<^verbatim>\<open>0 <= readerIndex <= writerIndex <= size\<close>, plus the reserve
  that \<^verbatim>\<open>bb_retrieve_all\<close> relies on. The content is the readable region.
\<close>

definition bb_wf :: "byte_buffer \<Rightarrow> bool" where
  "bb_wf b \<longleftrightarrow> read_idx b \<le> write_idx b \<and> write_idx b \<le> length (buffer b) \<and>
     cheap_prepend \<le> length (buffer b)"

definition bb_content :: "byte_buffer \<Rightarrow> byte list" where
  "bb_content b = segment (read_idx b) (write_idx b) (buffer b)"

lemmas bb_view = bb_bytes_readable_def bb_bytes_writeable_def bb_bytes_prependable_def
  bb_peek_def bb_write_beginning_def

lemma cheap_prepend_bound [simp]: "cheap_prepend \<le> 1032" "cheap_prepend + initial_size = 1032"
  by (simp_all add: cheap_prepend_def initial_size_def)

lemma bb_wfD:
  assumes "bb_wf b"
  shows "read_idx b \<le> write_idx b" "write_idx b \<le> length (buffer b)"
    "read_idx b \<le> length (buffer b)" "cheap_prepend \<le> length (buffer b)"
  using assms by (auto simp: bb_wf_def)

lemma length_bb_content [simp]: "bb_wf b \<Longrightarrow> length (bb_content b) = bb_bytes_readable b"
  by (simp add: bb_content_def bb_bytes_readable_def bb_wf_def)

lemma ByteBuffer_wf [simp]: "bb_wf (ByteBuffer sz)"
  by (simp add: bb_wf_def ByteBuffer_def cheap_prepend_def initial_size_def)

lemma ByteBuffer_content [simp]: "bb_content (ByteBuffer sz) = []"
  by (simp add: bb_content_def ByteBuffer_def)

lemma bb_retrieve_all_wf [simp]: "bb_wf b \<Longrightarrow> bb_wf (bb_retrieve_all b)"
  by (simp add: bb_wf_def bb_retrieve_all_def)

lemma bb_retrieve_all_content [simp]: "bb_content (bb_retrieve_all b) = []"
  by (simp add: bb_content_def bb_retrieve_all_def)

lemma bb_retrieve_wf [simp]: "bb_wf b \<Longrightarrow> bb_wf (fst (bb_retrieve b len))"
  by (auto simp: bb_retrieve_def) (auto simp: bb_wf_def bb_bytes_readable_def)

lemma bb_retrieve_content:
  assumes "bb_wf b" and "len \<le> bb_bytes_readable b"
  shows "bb_content (fst (bb_retrieve b len)) = drop len (bb_content b)"
proof (cases "len < bb_bytes_readable b")
  case True
  then show ?thesis by (simp add: bb_retrieve_def bb_content_def drop_segment)
next
  case False
  then show ?thesis using assms by (simp add: bb_retrieve_def)
qed

lemma bb_retrieve_fail [simp]: "len > bb_bytes_readable b \<Longrightarrow> bb_retrieve b len = (b, False)"
  by (simp add: bb_retrieve_def)

lemma bb_retrieve_ok: "snd (bb_retrieve b len) \<longleftrightarrow> len \<le> bb_bytes_readable b"
  by (auto simp: bb_retrieve_def)

lemma peeked_bytes:
  assumes "bb_wf b" and "len \<le> bb_bytes_readable b"
  shows "segment (bb_peek b) (bb_peek b + len) (buffer b) = take len (bb_content b)"
proof -
  have "min (write_idx b) (read_idx b + len) = read_idx b + len"
    using assms by (auto simp: bb_wf_def bb_bytes_readable_def)
  then show ?thesis by (simp add: bb_content_def take_segment bb_peek_def)
qed

section \<open>Making room\<close>

lemma make_zoom_correct:
  assumes "bb_wf b" and "bb_bytes_writeable b < len"
  shows "bb_wf (make_zoom b len)" "bb_content (make_zoom b len) = bb_content b"
    "len \<le> bb_bytes_writeable (make_zoom b len)"
proof -
  note wf = bb_wfD [OF assms(1)]
  consider (grow) "bb_bytes_writeable b + bb_bytes_prependable b < len + cheap_prepend"
    | (move) "\<not> bb_bytes_writeable b + bb_bytes_prependable b < len + cheap_prepend"
      "cheap_prepend < read_idx b"
    using assms(2) by (fastforce simp: bb_view)
  then have "bb_wf (make_zoom b len) \<and> bb_content (make_zoom b len) = bb_content b \<and>
      len \<le> bb_bytes_writeable (make_zoom b len)"
  proof cases
    case grow
    then show ?thesis
      using wf assms(2) by (auto simp: make_zoom_def bb_wf_def bb_content_def bb_view segment_resize)
  next
    case move
    let ?mid = "segment (read_idx b) (write_idx b) (buffer b)"
    have len: "length ?mid = bb_bytes_readable b" using wf by (simp add: bb_view)
    have fits: "cheap_prepend + length ?mid \<le> length (buffer b)"
      using wf move(2) len by (simp add: bb_view)
    have "segment cheap_prepend (cheap_prepend + bb_bytes_readable b)
            (overwrite (buffer b) cheap_prepend ?mid) = ?mid"
      using segment_overwrite_at [OF fits] len by simp
    then show ?thesis
      using move fits len wf
      by (auto simp: make_zoom_def bb_wf_def bb_content_def bb_view Let_def)
  qed
  then show "bb_wf (make_zoom b len)" "bb_content (make_zoom b len) = bb_content b"
    "len \<le> bb_bytes_writeable (make_zoom b len)" by auto
qed

lemma bb_bytes_check_writable_correct:
  assumes "bb_wf b"
  shows "bb_wf (fst (bb_bytes_check_writable b len))"
    "bb_content (fst (bb_bytes_check_writable b len)) = bb_content b"
    "len \<le> bb_bytes_writeable (fst (bb_bytes_check_writable b len))"
  using make_zoom_correct [OF assms, of len] assms
  by (auto simp: bb_bytes_check_writable_def)

lemma bb_append_correct:
  assumes "bb_wf b"
  shows "bb_wf (bb_append b data)" "bb_content (bb_append b data) = bb_content b @ data"
proof -
  define b1 where "b1 = fst (bb_bytes_check_writable b (length data))"
  have wf: "bb_wf b1" and c: "bb_content b1 = bb_content b"
    and room: "length data \<le> bb_bytes_writeable b1"
    using bb_bytes_check_writable_correct [OF assms] by (simp_all add: b1_def)
  note ix = bb_wfD [OF wf]
  have fits: "write_idx b1 + length data \<le> length (buffer b1)"
    using room ix by (simp add: bb_view)
  let ?buf = "overwrite (buffer b1) (write_idx b1) data"
  have eq: "bb_append b data =
      b1\<lparr>buffer := ?buf, write_idx := write_idx b1 + length data\<rparr>"
    using room fits ix by (simp add: bb_append_def b1_def [symmetric] Let_def bb_bytes_written_def bb_view)
  show "bb_wf (bb_append b data)" using fits ix by (simp add: eq bb_wf_def)
  have "segment (read_idx b1) (write_idx b1 + length data) ?buf =
      segment (read_idx b1) (write_idx b1) ?buf @ segment (write_idx b1) (write_idx b1 + length data) ?buf"
    using ix by (intro segment_append [symmetric]) auto
  also have "\<dots> = segment (read_idx b1) (write_idx b1) (buffer b1) @ data"
    using ix fits by (simp add: segment_overwrite_before segment_overwrite_at)
  finally show "bb_content (bb_append b data) = bb_content b @ data"
    by (simp add: eq bb_content_def c [unfolded bb_content_def])
qed

lemmas bb_append_wf [simp] = bb_append_correct(1)
lemmas bb_append_content [simp] = bb_append_correct(2)

lemma bb_bytes_written_wf [simp]: "bb_wf b \<Longrightarrow> bb_wf (fst (bb_bytes_written b len))"
  by (auto simp: bb_bytes_written_def bb_wf_def bb_bytes_writeable_def)

lemma bb_bytes_unwrite_wf [simp]: "bb_wf b \<Longrightarrow> bb_wf (fst (bb_bytes_unwrite b len))"
  by (auto simp: bb_bytes_unwrite_def bb_wf_def bb_bytes_readable_def)

lemma bb_prepend_wf [simp]: "bb_wf b \<Longrightarrow> bb_wf (fst (bb_prepend b data))"
  by (auto simp: bb_prepend_def bb_wf_def bb_view Let_def)

lemma bb_prepend_content:
  assumes "bb_wf b" and "length data \<le> bb_bytes_prependable b"
  shows "bb_content (fst (bb_prepend b data)) = data @ bb_content b"
proof -
  note ix = bb_wfD [OF assms(1)]
  let ?r = "read_idx b - length data"
  have r: "?r + length data = read_idx b" using assms(2) by (simp add: bb_view)
  have "segment ?r (write_idx b) (overwrite (buffer b) ?r data) =
      segment ?r (read_idx b) (overwrite (buffer b) ?r data) @
      segment (read_idx b) (write_idx b) (overwrite (buffer b) ?r data)"
    using ix by (intro segment_append [symmetric]) auto
  also have "\<dots> = data @ segment (read_idx b) (write_idx b) (buffer b)"
    using segment_overwrite_at [of ?r data "buffer b"] r ix by (simp add: segment_overwrite_after)
  finally show ?thesis using assms(2) by (simp add: bb_prepend_def Let_def bb_content_def bb_view)
qed

lemma bb_swap_unit [simp]: "bb_swap b c = (c, b)" for b c :: byte_buffer
  by (cases b, cases c) (simp add: bb_swap_def)

lemma bb_2_string_piece_content:
  assumes "bb_wf b" and "bb_bytes_readable b < 2 ^ 31"
  shows "bb_2_string_piece b = Some (bb_content b)"
  using assms peeked_bytes [OF assms(1), of "bb_bytes_readable b"]
  by (simp add: bb_2_string_piece_def Let_def)

lemma bb_shrink_correct:
  assumes "bb_wf b" and "bb_bytes_readable b < 2 ^ 31"
  shows "\<exists>b'. bb_shrink b reserve = Some b' \<and> bb_wf b' \<and> bb_content b' = bb_content b"
  using bb_bytes_check_writable_correct [OF ByteBuffer_wf, of initial_size]
    bb_2_string_piece_content [OF assms]
  by (simp add: bb_shrink_def Let_def)

section \<open>Fixed-width integers\<close>

lemma bb_retrieve_as_string_correct:
  assumes "bb_wf b" and "len \<le> bb_bytes_readable b"
  shows "snd (bb_retrieve_as_string b len) = take len (bb_content b)"
    "bb_content (fst (bb_retrieve_as_string b len)) = drop len (bb_content b)"
    "bb_wf (fst (bb_retrieve_as_string b len))"
  using assms peeked_bytes [OF assms] bb_retrieve_content [OF assms]
  by (simp_all add: bb_retrieve_as_string_def Let_def)

lemma bb_peek_int_content:
  assumes "bb_wf b"
  shows "8 \<le> bb_bytes_readable b \<Longrightarrow>
      bb_peek_int64 b = network_2_host64 (of_le_bytes (take 8 (bb_content b)))"
    "4 \<le> bb_bytes_readable b \<Longrightarrow>
      bb_peek_int32 b = network_2_host32 (of_le_bytes (take 4 (bb_content b)))"
    "2 \<le> bb_bytes_readable b \<Longrightarrow>
      bb_peek_int16 b = network_2_host16 (of_le_bytes (take 2 (bb_content b)))"
  using peeked_bytes [OF assms]
  by (simp_all add: bb_peek_int64_def bb_peek_int32_def bb_peek_int16_def del: add_2_eq_Suc')

lemma readable_ge:
  assumes "bb_wf b" and "bb_content b = d @ rest"
  shows "length d \<le> bb_bytes_readable b"
proof -
  have "bb_bytes_readable b = length (d @ rest)"
    using length_bb_content [OF assms(1)] assms(2) by simp
  then show ?thesis by simp
qed

lemma bb_read_int64_front:
  assumes "bb_wf b" and "bb_content b = rev (le_bytes 8 x) @ rest"
  shows "snd (bb_read_int64 b) = x" "bb_content (fst (bb_read_int64 b)) = rest"
    "bb_wf (fst (bb_read_int64 b))"
proof -
  have r: "8 \<le> bb_bytes_readable b" using readable_ge [OF assms] by simp
  have "of_le_bytes (rev (le_bytes 8 x)) = host_2_network64 x"
    by (simp add: host_2_network64_def byte_swap_def)
  then show "snd (bb_read_int64 b) = x"
    using bb_peek_int_content(1) [OF assms(1) r] assms(2) by (simp add: bb_read_int64_def Let_def)
  show "bb_content (fst (bb_read_int64 b)) = rest" "bb_wf (fst (bb_read_int64 b))"
    using bb_retrieve_content [OF assms(1) r] assms
    by (simp_all add: bb_read_int64_def bb_retrieve_int64_def Let_def)
qed

lemma bb_read_int32_front:
  assumes "bb_wf b" and "bb_content b = rev (le_bytes 4 x) @ rest"
  shows "snd (bb_read_int32 b) = x" "bb_content (fst (bb_read_int32 b)) = rest"
    "bb_wf (fst (bb_read_int32 b))"
proof -
  have r: "4 \<le> bb_bytes_readable b" using readable_ge [OF assms] by simp
  have "of_le_bytes (rev (le_bytes 4 x)) = host_2_network32 x"
    by (simp add: host_2_network32_def byte_swap_def)
  then show "snd (bb_read_int32 b) = x"
    using bb_peek_int_content(2) [OF assms(1) r] assms(2) by (simp add: bb_read_int32_def Let_def)
  show "bb_content (fst (bb_read_int32 b)) = rest" "bb_wf (fst (bb_read_int32 b))"
    using bb_retrieve_content [OF assms(1) r] assms
    by (simp_all add: bb_read_int32_def bb_retrieve_int32_def Let_def)
qed

lemma bb_read_int16_front:
  assumes "bb_wf b" and "bb_content b = rev (le_bytes 2 x) @ rest"
  shows "snd (bb_read_int16 b) = x" "bb_content (fst (bb_read_int16 b)) = rest"
    "bb_wf (fst (bb_read_int16 b))"
proof -
  have r: "2 \<le> bb_bytes_readable b" using readable_ge [OF assms] by simp
  have "of_le_bytes (rev (le_bytes 2 x)) = host_2_network16 x"
    by (simp add: host_2_network16_def byte_swap_def)
  then show "snd (bb_read_int16 b) = x"
    using bb_peek_int_content(3) [OF assms(1) r] assms(2) by (simp add: bb_read_int16_def Let_def)
  show "bb_content (fst (bb_read_int16 b)) = rest" "bb_wf (fst (bb_read_int16 b))"
    using bb_retrieve_content [OF assms(1) r] assms
    by (simp_all add: bb_read_int16_def bb_retrieve_int16_def Let_def)
qed

lemma bb_append_int_content [simp]:
  assumes "bb_wf b"
  shows "bb_content (bb_append_int64 b x) = bb_content b @ rev (le_bytes 8 x)"
    "bb_content (bb_append_int32 b y) = bb_content b @ rev (le_bytes 4 y)"
    "bb_content (bb_append_int16 b z) = bb_content b @ rev (le_bytes 2 z)"
    "bb_wf (bb_append_int64 b x)" "bb_wf (bb_append_int32 b y)" "bb_wf (bb_append_int16 b z)"
    "bb_wf (bb_append_int8 b c)"
  using assms by (simp_all add: bb_append_int64_def bb_append_int32_def bb_append_int16_def bb_append_int8_def)

text \<open>A message of integers of mixed width, written and read field by field.\<close>

datatype bb_field = F64 i64 | F32 i32 | F16 i16

fun append_field :: "byte_buffer \<Rightarrow> bb_field \<Rightarrow> byte_buffer" where
  "append_field b (F64 x) = bb_append_int64 b x"
| "append_field b (F32 x) = bb_append_int32 b x"
| "append_field b (F16 x) = bb_append_int16 b x"

fun read_like :: "byte_buffer \<Rightarrow> bb_field \<Rightarrow> byte_buffer \<times> bb_field" where
  "read_like b (F64 _) = (let (b', v) = bb_read_int64 b in (b', F64 v))"
| "read_like b (F32 _) = (let (b', v) = bb_read_int32 b in (b', F32 v))"
| "read_like b (F16 _) = (let (b', v) = bb_read_int16 b in (b', F16 v))"

fun read_fields :: "byte_buffer \<Rightarrow> bb_field list \<Rightarrow> byte_buffer \<times> bb_field list" where
  "read_fields b [] = (b, [])"
| "read_fields b (f # fs) =
     (let (b1, g) = read_like b f; (b2, gs) = read_fields b1 fs in (b2, g # gs))"

fun field_bytes :: "bb_field \<Rightarrow> byte list" where
  "field_bytes (F64 x) = rev (le_bytes 8 x)"
| "field_bytes (F32 x) = rev (le_bytes 4 x)"
| "field_bytes (F16 x) = rev (le_bytes 2 x)"

lemma append_field_correct [simp]:
  "bb_wf b \<Longrightarrow> bb_wf (append_field b f)"
  "bb_wf b \<Longrightarrow> bb_content (append_field b f) = bb_content b @ field_bytes f"
  by (cases f, simp_all)+

lemma append_fields_content:
  "bb_wf b \<Longrightarrow> bb_wf (foldl append_field b fs) \<and>
     bb_content (foldl append_field b fs) = bb_content b @ concat (map field_bytes fs)"
  by (induction fs arbitrary: b) simp_all

lemma read_like_front:
  assumes "bb_wf b" and "bb_content b = field_bytes f @ rest"
  shows "\<exists>b'. read_like b f = (b', f) \<and> bb_wf b' \<and> bb_content b' = rest"
  using assms bb_read_int64_front [OF assms(1)] bb_read_int32_front [OF assms(1)]
    bb_read_int16_front [OF assms(1)]
  by (cases f) (auto simp: case_prod_unfold Let_def)

lemma read_fields_front:
  "bb_wf b \<Longrightarrow> bb_content b = concat (map field_bytes fs) @ rest \<Longrightarrow>
     \<exists>b'. read_fields b fs = (b', fs) \<and> bb_wf b' \<and> bb_content b' = rest"
proof (induction fs arbitrary: b)
  case (Cons f fs)
  then obtain b1 where "read_like b f = (b1, f)" "bb_wf b1"
    "bb_content b1 = concat (map field_bytes fs) @ rest"
    using read_like_front [of b f] by fastforce
  then show ?case using Cons.IH [of b1] by auto
qed simp

section \<open>Every buffer the class can build\<close>

inductive bb_reachable :: "byte_buffer \<Rightarrow> bool" where
  new: "bb_reachable (ByteBuffer sz)"
| retrieve: "bb_reachable b \<Longrightarrow> bb_reachable (fst (bb_retrieve b n))"
| retrieve_until: "bb_reachable b \<Longrightarrow> bb_reachable (fst (bb_retrieve_until b p))"
| retrieve_all: "bb_reachable b \<Longrightarrow> bb_reachable (bb_retrieve_all b)"
| retrieve_as_string: "bb_reachable b \<Longrightarrow> bb_reachable (fst (bb_retrieve_as_string b n))"
| check_writable: "bb_reachable b \<Longrightarrow> bb_reachable (fst (bb_bytes_check_writable b n))"
| written: "bb_reachable b \<Longrightarrow> bb_reachable (fst (bb_bytes_written b n))"
| unwrite: "bb_reachable b \<Longrightarrow> bb_reachable (fst (bb_bytes_unwrite b n))"
| append: "bb_reachable b \<Longrightarrow> bb_reachable (bb_append b d)"
| prepend: "bb_reachable b \<Longrightarrow> bb_reachable (fst (bb_prepend b d))"
| shrink: "bb_reachable b \<Longrightarrow> bb_shrink b n = Some b' \<Longrightarrow> bb_reachable b'"
| read_fd: "bb_reachable b \<Longrightarrow> bb_reachable (fst (bb_read_fd b k d e))"

lemma bb_retrieve_until_wf [simp]: "bb_wf b \<Longrightarrow> bb_wf (fst (bb_retrieve_until b p))"
  by (simp add: bb_retrieve_until_def)

lemma bb_retrieve_as_string_wf [simp]: "bb_wf b \<Longrightarrow> bb_wf (fst (bb_retrieve_as_string b n))"
  by (simp add: bb_retrieve_as_string_def Let_def)

lemma bb_shrink_wf: "bb_shrink b n = Some b' \<Longrightarrow> bb_wf b'"
  using bb_bytes_check_writable_correct [OF ByteBuffer_wf, of initial_size]
  by (auto simp: bb_shrink_def Let_def split: option.splits)

lemma bb_read_fd_wf [simp]: "bb_wf b \<Longrightarrow> bb_wf (fst (bb_read_fd b k d e))"
proof -
  assume wf: "bb_wf b"
  then have "bb_wf (b\<lparr>write_idx := length (buffer b)\<rparr>)" by (auto simp: bb_wf_def)
  with wf show ?thesis
    by (auto simp: bb_read_fd_def Let_def) (auto simp: bb_wf_def bb_bytes_writeable_def)
qed

section \<open>The contract used by connections\<close>

text \<open>
  A first-in first-out stream of bytes. \<open>put\<close> appends, \<open>get\<close> drops from the front and
  refuses, without effect, to drop more than there is.
\<close>

locale byte_queue =
  fixes inv :: "'q \<Rightarrow> bool"
    and content :: "'q \<Rightarrow> byte list"
    and put :: "'q \<Rightarrow> byte list \<Rightarrow> 'q"
    and get :: "'q \<Rightarrow> nat \<Rightarrow> 'q \<times> bool"
  assumes put_inv: "inv q \<Longrightarrow> inv (put q d)"
    and put_content: "inv q \<Longrightarrow> content (put q d) = content q @ d"
    and get_inv: "inv q \<Longrightarrow> inv (fst (get q n))"
    and get_content: "inv q \<Longrightarrow> n \<le> length (content q) \<Longrightarrow> content (fst (get q n)) = drop n (content q)"
    and get_refuses: "inv q \<Longrightarrow> length (content q) < n \<Longrightarrow> get q n = (q, False)"
begin

text \<open>What a drain sends followed by what stays queued is what was queued.\<close>

lemma get_splits:
  assumes "inv q" and "n \<le> length (content q)"
  shows "take n (content q) @ content (fst (get q n)) = content q"
  using get_content [OF assms] by simp

lemma put_then_get:
  assumes "inv q" and "n \<le> length (content q)"
  shows "content (fst (get (put q d) n)) = content (put (fst (get q n)) d)"
  using assms by (simp add: put_inv put_content get_inv get_content)

lemma get_empties_iff:
  assumes "inv q" and "n \<le> length (content q)"
  shows "content (fst (get q n)) = [] \<longleftrightarrow> n = length (content q)"
  using assms by (auto simp: get_content)

end

interpretation bbq: byte_queue bb_wf bb_content bb_append bb_retrieve
proof unfold_locales
  fix q n
  assume "bb_wf q" and "n \<le> length (bb_content q)"
  then show "bb_content (fst (bb_retrieve q n)) = drop n (bb_content q)"
    by (simp add: bb_retrieve_content)
qed simp_all

section \<open>Properties\<close>





text \<open>
  integers of 16, 32 and 64 bits, written in any order to an empty buffer in network
  byte order, are read back in that order with their values, and the buffer is empty again.
\<close>

theorem bb_fields_round_trip:
  assumes "bb_wf b" and "bb_content b = []"
  shows "\<exists>b'. read_fields (foldl append_field b fs) fs = (b', fs) \<and> bb_wf b' \<and> bb_content b' = []"
  using append_fields_content [OF assms(1), of fs] assms(2)
  by (intro read_fields_front) simp_all

theorem bb_fields_round_trip_witness:
  "\<exists>b'. read_fields (foldl append_field (ByteBuffer 0) [F32 305419896, F16 513, F64 7])
          [F32 305419896, F16 513, F64 7] = (b', [F32 305419896, F16 513, F64 7])
        \<and> bb_wf b' \<and> bb_content b' = []"
  by (rule bb_fields_round_trip) simp_all

text \<open>
  shrinking to a given reserve succeeds for every buffer of less than two gigabytes and
  keeps the readable bytes.
\<close>

theorem bb_shrink_keeps_content:
  assumes "bb_wf b" and "bb_bytes_readable b < 2 ^ 31"
  shows "\<exists>b'. bb_shrink b reserve = Some b' \<and> bb_wf b' \<and> bb_content b' = bb_content b"
  using assms by (rule bb_shrink_correct)

theorem bb_shrink_keeps_content_witness:
  "\<exists>b'. bb_shrink (ByteBuffer 5) 3 = Some b' \<and> bb_wf b' \<and> bb_content b' = bb_content (ByteBuffer 5)"
  by (rule bb_shrink_keeps_content [OF ByteBuffer_wf]) (simp add: ByteBuffer_def bb_bytes_readable_def)

text \<open>
  the search for the end of a line returns the first position of the readable region
  where the two bytes CR LF stand, and returns null only when the region holds no CR LF.
\<close>

theorem bb_find_CLRF_correct:
  assumes "bb_wf b"
  shows "case bb_find_CLRF b of
      Some p \<Rightarrow> \<exists>pre post. bb_content b = pre @ [13, 10] @ post \<and> p = bb_peek b + length pre \<and>
        (\<forall>j < length pre. take 2 (drop j (bb_content b)) \<noteq> [13, 10])
    | None \<Rightarrow> \<not> (\<exists>pre post. bb_content b = pre @ [13, 10] @ post)"
proof (cases "find_sub [13, 10] (bb_content b)")
  case None
  then have "bb_find_CLRF b = None"
    by (simp add: bb_find_CLRF_def search_from_def CLRF_def bb_content_def bb_peek_def)
  then show ?thesis using find_sub_None [OF None] by auto
next
  case (Some i)
  then obtain pre post where c: "bb_content b = pre @ [13, 10] @ post" and i: "length pre = i"
    using find_sub_Some by blast
  have "i + 2 \<le> length (bb_content b)" using c i by simp
  then have "read_idx b + i \<noteq> write_idx b" using assms by (simp add: bb_bytes_readable_def)
  then have "bb_find_CLRF b = Some (bb_peek b + i)"
    using Some
    by (simp add: bb_find_CLRF_def search_from_def CLRF_def bb_content_def bb_peek_def bb_write_beginning_def)
  moreover have "take 2 (drop j (bb_content b)) \<noteq> [13, 10]" if "j < i" for j
    using find_sub_first [OF Some that] by (metis append_take_drop_id is_prefix_iff)
  ultimately show ?thesis using c i by auto
qed

theorem bb_find_CLRF_correct_witness:
  "bb_find_CLRF (bb_append (ByteBuffer 0) [65, 13, 10]) \<noteq> None"
  using bb_find_CLRF_correct [OF bb_append_wf [OF ByteBuffer_wf], of 0 "[65, 13, 10]"]
  by (auto split: option.splits) (metis append_Cons append_Nil)

text \<open>
  on Linux, a read that fits the writable region never copies what the system call
  delivered: the received bytes have no influence on the buffer, and the bytes that become
  readable are the ones the vector already held.
\<close>

theorem bb_read_fd_ignores_received_bytes:
  assumes "bb_wf b" and "0 < n" and "nat n \<le> bb_bytes_writeable b"
  shows "bb_read_fd b n received err = bb_read_fd b n other err' \<and>
    bb_content (fst (bb_read_fd b n received err)) =
      bb_content b @ segment (write_idx b) (write_idx b + nat n) (buffer b)"
  using assms bb_wfD [OF assms(1)] by (simp add: bb_read_fd_def bb_content_def segment_append Let_def)

theorem bb_read_fd_ignores_received_bytes_witness:
  "bb_read_fd (ByteBuffer 0) 2 [72, 105] 0 = bb_read_fd (ByteBuffer 0) 2 [0, 0] 0"
  by (rule bb_read_fd_ignores_received_bytes [OF ByteBuffer_wf, THEN conjunct1])
    (simp_all add: ByteBuffer_def bb_bytes_writeable_def cheap_prepend_def initial_size_def)

end
