(* ===== verification/Timestamp.thy ===== *)
theory Timestamp
  imports Talko_Prelude "HOL-Library.Signed_Division"
begin

text \<open>
  The class \<^verbatim>\<open>Timestamp\<close> of \<^verbatim>\<open>common/whisp_timestamp.{h,cpp}\<close>: microseconds since the
  epoch with the comparison operators, arithmetic and the two printed forms. A signed
  overflow has no meaning in the source, so the count is an unbounded integer; division and
  remainder truncate towards zero. The clock is an argument of \<open>now\<close>, and
  \<^verbatim>\<open>localtime\<close> one of \<open>toFormattedString\<close>, \<^const>\<open>None\<close> being its NULL result, which the
  code dereferences.
\<close>

section \<open>Definitions\<close>

datatype timestamp = Timestamp (microSecondsSinceEpoch: int)

definition kMicroSecondsPerSecond :: int where "kMicroSecondsPerSecond = 1000 * 1000"

definition invalid :: timestamp where "invalid = Timestamp 0"

definition add_assign :: "timestamp \<Rightarrow> timestamp \<Rightarrow> timestamp" where
  "add_assign t lhs = Timestamp (microSecondsSinceEpoch t + microSecondsSinceEpoch lhs)"

definition add_assign_int :: "timestamp \<Rightarrow> int \<Rightarrow> timestamp" where
  "add_assign_int t lhs = Timestamp (microSecondsSinceEpoch t + lhs)"

definition sub_assign :: "timestamp \<Rightarrow> timestamp \<Rightarrow> timestamp" where
  "sub_assign t lhs = Timestamp (microSecondsSinceEpoch t - microSecondsSinceEpoch lhs)"

definition sub_assign_int :: "timestamp \<Rightarrow> int \<Rightarrow> timestamp" where
  "sub_assign_int t lhs = Timestamp (microSecondsSinceEpoch t - lhs)"

definition ts_swap :: "timestamp \<Rightarrow> timestamp \<Rightarrow> timestamp \<times> timestamp" where
  "ts_swap t that = (that, t)"

definition valid :: "timestamp \<Rightarrow> bool" where
  "valid t \<longleftrightarrow> microSecondsSinceEpoch t > 0"

definition secondsSinceEpoch :: "timestamp \<Rightarrow> int" where
  "secondsSinceEpoch t = microSecondsSinceEpoch t sdiv kMicroSecondsPerSecond"

text \<open>
  The free comparison operators, \<^verbatim>\<open><=\<close> by way of \<^verbatim>\<open>>\<close> as in the header; they are the
  order of the type.
\<close>

definition ts_less :: "timestamp \<Rightarrow> timestamp \<Rightarrow> bool" where
  "ts_less lhs rhs \<longleftrightarrow> microSecondsSinceEpoch lhs < microSecondsSinceEpoch rhs"

definition ts_greater :: "timestamp \<Rightarrow> timestamp \<Rightarrow> bool" where
  "ts_greater lhs rhs \<longleftrightarrow> ts_less rhs lhs"

definition ts_less_eq :: "timestamp \<Rightarrow> timestamp \<Rightarrow> bool" where
  "ts_less_eq lhs rhs \<longleftrightarrow> \<not> ts_greater lhs rhs"

definition ts_greater_eq :: "timestamp \<Rightarrow> timestamp \<Rightarrow> bool" where
  "ts_greater_eq lhs rhs \<longleftrightarrow> \<not> ts_less lhs rhs"

definition ts_equal :: "timestamp \<Rightarrow> timestamp \<Rightarrow> bool" where
  "ts_equal lhs rhs \<longleftrightarrow> microSecondsSinceEpoch lhs = microSecondsSinceEpoch rhs"

definition ts_not_equal :: "timestamp \<Rightarrow> timestamp \<Rightarrow> bool" where
  "ts_not_equal lhs rhs \<longleftrightarrow> \<not> ts_equal lhs rhs"

instantiation timestamp :: linorder
begin

definition less_timestamp :: "timestamp \<Rightarrow> timestamp \<Rightarrow> bool" where
  "less_timestamp = ts_less"

definition less_eq_timestamp :: "timestamp \<Rightarrow> timestamp \<Rightarrow> bool" where
  "less_eq_timestamp = ts_less_eq"

instance
  by standard (auto simp: less_timestamp_def less_eq_timestamp_def ts_less_def ts_less_eq_def
      ts_greater_def intro: timestamp.expand)

end

definition add_time :: "timestamp \<Rightarrow> int \<Rightarrow> timestamp" where
  "add_time t microseconds = Timestamp (microSecondsSinceEpoch t + microseconds)"

definition toString :: "timestamp \<Rightarrow> string" where
  "toString t =
     (let seconds = microSecondsSinceEpoch t sdiv kMicroSecondsPerSecond;
          microseconds = microSecondsSinceEpoch t smod kMicroSecondsPerSecond
      in snprintf 63 (dec_int seconds @ ''.'' @ zero_pad 6 microseconds))"

record tm =
  tm_year :: int
  tm_mon :: int
  tm_mday :: int
  tm_hour :: int
  tm_min :: int
  tm_sec :: int

definition toFormattedString :: "(int \<Rightarrow> tm option) \<Rightarrow> timestamp \<Rightarrow> bool \<Rightarrow> string option" where
  "toFormattedString localtime t showMicroseconds =
     (case localtime (microSecondsSinceEpoch t sdiv kMicroSecondsPerSecond) of
        None \<Rightarrow> None
      | Some tm_time \<Rightarrow>
          let date = blank_pad 4 (tm_year tm_time + 1900) @ zero_pad 2 (tm_mon tm_time + 1) @
                     zero_pad 2 (tm_mday tm_time) @ '' '' @ zero_pad 2 (tm_hour tm_time) @ '':'' @
                     zero_pad 2 (tm_min tm_time) @ '':'' @ zero_pad 2 (tm_sec tm_time)
          in if showMicroseconds
             then let microseconds = microSecondsSinceEpoch t smod kMicroSecondsPerSecond
                  in Some (snprintf 32 (date @ ''.'' @ zero_pad 6 microseconds))
             else Some (snprintf 32 date))"

text \<open>\<open>clock\<close> is the count \<^verbatim>\<open>system_clock::now()\<close> gives in microseconds.\<close>

definition now :: "int \<Rightarrow> timestamp" where
  "now clock = Timestamp clock"

section \<open>Lemmas\<close>

lemma less_timestamp_iff [simp]: "Timestamp a < Timestamp b \<longleftrightarrow> a < b"
  by (simp add: less_timestamp_def ts_less_def)

lemma less_eq_timestamp_iff [simp]: "Timestamp a \<le> Timestamp b \<longleftrightarrow> a \<le> b"
  by (auto simp: less_eq_timestamp_def ts_less_eq_def ts_greater_def ts_less_def)

lemma ts_operators [simp]:
  "ts_less s t \<longleftrightarrow> s < t" "ts_greater s t \<longleftrightarrow> t < s" "ts_less_eq s t \<longleftrightarrow> s \<le> t"
  "ts_greater_eq s t \<longleftrightarrow> t \<le> s" "ts_equal s t \<longleftrightarrow> s = t" "ts_not_equal s t \<longleftrightarrow> s \<noteq> t"
  by (auto simp: less_timestamp_def less_eq_timestamp_def ts_greater_eq_def ts_less_eq_def
      ts_greater_def ts_equal_def ts_not_equal_def intro: timestamp.expand)

lemma add_time_less: "0 < d \<Longrightarrow> t < add_time t d"
  by (cases t) (simp add: add_time_def)

lemma length_dec_nat_le: "n < 10 ^ Suc k \<Longrightarrow> length (dec_nat n) \<le> Suc k"
  by (rule length_dec_nat) auto

lemma length_zero_pad_six:
  assumes "0 \<le> i" and "i < 1000000"
  shows "length (zero_pad 6 i) = 6"
proof -
  have "nat i < 10 ^ 6" using assms by simp
  then have "length (dec_nat (nat i)) \<le> 6" by (intro length_dec_nat) simp_all
  then show ?thesis using assms by (simp add: zero_pad_def)
qed

section \<open>Properties\<close>

text \<open>
  the printed form of a timestamp that is not negative and fits 64 bits is never cut
  off by the 64-byte buffer: it is the seconds, a point and exactly six digits, and read
  back as decimal numbers the two parts give the timestamp.
\<close>

theorem toString_decimal:
  assumes "0 \<le> microSecondsSinceEpoch t" and "microSecondsSinceEpoch t < 2 ^ 63"
  shows "\<exists>s u. toString t = s @ ''.'' @ u \<and> length u = 6 \<and>
           int (digits_value s) * kMicroSecondsPerSecond + int (digits_value u) = microSecondsSinceEpoch t"
proof -
  define m where "m = microSecondsSinceEpoch t"
  have m: "0 \<le> m" "m < 2 ^ 63" using assms by (simp_all add: m_def)
  let ?s = "dec_int (m div 1000000)" and ?u = "zero_pad 6 (m mod 1000000)"
  have dm: "m sdiv 1000000 = m div 1000000" "m smod 1000000 = m mod 1000000"
    using m(1) by (cases "m = 0"; simp add: signed_divide_int_def signed_modulo_int_def)+
  have sec: "nat (m div 1000000) < 10 ^ 20" using m by simp
  have nn: "\<not> m div 1000000 < 0" using m(1) by (simp add: pos_imp_zdiv_neg_iff)
  have ls: "length ?s \<le> 20" using nn length_dec_nat [OF _ sec] by (simp add: dec_int_def)
  have lu: "length ?u = 6" by (rule length_zero_pad_six) simp_all
  have str: "toString t = ?s @ ''.'' @ ?u"
    using ls lu by (simp add: toString_def m_def [symmetric] kMicroSecondsPerSecond_def dm)
  have "int (digits_value ?s) = m div 1000000" using nn by (simp add: dec_int_def)
  moreover have "\<not> m mod 1000000 < 0" by (simp add: not_less)
  then have "int (digits_value ?u) = m mod 1000000" by (simp add: zero_pad_def)
  ultimately have "int (digits_value ?s) * kMicroSecondsPerSecond + int (digits_value ?u) = m"
    by (simp add: kMicroSecondsPerSecond_def)
  then show ?thesis using str lu m_def by blast
qed

theorem toString_decimal_witness:
  "\<exists>s u. toString (Timestamp 1500042) = s @ ''.'' @ u \<and> length u = 6 \<and>
     int (digits_value s) * kMicroSecondsPerSecond + int (digits_value u) = 1500042"
  using toString_decimal [of "Timestamp 1500042"] by simp

end
