(* ===== verification/Timer_Queue.thy ===== *)
theory Timer_Queue
  imports Timestamp "HOL-Library.Product_Lexorder"
begin

text \<open>
  \<^verbatim>\<open>Timer\<close>, \<^verbatim>\<open>TimerId\<close> and \<^verbatim>\<open>TimerQueue\<close> of \<^verbatim>\<open>network/timer*.{h,cpp}\<close>. A timer is
  an object in a store, named by its address; the queue is the \<^verbatim>\<open>std::set\<close> of pairs of a
  timestamp and an address, kept as a sorted list. The pair is built from the expiration at
  insertion; \<^verbatim>\<open>Timer::run\<close> later moves the expiration inside the object, while the key in
  the set stays. Callbacks are names; the trace of the names run is the output. They are
  taken not to touch the queue while \<^verbatim>\<open>do_timer\<close> walks over it.

  The three queue operations that \<^verbatim>\<open>run_in_loop\<close> executes in the loop thread are the
  tasks of type \<open>timer_task\<close>; the event loop's theory runs them.
\<close>

section \<open>Timers\<close>

type_synonym addr = nat

record timer =
  callback :: nat
  expiration :: timestamp
  interval :: int
  repeat_count :: int
  sequence :: int
  canceled :: bool

text \<open>The two constructors; the counter \<^verbatim>\<open>created_num_\<close> is passed and returned.\<close>

definition Timer_copy :: "nat \<Rightarrow> timestamp \<Rightarrow> int \<Rightarrow> int \<Rightarrow> int \<Rightarrow> timer \<times> int" where
  "Timer_copy cb when intv rep created_num =
     (let n = created_num + 1
      in (\<lparr>callback = cb, expiration = when, interval = intv, repeat_count = rep, sequence = n,
           canceled = False\<rparr>, n))"

definition Timer_move :: "nat \<Rightarrow> timestamp \<Rightarrow> int \<Rightarrow> int \<Rightarrow> timer \<times> int" where
  "Timer_move cb when intv created_num = Timer_copy cb when intv (- 1) created_num"

definition timer_run :: "timer \<Rightarrow> timer \<times> nat list" where
  "timer_run t =
     (if canceled t then (t, [])
      else if repeat_count t \<noteq> - 1 then
        let t1 = t\<lparr>repeat_count := repeat_count t - 1\<rparr>
        in if repeat_count t1 = 0 then (t1, [callback t])
           else (t1\<lparr>expiration := add_assign_int (expiration t1) (interval t1)\<rparr>, [callback t])
      else (t\<lparr>expiration := add_assign_int (expiration t) (interval t)\<rparr>, [callback t]))"

record timer_id =
  id_timer :: addr
  id_sequence :: int

section \<open>The queue\<close>

type_synonym entry = "timestamp \<times> addr"

record timer_queue =
  store :: "addr \<Rightarrow> timer"
  timers :: "entry list"
  created_num :: int

datatype timer_task = AddTimer addr | RemoveTimer timer_id | CancelTimer timer_id bool

text \<open>
  \<^verbatim>\<open>add_timer\<close> for a copied callback builds the timer without the repeat count; for a
  moved callback it passes it on. \<open>a\<close> is the address \<^verbatim>\<open>new\<close> returns.
\<close>

definition add_timer_copy ::
  "addr \<Rightarrow> nat \<Rightarrow> timestamp \<Rightarrow> int \<Rightarrow> int \<Rightarrow> timer_queue \<Rightarrow> timer_queue \<times> timer_task \<times> timer_id" where
  "add_timer_copy a cb when intv rep q =
     (case Timer_copy cb when intv (- 1) (created_num q) of
        (t, n) \<Rightarrow> (q\<lparr>store := (store q)(a := t), created_num := n\<rparr>, AddTimer a,
                   \<lparr>id_timer = a, id_sequence = sequence t\<rparr>))"

definition add_timer_move ::
  "addr \<Rightarrow> nat \<Rightarrow> timestamp \<Rightarrow> int \<Rightarrow> int \<Rightarrow> timer_queue \<Rightarrow> timer_queue \<times> timer_task \<times> timer_id" where
  "add_timer_move a cb when intv rep q =
     (case Timer_copy cb when intv rep (created_num q) of
        (t, n) \<Rightarrow> (q\<lparr>store := (store q)(a := t), created_num := n\<rparr>, AddTimer a,
                   \<lparr>id_timer = a, id_sequence = sequence t\<rparr>))"

definition remove_timer :: "timer_id \<Rightarrow> timer_task" where
  "remove_timer tid = RemoveTimer tid"

definition cancel :: "timer_id \<Rightarrow> bool \<Rightarrow> timer_task" where
  "cancel tid off = CancelTimer tid off"

text \<open>\<^verbatim>\<open>std::set::insert\<close>, and the linear searches by timer address.\<close>

definition insert_timer :: "addr \<Rightarrow> timer_queue \<Rightarrow> timer_queue" where
  "insert_timer a q = q\<lparr>timers := insort_insert (expiration (store q a), a) (timers q)\<rparr>"

definition add_timer_in_loop :: "addr \<Rightarrow> timer_queue \<Rightarrow> timer_queue" where
  "add_timer_in_loop a q = insert_timer a q"

fun erase_timer :: "addr \<Rightarrow> entry list \<Rightarrow> entry list" where
  "erase_timer a [] = []"
| "erase_timer a (e # es) = (if snd e = a then es else e # erase_timer a es)"

definition remove_timer_in_loop :: "timer_id \<Rightarrow> timer_queue \<Rightarrow> timer_queue" where
  "remove_timer_in_loop tid q = q\<lparr>timers := erase_timer (id_timer tid) (timers q)\<rparr>"

definition cancel_timer_in_loop :: "timer_id \<Rightarrow> bool \<Rightarrow> timer_queue \<Rightarrow> timer_queue" where
  "cancel_timer_in_loop tid off q =
     (if list_ex (\<lambda>e. snd e = id_timer tid) (timers q)
      then q\<lparr>store := (store q)(id_timer tid := (store q (id_timer tid))\<lparr>canceled := off\<rparr>)\<rparr> else q)"

fun run_timer_task :: "timer_task \<Rightarrow> timer_queue \<Rightarrow> timer_queue" where
  "run_timer_task (AddTimer a) q = add_timer_in_loop a q"
| "run_timer_task (RemoveTimer tid) q = remove_timer_in_loop tid q"
| "run_timer_task (CancelTimer tid off) q = cancel_timer_in_loop tid off q"

text \<open>The loop of \<^verbatim>\<open>do_timer\<close>: it stops at the first entry whose timer is not due.\<close>

fun do_timer_loop ::
  "timestamp \<Rightarrow> (addr \<Rightarrow> timer) \<Rightarrow> entry list \<Rightarrow> (addr \<Rightarrow> timer) \<times> entry list \<times> nat list" where
  "do_timer_loop nw st [] = (st, [], [])"
| "do_timer_loop nw st (e # es) =
     (if expiration (st (snd e)) \<le> nw then
        case timer_run (st (snd e)) of
          (t, out) \<Rightarrow>
            (case do_timer_loop nw (st(snd e := t)) es of
               (st', es', out') \<Rightarrow>
                 (st', if repeat_count t = 0 then es' else e # es', out @ out'))
      else (st, e # es, []))"

definition do_timer :: "timestamp \<Rightarrow> timer_queue \<Rightarrow> timer_queue \<times> nat list" where
  "do_timer nw q =
     (case do_timer_loop nw (store q) (timers q) of
        (st, es, out) \<Rightarrow> (q\<lparr>store := st, timers := es\<rparr>, out))"

section \<open>Invariant\<close>

definition tq_wf :: "timer_queue \<Rightarrow> bool" where
  "tq_wf q \<longleftrightarrow> sorted (timers q) \<and> distinct (map snd (timers q))"

lemma do_timer_loop_sublist:
  "do_timer_loop nw st es = (st', es', out) \<Longrightarrow> set es' \<subseteq> set es \<and> (sorted es \<longrightarrow> sorted es') \<and>
     (distinct (map snd es) \<longrightarrow> distinct (map snd es'))"
proof (induction nw st es arbitrary: st' es' out rule: do_timer_loop.induct)
  case (2 nw st e es)
  show ?case
  proof (cases "expiration (st (snd e)) \<le> nw")
    case True
    obtain t o1 where r: "timer_run (st (snd e)) = (t, o1)" by fastforce
    obtain s2 e2 o2 where l: "do_timer_loop nw (st(snd e := t)) es = (s2, e2, o2)" by (metis prod_cases3)
    have IH: "set e2 \<subseteq> set es" "sorted es \<Longrightarrow> sorted e2" "distinct (map snd es) \<Longrightarrow> distinct (map snd e2)"
      using "2.IH" [OF True r [symmetric] l] by auto
    have "es' = (if repeat_count t = 0 then e2 else e # e2)" using 2(2) True r l by simp
    then show ?thesis using IH by auto
  qed (use 2 in auto)
qed simp

lemma erase_timer_sub:
  "set (erase_timer a es) \<subseteq> set es" "sorted es \<Longrightarrow> sorted (erase_timer a es)"
  "distinct (map snd es) \<Longrightarrow> distinct (map snd (erase_timer a es))"
proof (induction es)
  case (Cons e es)
  { case 1 then show ?case using Cons by auto }
  { case 2 then show ?case using Cons by auto }
  { case 3 then show ?case using Cons by auto }
qed simp_all

lemma insert_timer_wf:
  assumes "tq_wf q" and "a \<notin> snd ` set (timers q)"
  shows "tq_wf (insert_timer a q)"
proof -
  have n: "(expiration (store q a), a) \<notin> set (timers q)" using assms(2) by force
  have "distinct (map snd (insort_key (\<lambda>x. x) e xs)) \<longleftrightarrow> snd e \<notin> snd ` set xs \<and> distinct (map snd xs)"
    for e :: entry and xs
    by (induction xs) (auto simp: set_insort_key)
  then show ?thesis using assms n
    by (simp add: tq_wf_def insert_timer_def insort_insert_key_def sorted_insort)
qed

text \<open>The tasks keep the queue sorted and without repeated timers; a timer is added once.\<close>

lemma run_timer_task_wf:
  assumes "tq_wf q" and "\<And>a. task = AddTimer a \<Longrightarrow> a \<notin> snd ` set (timers q)"
  shows "tq_wf (run_timer_task task q)"
  using assms insert_timer_wf erase_timer_sub
  by (cases task)
    (auto simp: add_timer_in_loop_def remove_timer_in_loop_def cancel_timer_in_loop_def tq_wf_def)

lemma do_timer_wf: "tq_wf q \<Longrightarrow> tq_wf (fst (do_timer nw q))"
  using do_timer_loop_sublist [of nw "store q" "timers q"]
  by (auto simp: do_timer_def tq_wf_def split: prod.splits)

section \<open>What one pass does\<close>

definition due :: "timestamp \<Rightarrow> (addr \<Rightarrow> timer) \<Rightarrow> entry \<Rightarrow> bool" where
  "due nw st e \<longleftrightarrow> expiration (st (snd e)) \<le> nw"

text \<open>The entries a pass reaches: the due ones before the first that is not.\<close>

definition reached :: "timestamp \<Rightarrow> timer_queue \<Rightarrow> entry list" where
  "reached nw q = takeWhile (due nw (store q)) (timers q)"

definition after_run :: "(addr \<Rightarrow> timer) \<Rightarrow> entry list \<Rightarrow> addr \<Rightarrow> timer" where
  "after_run st es a = (if a \<in> snd ` set es then fst (timer_run (st a)) else st a)"

lemma do_timer_loop_closed:
  assumes "distinct (map snd es)"
  shows "do_timer_loop nw st es =
    (let p = takeWhile (due nw st) es
     in (after_run st p,
         filter (\<lambda>e. repeat_count (fst (timer_run (st (snd e)))) \<noteq> 0) p @ dropWhile (due nw st) es,
         concat (map (\<lambda>e. snd (timer_run (st (snd e)))) p)))"
  using assms
proof (induction es arbitrary: st)
  case Nil
  then show ?case by (simp add: after_run_def)
next
  case (Cons e es)
  show ?case
  proof (cases "due nw st e")
    case True
    let ?st = "st(snd e := fst (timer_run (st (snd e))))"
    have ne: "snd e \<notin> snd ` set es" and d: "distinct (map snd es)" using Cons.prems by auto
    have "snd x \<noteq> snd e" if "x \<in> set es" for x using that ne by (metis image_eqI)
    then have same: "?st (snd x) = st (snd x)" "due nw ?st x = due nw st x" if "x \<in> set es" for x
      using that by (simp_all add: due_def)
    have tw: "takeWhile (due nw ?st) es = takeWhile (due nw st) es"
      and dw: "dropWhile (due nw ?st) es = dropWhile (due nw st) es"
      using same(2) by (auto intro: takeWhile_cong dropWhile_cong)
    have sub: "set (takeWhile (due nw st) es) \<subseteq> set es" by (auto dest: set_takeWhileD)
    have ar: "after_run ?st (takeWhile (due nw st) es) = after_run st (takeWhile (due nw st) (e # es))"
      using ne sub True by (auto simp: after_run_def fun_eq_iff)
    have fl: "filter (\<lambda>x. repeat_count (fst (timer_run (?st (snd x)))) \<noteq> 0) (takeWhile (due nw st) es) =
        filter (\<lambda>x. repeat_count (fst (timer_run (st (snd x)))) \<noteq> 0) (takeWhile (due nw st) es)"
      by (intro filter_cong refl) (simp only: same(1) sub [THEN subsetD])
    have mp: "map (\<lambda>x. snd (timer_run (?st (snd x)))) (takeWhile (due nw st) es) =
        map (\<lambda>x. snd (timer_run (st (snd x)))) (takeWhile (due nw st) es)"
      by (intro map_cong refl) (simp only: same(1) sub [THEN subsetD])
    have step: "do_timer_loop nw st (e # es) =
        (case do_timer_loop nw ?st es of
           (s2, e2, o2) \<Rightarrow> (s2, if repeat_count (fst (timer_run (st (snd e)))) = 0 then e2 else e # e2,
                            snd (timer_run (st (snd e))) @ o2))"
      using True by (simp add: due_def case_prod_beta)
    show ?thesis unfolding step Cons.IH [OF d] Let_def tw dw ar fl mp using True by simp
  next
    case False
    then show ?thesis by (simp add: due_def after_run_def)
  qed
qed

lemma takeWhile_sorted_filter:
  assumes "sorted (map f es)"
  shows "takeWhile (\<lambda>e. f e \<le> n) es = filter (\<lambda>e. f e \<le> n) es"
  using assms
proof (induction es)
  case (Cons e es)
  have "\<forall>x\<in>set es. \<not> f x \<le> n" if "\<not> f e \<le> n"
    using Cons.prems that by (auto dest: order_trans)
  then have "filter (\<lambda>e. f e \<le> n) es = []" if "\<not> f e \<le> n"
    using that by (simp add: filter_empty_conv)
  then show ?case using Cons by simp
qed simp

lemma sorted_map_fst: "sorted es \<Longrightarrow> sorted (map fst es)"
  by (induction es) (auto simp: less_eq_prod_def)

text \<open>A queue in which no timer has moved its expiration since it was inserted.\<close>

definition fresh_keys :: "timer_queue \<Rightarrow> bool" where
  "fresh_keys q \<longleftrightarrow> (\<forall>e\<in>set (timers q). fst e = expiration (store q (snd e)))"

lemma reached_fresh:
  assumes "tq_wf q" and "fresh_keys q"
  shows "reached nw q = filter (due nw (store q)) (timers q)"
proof -
  have "sorted (map fst (timers q))"
    using assms(1) sorted_map_fst by (auto simp: tq_wf_def)
  moreover have eq: "due nw (store q) e \<longleftrightarrow> fst e \<le> nw" if "e \<in> set (timers q)" for e
    using that assms(2) by (simp add: due_def fresh_keys_def)
  moreover have "takeWhile (due nw (store q)) (timers q) = takeWhile (\<lambda>e. fst e \<le> nw) (timers q)"
    "filter (due nw (store q)) (timers q) = filter (\<lambda>e. fst e \<le> nw) (timers q)"
    using eq by (auto intro: takeWhile_cong filter_cong)
  ultimately show ?thesis using takeWhile_sorted_filter [of fst "timers q" nw]
    by (simp add: reached_def)
qed

section \<open>Counting the runs of one timer\<close>

fun do_timers :: "timestamp list \<Rightarrow> timer_queue \<Rightarrow> timer_queue \<times> nat list" where
  "do_timers [] q = (q, [])"
| "do_timers (nw # nws) q =
     (case do_timer nw q of (q1, out) \<Rightarrow> case do_timers nws q1 of (q2, out') \<Rightarrow> (q2, out @ out'))"

text \<open>The callback \<open>c\<close> belongs to the timer at address \<open>a\<close> only.\<close>

definition only_callback :: "nat \<Rightarrow> addr \<Rightarrow> timer_queue \<Rightarrow> bool" where
  "only_callback c a q \<longleftrightarrow> (\<forall>e\<in>set (timers q). callback (store q (snd e)) = c \<longrightarrow> snd e = a)"

lemma timer_run_simps:
  "callback (fst (timer_run t)) = callback t"
  "snd (timer_run t) = (if canceled t then [] else [callback t])"
  "repeat_count (fst (timer_run t)) =
     (if canceled t \<or> repeat_count t = - 1 then repeat_count t else repeat_count t - 1)"
  by (auto simp: timer_run_def Let_def)

lemma do_timer_closed:
  assumes "tq_wf q"
  shows "do_timer nw q =
    (q\<lparr>store := after_run (store q) (reached nw q),
       timers := filter (\<lambda>e. repeat_count (fst (timer_run (store q (snd e)))) \<noteq> 0) (reached nw q) @
         dropWhile (due nw (store q)) (timers q)\<rparr>,
     concat (map (\<lambda>e. snd (timer_run (store q (snd e)))) (reached nw q)))"
  using do_timer_loop_closed [of "timers q" nw "store q"] assms
  by (simp add: do_timer_def tq_wf_def reached_def Let_def)

lemma reached_subset: "set (reached nw q) \<subseteq> set (timers q)"
  by (auto simp: reached_def dest: set_takeWhileD)

lemma after_run_callback: "callback (after_run st p a) = callback (st a)"
  by (simp add: after_run_def timer_run_simps)

lemma only_callback_do_timer:
  assumes "only_callback c a q" and "tq_wf q"
  shows "only_callback c a (fst (do_timer nw q))"
  using assms(1) do_timer_loop_sublist [of nw "store q" "timers q"] do_timer_closed [OF assms(2), of nw]
  by (auto simp: only_callback_def after_run_callback reached_def dest: set_takeWhileD set_dropWhileD)

lemma count_single:
  assumes "distinct (map snd p)" and "\<forall>e\<in>set p. callback (st (snd e)) = c \<longrightarrow> snd e = a"
  shows "count_list (concat (map (\<lambda>e. snd (timer_run (st (snd e)))) p)) c =
    (if a \<in> snd ` set p \<and> \<not> canceled (st a) \<and> callback (st a) = c then 1 else 0)"
  using assms
proof (induction p)
  case (Cons e p)
  have "a \<notin> snd ` set p" if "snd e = a" using Cons.prems(1) that by auto
  then show ?case using Cons by (auto simp: timer_run_simps)
qed simp

text \<open>One pass changes the remaining count of a bounded timer by the runs it makes.\<close>

lemma do_timer_count:
  assumes "tq_wf q" and "only_callback c a q" and "callback (store q a) = c" and "a \<in> snd ` set (timers q)"
    and "0 < repeat_count (store q a)" and "do_timer nw q = (q', out)"
  shows "repeat_count (store q' a) + int (count_list out c) = repeat_count (store q a) \<and>
    0 \<le> repeat_count (store q' a) \<and> (a \<in> snd ` set (timers q') \<longleftrightarrow> repeat_count (store q' a) \<noteq> 0) \<and>
    callback (store q' a) = c"
proof -
  let ?p = "reached nw q" and ?rest = "dropWhile (due nw (store q)) (timers q)"
  note cl = do_timer_closed [OF assms(1), of nw]
  have split: "timers q = ?p @ ?rest" by (simp add: reached_def)
  have d: "distinct (map snd (?p @ ?rest))" using assms(1) split by (simp add: tq_wf_def)
  have "\<forall>e\<in>set ?p. callback (store q (snd e)) = c \<longrightarrow> snd e = a"
    using assms(2) reached_subset by (auto simp: only_callback_def)
  then have cnt: "count_list out c = (if a \<in> snd ` set ?p \<and> \<not> canceled (store q a) then 1 else 0)"
    using count_single [of ?p "store q" c a] d assms(3,6) cl by auto
  have st: "store q' a = after_run (store q) ?p a" using assms(6) cl by auto
  have rep: "repeat_count (store q' a) = repeat_count (store q a) - int (count_list out c)"
    using assms(5) by (simp add: st cnt after_run_def timer_run_simps)
  have q': "timers q' = filter (\<lambda>e. repeat_count (fst (timer_run (store q (snd e)))) \<noteq> 0) ?p @ ?rest"
    using assms(6) cl by auto
  have "a \<in> snd ` set (timers q') \<longleftrightarrow> repeat_count (store q' a) \<noteq> 0"
  proof (cases "a \<in> snd ` set ?p")
    case True
    then have "a \<notin> snd ` set ?rest" using d by auto
    moreover have "store q' a = fst (timer_run (store q a))" using True by (simp add: st after_run_def)
    ultimately show ?thesis using True unfolding q' by auto
  next
    case False
    then have "a \<in> snd ` set ?rest" using assms(4) split by (metis UnE image_Un set_append)
    moreover have "store q' a = store q a" using False by (simp add: st after_run_def)
    ultimately show ?thesis using assms(5) unfolding q' by auto
  qed
  then show ?thesis using rep cnt assms(3,5) by (auto simp: st after_run_callback)
qed

lemma do_timer_subset: "set (timers (fst (do_timer nw q))) \<subseteq> set (timers q)"
proof -
  obtain st es out where l: "do_timer_loop nw (store q) (timers q) = (st, es, out)" by (metis prod_cases3)
  then show ?thesis using do_timer_loop_sublist [OF l] by (simp add: do_timer_def)
qed

lemma dropWhile_filtered:
  "takeWhile P xs = filter P xs \<Longrightarrow> x \<in> set (dropWhile P xs) \<longleftrightarrow> x \<in> set xs \<and> \<not> P x"
proof (induction xs)
  case (Cons y xs)
  then show ?case by (cases "P y") (auto simp: filter_empty_conv dest: sym [of "[]"])
qed simp

lemma do_timer_absent:
  assumes "tq_wf q" and "only_callback c a q" and "a \<notin> snd ` set (timers q)"
  shows "count_list (snd (do_timer nw q)) c = 0 \<and> a \<notin> snd ` set (timers (fst (do_timer nw q)))"
proof -
  have p: "\<forall>e\<in>set (reached nw q). callback (store q (snd e)) = c \<longrightarrow> snd e = a" "a \<notin> snd ` set (reached nw q)"
    using assms(2,3) reached_subset [of nw q] by (fastforce simp: only_callback_def)+
  have "distinct (map snd (reached nw q @ dropWhile (due nw (store q)) (timers q)))"
    using assms(1) by (simp add: reached_def tq_wf_def)
  then have "count_list (snd (do_timer nw q)) c = 0"
    using count_single [of "reached nw q" "store q" c a] p do_timer_closed [OF assms(1), of nw] by simp
  moreover have "a \<notin> snd ` set (timers (fst (do_timer nw q)))"
    using assms(3) do_timer_subset [of nw q] by auto
  ultimately show ?thesis by blast
qed

lemma do_timers_absent:
  "tq_wf q \<Longrightarrow> only_callback c a q \<Longrightarrow> a \<notin> snd ` set (timers q) \<Longrightarrow> do_timers nws q = (q', out) \<Longrightarrow>
    count_list out c = 0 \<and> a \<notin> snd ` set (timers q')"
proof (induction nws arbitrary: q q' out)
  case (Cons nw nws)
  obtain q1 o1 where s1: "do_timer nw q = (q1, o1)" by fastforce
  obtain q2 o2 where s2: "do_timers nws q1 = (q2, o2)" by fastforce
  have "count_list o1 c = 0" "a \<notin> snd ` set (timers q1)"
    using do_timer_absent [OF Cons.prems(1-3), of nw] s1 by simp_all
  moreover have "tq_wf q1" "only_callback c a q1"
    using do_timer_wf [OF Cons.prems(1), of nw] only_callback_do_timer [OF Cons.prems(2,1), of nw] s1
    by simp_all
  ultimately show ?case using Cons.IH [of q1 q2 o2] Cons.prems(4) s1 s2 by auto
qed simp

lemma due_callbacks:
  "concat (map (\<lambda>e. snd (timer_run (st (snd e)))) (filter (due nw st) es)) =
    map (\<lambda>e. callback (st (snd e))) (filter (\<lambda>e. due nw st e \<and> \<not> canceled (st (snd e))) es)"
  by (induction es) (auto simp: timer_run_simps)

section \<open>Properties\<close>


definition demo_timer :: "nat \<Rightarrow> int \<Rightarrow> int \<Rightarrow> int \<Rightarrow> timer" where
  "demo_timer cb when intv rep = fst (Timer_copy cb (Timestamp when) intv rep 0)"

definition demo_queue :: timer_queue where
  "demo_queue = \<lparr>store = (\<lambda>a. if a = 0 then demo_timer 7 10 100 2 else demo_timer 8 20 100 1),
     timers = [(Timestamp 10, 0), (Timestamp 20, 1)], created_num = 2\<rparr>"

lemma demo_queue_ok: "tq_wf demo_queue" "fresh_keys demo_queue"
  by (simp_all add: tq_wf_def fresh_keys_def demo_queue_def demo_timer_def Timer_copy_def less_eq_prod_def)


text \<open>
  C35: a timer with a positive repeat count runs at most that often, however many passes are
  made and at whatever times, and it has left the queue exactly when it has run that often.
\<close>

theorem timer_repeat_bound:
  assumes "tq_wf q" and "only_callback c a q" and "callback (store q a) = c" and "a \<in> snd ` set (timers q)"
    and "0 < repeat_count (store q a)" and "do_timers nws q = (q', out)"
  shows "int (count_list out c) \<le> repeat_count (store q a) \<and>
    (a \<in> snd ` set (timers q') \<longleftrightarrow> int (count_list out c) < repeat_count (store q a))"
  using assms
proof (induction nws arbitrary: q q' out)
  case (Cons nw nws)
  obtain q1 o1 where s1: "do_timer nw q = (q1, o1)" by fastforce
  obtain q2 o2 where s2: "do_timers nws q1 = (q2, o2)" by fastforce
  have q': "q' = q2" "out = o1 @ o2" using Cons.prems(6) s1 s2 by auto
  have wf1: "tq_wf q1" "only_callback c a q1"
    using do_timer_wf [OF Cons.prems(1), of nw] only_callback_do_timer [OF Cons.prems(2,1), of nw] s1 by simp_all
  note st = do_timer_count [OF Cons.prems(1-5) s1]
  show ?case
  proof (cases "repeat_count (store q1 a) = 0")
    case True
    then have "count_list o2 c = 0 \<and> a \<notin> snd ` set (timers q2)"
      using do_timers_absent [OF wf1 _ s2] st by blast
    then show ?thesis using st True q' by auto
  next
    case False
    then have "a \<in> snd ` set (timers q1)" "0 < repeat_count (store q1 a)" using st by auto
    then show ?thesis using Cons.IH [OF wf1 _ _ _ s2] st q' by auto
  qed
qed simp

theorem timer_repeat_bound_witness:
  "int (count_list (snd (do_timers [Timestamp 30, Timestamp 200, Timestamp 400] demo_queue)) 7) \<le> 2"
proof -
  obtain q' out where r: "do_timers [Timestamp 30, Timestamp 200, Timestamp 400] demo_queue = (q', out)" by fastforce
  have h: "only_callback 7 0 demo_queue" "callback (store demo_queue 0) = 7" "0 \<in> snd ` set (timers demo_queue)"
    "0 < repeat_count (store demo_queue 0)"
    by (simp_all add: only_callback_def demo_queue_def demo_timer_def Timer_copy_def)
  have "repeat_count (store demo_queue 0) = 2" by (simp add: demo_queue_def demo_timer_def Timer_copy_def)
  then show ?thesis using timer_repeat_bound [OF demo_queue_ok(1) h r] r by simp
qed

text \<open>
  a timer added with a copied callback forgets its repeat count: whatever count was
  asked for, it stays in the queue after every number of passes, and with interval 0 it
  runs again on each pass that reaches it.
\<close>

theorem copied_timer_never_expires:
  assumes "add_timer_copy a cb when intv rep q = (q1, task, tid)" and "tq_wf q" and "a \<notin> snd ` set (timers q)"
    and "do_timers nws (run_timer_task task q1) = (q2, out)"
  shows "a \<in> snd ` set (timers q2) \<and> repeat_count (store q2 a) = - 1"
proof -
  have keep: "a \<in> snd ` set (timers q2) \<and> repeat_count (store q2 a) = - 1"
    if "tq_wf q" "a \<in> snd ` set (timers q)" "repeat_count (store q a) = - 1" "do_timers nws q = (q2, out)" for q q2 out
    using that
  proof (induction nws arbitrary: q out)
    case (Cons nw nws)
    obtain q1 o1 where s1: "do_timer nw q = (q1, o1)" by fastforce
    obtain q3 o3 where s3: "do_timers nws q1 = (q3, o3)" by fastforce
    have "timers q = reached nw q @ dropWhile (due nw (store q)) (timers q)" by (simp add: reached_def)
    then have "a \<in> snd ` set (reached nw q) \<or> a \<in> snd ` set (dropWhile (due nw (store q)) (timers q))"
      using Cons.prems(2) by (metis UnE image_Un set_append)
    then have "a \<in> snd ` set (timers q1)" "repeat_count (store q1 a) = - 1"
      using do_timer_closed [OF Cons.prems(1), of nw] s1 Cons.prems(3)
      by (auto simp: after_run_def timer_run_simps)
    moreover have "tq_wf q1" using do_timer_wf [OF Cons.prems(1), of nw] s1 by simp
    ultimately show ?case using Cons.IH s3 Cons.prems(4) s1 by auto
  qed simp
  have q1: "task = AddTimer a" "timers q1 = timers q" "repeat_count (store q1 a) = - 1" "tq_wf q1"
    using assms(1,2) by (auto simp: add_timer_copy_def Timer_copy_def Let_def tq_wf_def)
  have "tq_wf (insert_timer a q1)" using insert_timer_wf [of q1 a] q1 assms(3) by simp
  moreover have "a \<in> snd ` set (timers (insert_timer a q1))"
    by (auto simp: insert_timer_def set_insort_insert image_iff)
  ultimately show ?thesis using keep [of "insert_timer a q1" q2 out] assms(4) q1
    by (simp add: add_timer_in_loop_def insert_timer_def)
qed

theorem copied_timer_never_expires_witness:
  "5 \<in> snd ` set (timers (fst (do_timers [Timestamp 9, Timestamp 9] (run_timer_task (AddTimer 5)
     (fst (add_timer_copy 5 1 (Timestamp 3) 0 1 demo_queue))))))"
proof -
  obtain q1 task tid where a: "add_timer_copy 5 1 (Timestamp 3) 0 1 demo_queue = (q1, task, tid)" by (metis prod_cases3)
  obtain q2 out where r: "do_timers [Timestamp 9, Timestamp 9] (run_timer_task task q1) = (q2, out)" by fastforce
  have "task = AddTimer 5" using a by (simp add: add_timer_copy_def Timer_copy_def Let_def)
  moreover have "(5::addr) \<notin> snd ` set (timers demo_queue)" by (simp add: demo_queue_def)
  ultimately show ?thesis using copied_timer_never_expires [OF a demo_queue_ok(1) _ r] a r by simp
qed

text \<open>
  the keys of the set go stale, and a pass stops at the first timer that is not due. A
  repeating timer that has just moved its expiration hides every timer inserted with a later
  key: such a timer is due and is not run.
\<close>

theorem stale_key_hides_due_timer:
  assumes "tq_wf q" and "timers q = e # es" and "nw < expiration (store q (snd e))"
  shows "do_timer nw q = (q, []) \<and> (\<forall>x\<in>set es. due nw (store q) x \<longrightarrow> x \<in> set (timers (fst (do_timer nw q))))"
proof -
  have "\<not> expiration (store q (snd e)) \<le> nw" using assms(3) by (simp add: not_le)
  then have "do_timer nw q = (q, [])" using assms(2) by (cases q) (simp add: do_timer_def)
  then show ?thesis using assms(2) by simp
qed

theorem stale_key_hides_due_timer_witness:
  "\<exists>q. tq_wf q \<and> due (Timestamp 50) (store q) (Timestamp 20, 1) \<and> do_timer (Timestamp 50) q = (q, [])"
proof -
  define q where "q = \<lparr>store = (\<lambda>a. if a = 0 then demo_timer 7 110 100 2 else demo_timer 8 20 100 1),
     timers = [(Timestamp 10, 0), (Timestamp 20, 1)], created_num = 2\<rparr>"
  have h: "tq_wf q" "timers q = (Timestamp 10, 0) # [(Timestamp 20, 1)]"
    "Timestamp 50 < expiration (store q (snd (Timestamp 10, 0)))" "due (Timestamp 50) (store q) (Timestamp 20, 1)"
    by (simp_all add: q_def tq_wf_def due_def demo_timer_def Timer_copy_def less_eq_prod_def)
  then show ?thesis using stale_key_hides_due_timer [OF h(1-3)] by blast
qed

end
