(* ===== verification/Channel_Poller.thy ===== *)
theory Channel_Poller
  imports Timestamp "HOL-Library.Word"
begin

unbundle bit_operations_syntax

text \<open>
  \<^verbatim>\<open>Channel\<close> (\<^verbatim>\<open>network/channel.{h,cpp}\<close>), the interface \<^verbatim>\<open>Poller\<close> and its epoll
  implementation (\<^verbatim>\<open>network/epoll_poller.{h,cpp}\<close>). Channels are objects in a store, named
  by address. The system calls are parameters: \<open>ctl\<close> is \<^verbatim>\<open>epoll_ctl\<close> as a function on a
  kernel state, and the result of \<^verbatim>\<open>epoll_wait\<close> (the count and the event array) is an
  argument of \<open>poll\<close>.

  The interface is the locale \<open>poller_interface\<close>, interpreted on the epoll poller for every
  behaviour of the kernel. For a kernel that keeps an interest list as \<^verbatim>\<open>epoll_ctl\<close>
  documents it, the list is shown to be a function of the poller's state: exactly the added
  channels, each with its current event mask.
\<close>

section \<open>Channels\<close>

type_synonym caddr = nat
type_synonym mask = "32 word"

definition POLLIN :: mask where "POLLIN = 0x001"
definition POLLPRI :: mask where "POLLPRI = 0x002"
definition POLLOUT :: mask where "POLLOUT = 0x004"
definition POLLERR :: mask where "POLLERR = 0x008"
definition POLLHUP :: mask where "POLLHUP = 0x010"
definition POLLNVAL :: mask where "POLLNVAL = 0x020"
definition POLLRDHUP :: mask where "POLLRDHUP = 0x2000"

lemmas poll_flags = POLLIN_def POLLPRI_def POLLOUT_def POLLERR_def POLLHUP_def POLLNVAL_def POLLRDHUP_def

definition none_event :: mask where "none_event = 0"
definition read_event :: mask where "read_event = POLLIN OR POLLPRI"
definition write_event :: mask where "write_event = POLLOUT"

text \<open>The four callbacks are present or empty; which function they hold is the owner's matter.\<close>

record channel =
  fd :: int
  events :: mask
  revents :: mask
  index :: int
  has_read_callback :: bool
  has_write_callback :: bool
  has_close_callback :: bool
  has_error_callback :: bool

definition new_channel :: "int \<Rightarrow> channel" where
  "new_channel fdv =
     \<lparr>fd = fdv, events = 0, revents = 0, index = - 1, has_read_callback = False,
      has_write_callback = False, has_close_callback = False, has_error_callback = False\<rparr>"

text \<open>Of a callback only matters whether it is set.\<close>

definition set_read_callback :: "bool \<Rightarrow> channel \<Rightarrow> channel" where
  [simp]: "set_read_callback cb c = c\<lparr>has_read_callback := cb\<rparr>"

definition set_write_callback :: "bool \<Rightarrow> channel \<Rightarrow> channel" where
  [simp]: "set_write_callback cb c = c\<lparr>has_write_callback := cb\<rparr>"

definition set_close_callback :: "bool \<Rightarrow> channel \<Rightarrow> channel" where
  [simp]: "set_close_callback cb c = c\<lparr>has_close_callback := cb\<rparr>"

definition set_error_callback :: "bool \<Rightarrow> channel \<Rightarrow> channel" where
  [simp]: "set_error_callback cb c = c\<lparr>has_error_callback := cb\<rparr>"

definition set_revents :: "mask \<Rightarrow> channel \<Rightarrow> channel" where
  [simp]: "set_revents revt c = c\<lparr>revents := revt\<rparr>"

definition add_revents :: "mask \<Rightarrow> channel \<Rightarrow> channel" where
  "add_revents revt c = c\<lparr>revents := revents c OR revt\<rparr>"

definition is_event_none :: "channel \<Rightarrow> bool" where
  "is_event_none c \<longleftrightarrow> events c = none_event"

definition is_writing :: "channel \<Rightarrow> bool" where
  "is_writing c \<longleftrightarrow> events c AND write_event \<noteq> 0"

datatype callback_call = CloseCallback | ErrorCallback | ReadCallback timestamp | WriteCallback

definition handle_event :: "channel \<Rightarrow> timestamp \<Rightarrow> callback_call list" where
  "handle_event c receive_time =
     (if revents c AND POLLHUP \<noteq> 0 \<and> revents c AND POLLIN = 0 \<and> has_close_callback c
      then [CloseCallback] else []) @
     (if revents c AND (POLLERR OR POLLNVAL) \<noteq> 0 \<and> has_error_callback c then [ErrorCallback] else []) @
     (if revents c AND (POLLIN OR POLLPRI OR POLLRDHUP) \<noteq> 0 \<and> has_read_callback c
      then [ReadCallback receive_time] else []) @
     (if revents c AND POLLOUT \<noteq> 0 \<and> has_write_callback c then [WriteCallback] else [])"

definition revents_2_string :: "channel \<Rightarrow> string" where
  "revents_2_string c =
     dec_int (fd c) @ '': '' @
     (if revents c AND POLLIN \<noteq> 0 then ''IN '' else []) @
     (if revents c AND POLLPRI \<noteq> 0 then ''PRI '' else []) @
     (if revents c AND POLLOUT \<noteq> 0 then ''OUT '' else []) @
     (if revents c AND POLLHUP \<noteq> 0 then ''HUP '' else []) @
     (if revents c AND POLLRDHUP \<noteq> 0 then ''RDHUP '' else []) @
     (if revents c AND POLLERR \<noteq> 0 then ''ERR '' else []) @
     (if revents c AND POLLNVAL \<noteq> 0 then ''NVAL '' else [])"

section \<open>The epoll poller\<close>

definition new_index :: int where "new_index = - 1"
definition added_index :: int where "added_index = 1"
definition deleted_index :: int where "deleted_index = 2"

lemmas index_consts = new_index_def added_index_def deleted_index_def

datatype epoll_op = CTL_ADD | CTL_MOD | CTL_DEL

text \<open>The poller with the store of channels it points into and the kernel.\<close>

record 'k epoll_poller =
  chan :: "caddr \<Rightarrow> channel"
  channels :: "int \<rightharpoonup> caddr"
  events_size :: nat
  kernel :: 'k

type_synonym 'k epoll_ctl = "epoll_op \<Rightarrow> int \<Rightarrow> mask \<Rightarrow> caddr \<Rightarrow> 'k \<Rightarrow> bool \<times> 'k"

definition init_event_list_size :: nat where "init_event_list_size = 16"

definition EpollPoller :: "(caddr \<Rightarrow> channel) \<Rightarrow> 'k \<Rightarrow> 'k epoll_poller" where
  "EpollPoller st k = \<lparr>chan = st, channels = Map.empty, events_size = init_event_list_size, kernel = k\<rparr>"

definition set_chan :: "caddr \<Rightarrow> channel \<Rightarrow> 'k epoll_poller \<Rightarrow> 'k epoll_poller" where
  "set_chan a c p = p\<lparr>chan := (chan p)(a := c)\<rparr>"

definition set_index :: "caddr \<Rightarrow> int \<Rightarrow> 'k epoll_poller \<Rightarrow> 'k epoll_poller" where
  "set_index a i p = set_chan a ((chan p a)\<lparr>index := i\<rparr>) p"

definition has_channel :: "caddr \<Rightarrow> 'k epoll_poller \<Rightarrow> bool" where
  "has_channel a p \<longleftrightarrow> channels p (fd (chan p a)) = Some a"

definition poller_update :: "'k epoll_ctl \<Rightarrow> epoll_op \<Rightarrow> caddr \<Rightarrow> 'k epoll_poller \<Rightarrow> bool \<times> 'k epoll_poller" where
  "poller_update ctl operation a p =
     (case ctl operation (fd (chan p a)) (events (chan p a)) a (kernel p) of
        (ok, k) \<Rightarrow> (ok, p\<lparr>kernel := k\<rparr>))"

definition update_channel :: "'k epoll_ctl \<Rightarrow> caddr \<Rightarrow> 'k epoll_poller \<Rightarrow> bool \<times> 'k epoll_poller" where
  "update_channel ctl a p =
     (let c = chan p a; idx = index c
      in if idx = new_index \<or> idx = deleted_index then
           (if idx = new_index then
              (if channels p (fd c) \<noteq> None then (False, p)
               else poller_update ctl CTL_ADD a
                      (set_index a added_index (p\<lparr>channels := (channels p)(fd c \<mapsto> a)\<rparr>)))
            else if channels p (fd c) = None then (False, p)
            else if channels p (fd c) \<noteq> Some a then (False, p)
            else poller_update ctl CTL_ADD a (set_index a added_index p))
         else if channels p (fd c) = None \<or> channels p (fd c) \<noteq> Some a \<or> idx \<noteq> added_index then (False, p)
         else if is_event_none c then
           (case poller_update ctl CTL_DEL a p of
              (True, p1) \<Rightarrow> (True, set_index a deleted_index p1)
            | (False, p1) \<Rightarrow> (False, p1))
         else poller_update ctl CTL_MOD a p)"

definition remove_channel :: "'k epoll_ctl \<Rightarrow> caddr \<Rightarrow> 'k epoll_poller \<Rightarrow> 'k epoll_poller" where
  "remove_channel ctl a p =
     (let c = chan p a
      in if channels p (fd c) = None \<or> channels p (fd c) \<noteq> Some a \<or> \<not> is_event_none c then p
         else if index c \<noteq> added_index \<and> index c \<noteq> deleted_index then p
         else let p1 = p\<lparr>channels := (channels p)(fd c := None)\<rparr>;
                  p2 = (if index c = added_index then snd (poller_update ctl CTL_DEL a p1) else p1)
              in set_index a new_index p2)"

text \<open>
  \<^verbatim>\<open>_fill_active_channels\<close> walks over the reported events and returns at the first whose
  channel is not the registered one.
\<close>

fun fill_active_channels ::
  "(mask \<times> caddr) list \<Rightarrow> 'k epoll_poller \<Rightarrow> caddr list \<Rightarrow> caddr list \<times> 'k epoll_poller" where
  "fill_active_channels [] p active = (active, p)"
| "fill_active_channels ((ev, a) # evs) p active =
     (if channels p (fd (chan p a)) \<noteq> Some a then (active, p)
      else fill_active_channels evs (set_chan a (set_revents ev (chan p a)) p) (active @ [a]))"

definition poll ::
  "int \<Rightarrow> (mask \<times> caddr) list \<Rightarrow> int \<Rightarrow> 'k epoll_poller \<Rightarrow> timestamp \<times> caddr list \<times> 'k epoll_poller" where
  "poll numEvents evs clock p =
     (if numEvents > 0 then
        (case fill_active_channels (take (nat numEvents) evs) p [] of
           (active, p1) \<Rightarrow>
             (now clock, active,
              if nat numEvents = events_size p1 then p1\<lparr>events_size := events_size p1 * 2\<rparr> else p1))
      else (now clock, [], p))"

section \<open>Channel operations\<close>

text \<open>
  The operations that change the event mask store it and ask the poller to update. The
  owning loop is taken to be the one the poller belongs to.
\<close>

definition set_events :: "'k epoll_ctl \<Rightarrow> caddr \<Rightarrow> mask \<Rightarrow> 'k epoll_poller \<Rightarrow> bool \<times> 'k epoll_poller" where
  "set_events ctl a ev p = update_channel ctl a (set_chan a ((chan p a)\<lparr>events := ev\<rparr>) p)"

definition enable_reading :: "'k epoll_ctl \<Rightarrow> caddr \<Rightarrow> 'k epoll_poller \<Rightarrow> bool \<times> 'k epoll_poller" where
  "enable_reading ctl a p = set_events ctl a (events (chan p a) OR read_event) p"

definition disable_reading :: "'k epoll_ctl \<Rightarrow> caddr \<Rightarrow> 'k epoll_poller \<Rightarrow> bool \<times> 'k epoll_poller" where
  "disable_reading ctl a p = set_events ctl a (events (chan p a) AND NOT read_event) p"

definition enable_writing :: "'k epoll_ctl \<Rightarrow> caddr \<Rightarrow> 'k epoll_poller \<Rightarrow> bool \<times> 'k epoll_poller" where
  "enable_writing ctl a p = set_events ctl a (events (chan p a) OR write_event) p"

definition disable_writing :: "'k epoll_ctl \<Rightarrow> caddr \<Rightarrow> 'k epoll_poller \<Rightarrow> bool \<times> 'k epoll_poller" where
  "disable_writing ctl a p = set_events ctl a (events (chan p a) AND NOT write_event) p"

definition disable_all :: "'k epoll_ctl \<Rightarrow> caddr \<Rightarrow> 'k epoll_poller \<Rightarrow> bool \<times> 'k epoll_poller" where
  "disable_all ctl a p = set_events ctl a none_event p"

definition channel_remove :: "'k epoll_ctl \<Rightarrow> caddr \<Rightarrow> 'k epoll_poller \<Rightarrow> 'k epoll_poller" where
  "channel_remove ctl a p = (if is_event_none (chan p a) then remove_channel ctl a p else p)"

section \<open>Registration\<close>

text \<open>The map and the index field tell the same: registered is added or deleted, not new.\<close>

definition reg_ok :: "'k epoll_poller \<Rightarrow> bool" where
  "reg_ok p \<longleftrightarrow>
     (\<forall>a. index (chan p a) \<in> {new_index, added_index, deleted_index}) \<and>
     (\<forall>f a. channels p f = Some a \<longleftrightarrow> fd (chan p a) = f \<and> index (chan p a) \<noteq> new_index)"

lemma chan_simps [simp]:
  "chan (set_chan a c p) = (chan p)(a := c)"
  "channels (set_chan a c p) = channels p"
  "kernel (set_chan a c p) = kernel p"
  "events_size (set_chan a c p) = events_size p"
  "chan (set_index a i p) = (chan p)(a := (chan p a)\<lparr>index := i\<rparr>)"
  "channels (set_index a i p) = channels p"
  "kernel (set_index a i p) = kernel p"
  "chan (p\<lparr>kernel := k\<rparr>) = chan p"
  by (simp_all add: set_chan_def set_index_def)

lemma poller_update_frame [simp]:
  "chan (snd (poller_update ctl op a p)) = chan p"
  "channels (snd (poller_update ctl op a p)) = channels p"
  by (simp_all add: poller_update_def case_prod_beta)

lemma reg_okD:
  assumes "reg_ok p"
  shows "index (chan p a) \<in> {new_index, added_index, deleted_index}"
    and "channels p f = Some a \<longleftrightarrow> fd (chan p a) = f \<and> index (chan p a) \<noteq> new_index"
  using assms by (simp_all add: reg_ok_def)

text \<open>What \<^verbatim>\<open>update_channel\<close> does to a channel in each of its three states.\<close>

lemma update_new_taken:
  assumes "index (chan p a) = new_index" and "channels p (fd (chan p a)) \<noteq> None"
  shows "update_channel ctl a p = (False, p)"
  using assms by (simp add: update_channel_def Let_def)

lemma update_new:
  assumes "index (chan p a) = new_index" and "channels p (fd (chan p a)) = None"
  shows "update_channel ctl a p =
    poller_update ctl CTL_ADD a (set_index a added_index (p\<lparr>channels := (channels p)(fd (chan p a) \<mapsto> a)\<rparr>))"
  using assms by (simp add: update_channel_def Let_def)

lemma update_deleted:
  assumes "reg_ok p" and "index (chan p a) = deleted_index"
  shows "update_channel ctl a p = poller_update ctl CTL_ADD a (set_index a added_index p)"
proof -
  have "channels p (fd (chan p a)) = Some a"
    using reg_okD(2) [OF assms(1), of "fd (chan p a)" a] assms(2) by (simp add: index_consts)
  then show ?thesis using assms(2) by (simp add: update_channel_def Let_def index_consts)
qed

lemma update_added:
  assumes "reg_ok p" and "index (chan p a) = added_index"
  shows "update_channel ctl a p =
    (if is_event_none (chan p a)
     then (case poller_update ctl CTL_DEL a p of
             (True, p1) \<Rightarrow> (True, set_index a deleted_index p1) | (False, p1) \<Rightarrow> (False, p1))
     else poller_update ctl CTL_MOD a p)"
proof -
  have "channels p (fd (chan p a)) = Some a"
    using reg_okD(2) [OF assms(1), of "fd (chan p a)" a] assms(2) by (simp add: index_consts)
  then show ?thesis using assms(2) by (simp add: update_channel_def Let_def index_consts)
qed

lemma reg_ok_events: "reg_ok (set_chan a ((chan p a)\<lparr>events := ev\<rparr>) p) = reg_ok p"
proof -
  have "index (((chan p)(a := (chan p a)\<lparr>events := ev\<rparr>)) b) = index (chan p b)"
    "fd (((chan p)(a := (chan p a)\<lparr>events := ev\<rparr>)) b) = fd (chan p b)" for b
    by simp_all
  then show ?thesis by (simp only: reg_ok_def chan_simps)
qed

lemma reg_ok_index:
  assumes "reg_ok p" and "index (chan p a) \<noteq> new_index" and "i \<in> {added_index, deleted_index}"
  shows "reg_ok (set_index a i p)"
  using assms by (auto simp: reg_ok_def index_consts)

lemma reg_ok_frame: "reg_ok p \<Longrightarrow> chan p' = chan p \<Longrightarrow> channels p' = channels p \<Longrightarrow> reg_ok p'"
  by (simp add: reg_ok_def)

lemma reg_ok_add:
  assumes "reg_ok p" and "index (chan p a) = new_index" and "channels p (fd (chan p a)) = None"
  shows "reg_ok (set_index a added_index (p\<lparr>channels := (channels p)(fd (chan p a) \<mapsto> a)\<rparr>))"
proof -
  have "b = a" if "fd (chan p b) = fd (chan p a)" "index (chan p b) \<noteq> new_index" for b
    using reg_okD(2) [OF assms(1), of "fd (chan p a)" b] that assms(3) by simp
  then show ?thesis using assms by (auto simp: reg_ok_def index_consts)
qed

lemma update_channel_reg_ok:
  assumes "reg_ok p"
  shows "reg_ok (snd (update_channel ctl a p))"
proof -
  consider "index (chan p a) = new_index" | "index (chan p a) = deleted_index" | "index (chan p a) = added_index"
    using reg_okD(1) [OF assms, of a] by auto
  then show ?thesis
  proof cases
    case 1
    then show ?thesis using assms reg_ok_add [OF assms 1]
      by (cases "channels p (fd (chan p a)) = None")
        (auto simp: update_new update_new_taken intro: reg_ok_frame)
  next
    case 2
    then show ?thesis using reg_ok_index [OF assms, of a added_index] update_deleted [OF assms 2, of ctl]
      by (auto simp: index_consts intro: reg_ok_frame)
  next
    case 3
    let ?q = "snd (poller_update ctl CTL_DEL a p)"
    have "reg_ok ?q" by (rule reg_ok_frame [OF assms]) simp_all
    moreover from this have "reg_ok (set_index a deleted_index ?q)"
      by (rule reg_ok_index) (simp_all add: 3 index_consts)
    moreover have "reg_ok (snd (poller_update ctl CTL_MOD a p))" by (rule reg_ok_frame [OF assms]) simp_all
    ultimately show ?thesis using update_added [OF assms 3, of ctl]
      by (auto split: prod.split bool.split)
  qed
qed

lemma remove_channel_cases:
  assumes "reg_ok p"
  shows "remove_channel ctl a p =
    (if is_event_none (chan p a) \<and> index (chan p a) \<noteq> new_index
     then let p1 = p\<lparr>channels := (channels p)(fd (chan p a) := None)\<rparr>
          in set_index a new_index
               (if index (chan p a) = added_index then snd (poller_update ctl CTL_DEL a p1) else p1)
     else p)"
  using reg_okD(1) [OF assms, of a] reg_okD(2) [OF assms, of "fd (chan p a)" a]
  by (auto simp: remove_channel_def Let_def index_consts)

lemma registered_unique:
  assumes "reg_ok p" and "fd (chan p b) = fd (chan p a)"
    and "index (chan p a) \<noteq> new_index" and "index (chan p b) \<noteq> new_index"
  shows "b = a"
  using reg_okD(2) [OF assms(1), of "fd (chan p a)" a] reg_okD(2) [OF assms(1), of "fd (chan p a)" b] assms
  by simp

lemma remove_channel_reg_ok:
  assumes "reg_ok p"
  shows "reg_ok (remove_channel ctl a p)"
proof (cases "is_event_none (chan p a) \<and> index (chan p a) \<noteq> new_index")
  case True
  let ?p1 = "p\<lparr>channels := (channels p)(fd (chan p a) := None)\<rparr>"
  have "index (chan p b) = new_index" if "b \<noteq> a" "fd (chan p b) = fd (chan p a)" for b
    using registered_unique [OF assms that(2)] that(1) True by blast
  then have "reg_ok (set_index a new_index ?p1)"
    using assms True by (auto simp: reg_ok_def index_consts)
  then show ?thesis using True remove_channel_cases [OF assms, of ctl a]
    by (auto simp: Let_def intro: reg_ok_frame)
qed (use assms remove_channel_cases [OF assms, of ctl a] in auto)

section \<open>The interface of pollers\<close>

text \<open>
  What the event loop expects of \<^verbatim>\<open>update_channel\<close>, \<^verbatim>\<open>remove_channel\<close> and
  \<^verbatim>\<open>has_channel\<close>: a successful update registers the channel, removing a channel without
  events unregisters it, and neither touches the registration of another channel.
\<close>

locale poller_interface =
  fixes inv :: "'s \<Rightarrow> bool"
    and quiet :: "caddr \<Rightarrow> 's \<Rightarrow> bool"
    and update :: "caddr \<Rightarrow> 's \<Rightarrow> bool \<times> 's"
    and remove :: "caddr \<Rightarrow> 's \<Rightarrow> 's"
    and has :: "caddr \<Rightarrow> 's \<Rightarrow> bool"
  assumes update_inv: "inv s \<Longrightarrow> inv (snd (update a s))"
    and remove_inv: "inv s \<Longrightarrow> inv (remove a s)"
    and update_has: "inv s \<Longrightarrow> update a s = (True, s') \<Longrightarrow> has a s'"
    and update_other: "inv s \<Longrightarrow> b \<noteq> a \<Longrightarrow> has b (snd (update a s)) = has b s"
    and update_quiet: "inv s \<Longrightarrow> quiet b (snd (update a s)) = quiet b s"
    and remove_has: "inv s \<Longrightarrow> quiet a s \<Longrightarrow> \<not> has a (remove a s)"
    and remove_other: "inv s \<Longrightarrow> b \<noteq> a \<Longrightarrow> has b (remove a s) = has b s"
begin

text \<open>Taking a channel off the poller: update it without events, then remove it.\<close>

definition unregister :: "caddr \<Rightarrow> 's \<Rightarrow> 's" where
  "unregister a s = remove a (snd (update a s))"

lemma unregister_inv: "inv s \<Longrightarrow> inv (unregister a s)"
  by (simp add: unregister_def update_inv remove_inv)

lemma unregister_has: "inv s \<Longrightarrow> quiet a s \<Longrightarrow> \<not> has a (unregister a s)"
  unfolding unregister_def by (intro remove_has update_inv) (simp_all add: update_quiet)

lemma unregister_other: "inv s \<Longrightarrow> b \<noteq> a \<Longrightarrow> has b (unregister a s) = has b s"
  by (simp add: unregister_def remove_other update_inv update_other)

end

lemma update_channel_chan:
  "fd (chan (snd (update_channel ctl a p)) b) = fd (chan p b)"
  "events (chan (snd (update_channel ctl a p)) b) = events (chan p b)"
  by (simp_all add: update_channel_def Let_def case_prod_beta bool.case_eq_if)

lemma has_channel_reg: "reg_ok p \<Longrightarrow> has_channel a p \<longleftrightarrow> index (chan p a) \<noteq> new_index"
  using reg_okD(2) [of p "fd (chan p a)" a] by (simp add: has_channel_def)

lemma update_channel_other_index:
  "b \<noteq> a \<Longrightarrow> index (chan (snd (update_channel ctl a p)) b) = index (chan p b)"
  by (simp_all add: update_channel_def Let_def case_prod_beta bool.case_eq_if)

lemma update_channel_true_index:
  assumes "reg_ok p" and "update_channel ctl a p = (True, p')"
  shows "index (chan p' a) \<noteq> new_index"
proof -
  have "fst (update_channel ctl a p) \<Longrightarrow> index (chan (snd (update_channel ctl a p)) a) \<noteq> new_index"
    by (auto simp: update_channel_def Let_def index_consts case_prod_beta bool.case_eq_if split: if_splits)
  then show ?thesis using assms(2) by simp
qed

lemma remove_channel_chan:
  "events (chan (remove_channel ctl a p) b) = events (chan p b)"
  "fd (chan (remove_channel ctl a p) b) = fd (chan p b)"
  "b \<noteq> a \<Longrightarrow> index (chan (remove_channel ctl a p) b) = index (chan p b)"
  by (auto simp: remove_channel_def Let_def)

interpretation epoll: poller_interface
  reg_ok "\<lambda>a p. is_event_none (chan p a)" "update_channel ctl" "remove_channel ctl" has_channel
  for ctl :: "'k epoll_ctl"
proof
  fix s s' :: "'k epoll_poller" and a b
  assume inv: "reg_ok s"
  note u = update_channel_reg_ok [OF inv, of ctl a] and r = remove_channel_reg_ok [OF inv, of ctl a]
  show "reg_ok (snd (update_channel ctl a s))" by (rule u)
  show "reg_ok (remove_channel ctl a s)" by (rule r)
  show "is_event_none (chan (snd (update_channel ctl a s)) b) = is_event_none (chan s b)"
    by (simp add: is_event_none_def update_channel_chan)
  show "has_channel a s'" if "update_channel ctl a s = (True, s')"
    using that u update_channel_true_index [OF inv that] has_channel_reg [of s' a] by simp
  show "has_channel b (snd (update_channel ctl a s)) = has_channel b s" if "b \<noteq> a"
    using that u inv by (simp add: has_channel_reg update_channel_other_index)
  show "has_channel b (remove_channel ctl a s) = has_channel b s" if "b \<noteq> a"
    using that r inv by (simp add: has_channel_reg remove_channel_chan)
  show "\<not> has_channel a (remove_channel ctl a s)" if "is_event_none (chan s a)"
    using that r inv remove_channel_cases [OF inv, of ctl a]
    by (simp add: has_channel_reg Let_def split: if_splits)
qed

section \<open>The kernel's interest list\<close>

text \<open>
  \<^verbatim>\<open>epoll_ctl\<close> as documented: adding an unknown descriptor, changing and deleting a known
  one succeed and do to the interest list what their names say. What happens on the misuses
  (EEXIST, ENOENT) is left open.
\<close>

definition epoll_kernel :: "'k epoll_ctl \<Rightarrow> ('k \<Rightarrow> int \<rightharpoonup> mask \<times> caddr) \<Rightarrow> bool" where
  "epoll_kernel ctl interest \<longleftrightarrow>
     (\<forall>f ev a k.
        (interest k f = None \<longrightarrow>
           fst (ctl CTL_ADD f ev a k) \<and> interest (snd (ctl CTL_ADD f ev a k)) = (interest k)(f \<mapsto> (ev, a))) \<and>
        (interest k f \<noteq> None \<longrightarrow>
           fst (ctl CTL_MOD f ev a k) \<and> interest (snd (ctl CTL_MOD f ev a k)) = (interest k)(f \<mapsto> (ev, a)) \<and>
           fst (ctl CTL_DEL f ev a k) \<and> interest (snd (ctl CTL_DEL f ev a k)) = (interest k)(f := None)))"

text \<open>The list that the poller's own state describes.\<close>

definition watched :: "'k epoll_poller \<Rightarrow> int \<rightharpoonup> mask \<times> caddr" where
  "watched p f =
     (case channels p f of
        None \<Rightarrow> None
      | Some a \<Rightarrow> if index (chan p a) = added_index then Some (events (chan p a), a) else None)"

definition in_step :: "('k \<Rightarrow> int \<rightharpoonup> mask \<times> caddr) \<Rightarrow> 'k epoll_poller \<Rightarrow> bool" where
  "in_step interest p \<longleftrightarrow> reg_ok p \<and> interest (kernel p) = watched p"

lemma poller_update_kernel:
  "fst (poller_update ctl op a p) = fst (ctl op (fd (chan p a)) (events (chan p a)) a (kernel p))"
  "kernel (snd (poller_update ctl op a p)) = snd (ctl op (fd (chan p a)) (events (chan p a)) a (kernel p))"
  by (simp_all add: poller_update_def case_prod_beta)

lemma epoll_kernelD:
  assumes "epoll_kernel ctl interest"
  shows "interest k f = None \<Longrightarrow> fst (ctl CTL_ADD f ev a k)"
    and "interest k f = None \<Longrightarrow> interest (snd (ctl CTL_ADD f ev a k)) = (interest k)(f \<mapsto> (ev, a))"
    and "interest k f \<noteq> None \<Longrightarrow> fst (ctl CTL_MOD f ev a k)"
    and "interest k f \<noteq> None \<Longrightarrow> interest (snd (ctl CTL_MOD f ev a k)) = (interest k)(f \<mapsto> (ev, a))"
    and "interest k f \<noteq> None \<Longrightarrow> fst (ctl CTL_DEL f ev a k)"
    and "interest k f \<noteq> None \<Longrightarrow> interest (snd (ctl CTL_DEL f ev a k)) = (interest k)(f := None)"
  using assms unfolding epoll_kernel_def by blast+

text \<open>
  Storing a new mask and calling \<^verbatim>\<open>update_channel\<close>, for a channel that is registered or
  whose descriptor is free: the kernel accepts the request and follows the poller.
\<close>

abbreviation remask :: "caddr \<Rightarrow> mask \<Rightarrow> 'k epoll_poller \<Rightarrow> 'k epoll_poller" where
  "remask a ev p \<equiv> set_chan a ((chan p a)\<lparr>events := ev\<rparr>) p"

lemma in_step_reg: "in_step interest p \<Longrightarrow> reg_ok p"
  by (simp add: in_step_def)

lemma remask_facts:
  assumes "reg_ok p"
  shows "reg_ok (remask a ev p)" "kernel (remask a ev p) = kernel p" "channels (remask a ev p) = channels p"
    "fd (chan (remask a ev p) a) = fd (chan p a)" "index (chan (remask a ev p) a) = index (chan p a)"
    "events (chan (remask a ev p) a) = ev" "\<And>b. b \<noteq> a \<Longrightarrow> chan (remask a ev p) b = chan p b"
  using assms by (simp_all add: reg_ok_events)

lemma set_events_new:
  assumes "epoll_kernel ctl interest" and "in_step interest p" and "index (chan p a) = new_index"
    and "channels p (fd (chan p a)) = None"
  shows "in_step interest (snd (set_events ctl a ev p)) \<and> fst (set_events ctl a ev p)"
proof -
  let ?q = "remask a ev p"
  let ?r = "snd (update_channel ctl a ?q)"
  have ik: "interest (kernel p) = watched p" using assms(2) by (simp add: in_step_def)
  note reg = in_step_reg [OF assms(2)]
  note q = remask_facts [OF reg, where a = a and ev = ev]
  note K = epoll_kernelD [OF assms(1)]
  have regr: "reg_ok ?r" by (rule update_channel_reg_ok [OF q(1)])
  have free: "interest (kernel p) (fd (chan p a)) = None" using assms(4) ik by (simp add: watched_def)
  have u: "update_channel ctl a ?q = poller_update ctl CTL_ADD a
      (set_index a added_index (?q\<lparr>channels := (channels ?q)(fd (chan ?q a) \<mapsto> a)\<rparr>))"
    by (rule update_new) (use assms(3,4) q in simp_all)
  have "interest (kernel ?r) = watched ?r"
  proof
    fix f
    have "channels p f \<noteq> Some a" using reg_okD(2) [OF reg, of f a] assms(3) by blast
    then show "interest (kernel ?r) f = watched ?r f"
      using K(2) [OF free, of ev a] ik q(2-7)
      by (auto simp: u poller_update_kernel watched_def split: option.split)
  qed
  moreover have "fst (update_channel ctl a ?q)"
    using K(1) [OF free, of ev a] q(2-7) by (simp add: u poller_update_kernel)
  ultimately show ?thesis using regr by (simp add: in_step_def set_events_def)
qed

lemma set_events_deleted:
  assumes "epoll_kernel ctl interest" and "in_step interest p" and "index (chan p a) = deleted_index"
  shows "in_step interest (snd (set_events ctl a ev p)) \<and> fst (set_events ctl a ev p)"
proof -
  let ?q = "remask a ev p"
  let ?r = "snd (update_channel ctl a ?q)"
  have ik: "interest (kernel p) = watched p" using assms(2) by (simp add: in_step_def)
  note reg = in_step_reg [OF assms(2)]
  note q = remask_facts [OF reg, where a = a and ev = ev]
  note K = epoll_kernelD [OF assms(1)]
  have regr: "reg_ok ?r" by (rule update_channel_reg_ok [OF q(1)])
  have ch: "channels p (fd (chan p a)) = Some a"
    using reg_okD(2) [OF reg, of "fd (chan p a)" a] assms(3) by (simp add: index_consts)
  then have free: "interest (kernel p) (fd (chan p a)) = None"
    using assms(3) ik by (simp add: watched_def index_consts)
  have u: "update_channel ctl a ?q = poller_update ctl CTL_ADD a (set_index a added_index ?q)"
    by (rule update_deleted) (use assms(3) q in simp_all)
  have "interest (kernel ?r) = watched ?r"
  proof
    fix f
    have "channels p f = Some a \<longleftrightarrow> f = fd (chan p a)"
      using reg_okD(2) [OF reg, of f a] assms(3) by (auto simp: index_consts)
    then show "interest (kernel ?r) f = watched ?r f"
      using K(2) [OF free, of ev a] ik q(2-7) ch
      by (auto simp: u poller_update_kernel watched_def split: option.split)
  qed
  moreover have "fst (update_channel ctl a ?q)"
    using K(1) [OF free, of ev a] q(2-7) by (simp add: u poller_update_kernel)
  ultimately show ?thesis using regr by (simp add: in_step_def set_events_def)
qed

lemma set_events_added:
  assumes "epoll_kernel ctl interest" and "in_step interest p" and "index (chan p a) = added_index"
  shows "in_step interest (snd (set_events ctl a ev p)) \<and> fst (set_events ctl a ev p)"
proof -
  let ?q = "remask a ev p"
  let ?r = "snd (update_channel ctl a ?q)"
  have ik: "interest (kernel p) = watched p" using assms(2) by (simp add: in_step_def)
  note reg = in_step_reg [OF assms(2)]
  note q = remask_facts [OF reg, where a = a and ev = ev]
  note K = epoll_kernelD [OF assms(1)]
  have regr: "reg_ok ?r" by (rule update_channel_reg_ok [OF q(1)])
  have ch: "channels p (fd (chan p a)) = Some a"
    using reg_okD(2) [OF reg, of "fd (chan p a)" a] assms(3) by (simp add: index_consts)
  then have known: "interest (kernel p) (fd (chan p a)) \<noteq> None"
    using assms(3) ik by (simp add: watched_def)
  have u: "update_channel ctl a ?q = (if is_event_none (chan ?q a)
      then (case poller_update ctl CTL_DEL a ?q of
              (True, p1) \<Rightarrow> (True, set_index a deleted_index p1) | (False, p1) \<Rightarrow> (False, p1))
      else poller_update ctl CTL_MOD a ?q)"
    by (rule update_added) (use assms(3) q in simp_all)
  have acc: "fst (poller_update ctl CTL_DEL a ?q)" "fst (poller_update ctl CTL_MOD a ?q)"
    using K(3,5) [OF known] q(2-6) by (simp_all add: poller_update_kernel)
  have "interest (kernel ?r) = watched ?r"
  proof
    fix f
    have "channels p f = Some a \<longleftrightarrow> f = fd (chan p a)"
      using reg_okD(2) [OF reg, of f a] assms(3) by (auto simp: index_consts)
    then show "interest (kernel ?r) f = watched ?r f"
      using K(4,6) [OF known, of ev a] ik q(2-7) ch acc assms(3)
      by (auto simp: u poller_update_kernel watched_def case_prod_beta bool.case_eq_if index_consts
          split: option.split)
  qed
  moreover have "fst (update_channel ctl a ?q)"
    using acc by (simp add: u case_prod_beta bool.case_eq_if)
  ultimately show ?thesis using regr by (simp add: in_step_def set_events_def)
qed

lemma set_events_taken:
  assumes "in_step interest p" and "index (chan p a) = new_index"
    and "channels p (fd (chan p a)) \<noteq> None"
  shows "in_step interest (snd (set_events ctl a ev p))"
proof -
  let ?q = "remask a ev p"
  have ik: "interest (kernel p) = watched p" using assms(1) by (simp add: in_step_def)
  note reg = in_step_reg [OF assms(1)]
  note q = remask_facts [OF reg, where a = a and ev = ev]
  have "watched ?q = watched p"
  proof
    fix f
    have "channels p f \<noteq> Some a" using reg_okD(2) [OF reg, of f a] assms(2) by blast
    then show "watched ?q f = watched p f" by (auto simp: watched_def q split: option.split)
  qed
  moreover have "update_channel ctl a ?q = (False, ?q)" by (rule update_new_taken) (use assms(2,3) q in simp_all)
  ultimately show ?thesis using q ik by (simp add: in_step_def set_events_def)
qed

lemma set_events_in_step:
  assumes "epoll_kernel ctl interest" and "in_step interest p"
  shows "in_step interest (snd (set_events ctl a ev p)) \<and>
    (index (chan p a) \<noteq> new_index \<or> channels p (fd (chan p a)) = None \<longrightarrow> fst (set_events ctl a ev p))"
proof -
  consider (taken) "index (chan p a) = new_index" "channels p (fd (chan p a)) \<noteq> None"
    | (new) "index (chan p a) = new_index" "channels p (fd (chan p a)) = None"
    | (deleted) "index (chan p a) = deleted_index" | (added) "index (chan p a) = added_index"
    using reg_okD(1) [OF in_step_reg [OF assms(2)], of a] by auto
  then show ?thesis
  proof cases
    case taken
    then show ?thesis using set_events_taken [OF assms(2), where a = a and ev = ev] by auto
  next
    case new
    then show ?thesis using set_events_new [OF assms] by simp
  next
    case deleted
    then show ?thesis using set_events_deleted [OF assms] by simp
  next
    case added
    then show ?thesis using set_events_added [OF assms] by simp
  qed
qed

lemma remove_channel_in_step:
  assumes "epoll_kernel ctl interest" and "in_step interest p"
  shows "in_step interest (remove_channel ctl a p)"
proof (cases "is_event_none (chan p a) \<and> index (chan p a) \<noteq> new_index")
  case True
  have reg: "reg_ok p" and ik: "interest (kernel p) = watched p" using assms(2) by (simp_all add: in_step_def)
  let ?r = "remove_channel ctl a p" and ?f = "fd (chan p a)"
  note r = remove_channel_cases [OF reg, of ctl a]
  have ch: "channels p f = Some a \<longleftrightarrow> f = ?f" for f
    using reg_okD(2) [OF reg, of f a] True by (auto simp: index_consts)
  have known: "interest (kernel p) ?f = (if index (chan p a) = added_index then Some (events (chan p a), a) else None)"
    using ik ch [of ?f] by (simp add: watched_def)
  have "interest (kernel ?r) f = watched ?r f" for f
    using True r ch [of f] known ik epoll_kernelD(6) [OF assms(1), of "kernel p" ?f "events (chan p a)" a]
    by (auto simp: Let_def poller_update_kernel watched_def index_consts split: option.split if_splits)
  then show ?thesis using remove_channel_reg_ok [OF reg, of ctl a] by (simp add: in_step_def fun_eq_iff)
next
  case False
  then show ?thesis using assms(2) remove_channel_cases [of p ctl a] by (auto simp: in_step_def)
qed

lemma fill_active_frame:
  "watched (snd (fill_active_channels evs p active)) = watched p \<and>
   kernel (snd (fill_active_channels evs p active)) = kernel p \<and>
   reg_ok (snd (fill_active_channels evs p active)) = reg_ok p"
proof (induction evs p active rule: fill_active_channels.induct)
  case (2 ev a evs p active)
  let ?q = "set_chan a ((chan p a)\<lparr>revents := ev\<rparr>) p"
  have i: "index (chan ?q b) = index (chan p b)" "fd (chan ?q b) = fd (chan p b)" "events (chan ?q b) = events (chan p b)" for b
    by simp_all
  have "watched ?q = watched p" by (simp only: watched_def fun_eq_iff i chan_simps(2)) simp
  moreover have "reg_ok ?q = reg_ok p" by (simp only: reg_ok_def i chan_simps(2))
  ultimately show ?case using 2 by simp
qed simp

section \<open>Steps\<close>

text \<open>
  Everything that happens to a poller: a channel object is created at an address that holds
  no registered one, a channel operation runs, or a poll returns.
\<close>

inductive poller_step :: "'k epoll_ctl \<Rightarrow> 'k epoll_poller \<Rightarrow> 'k epoll_poller \<Rightarrow> bool" for ctl where
  create: "index (chan p a) = new_index \<Longrightarrow> poller_step ctl p (set_chan a (new_channel f) p)"
| enable_r: "poller_step ctl p (snd (enable_reading ctl a p))"
| disable_r: "poller_step ctl p (snd (disable_reading ctl a p))"
| enable_w: "poller_step ctl p (snd (enable_writing ctl a p))"
| disable_w: "poller_step ctl p (snd (disable_writing ctl a p))"
| disable: "poller_step ctl p (snd (disable_all ctl a p))"
| remove: "poller_step ctl p (channel_remove ctl a p)"
| polled: "poller_step ctl p (snd (snd (poll n evs clock p)))"

inductive poller_reachable :: "'k epoll_ctl \<Rightarrow> 'k \<Rightarrow> 'k epoll_poller \<Rightarrow> bool" for ctl k where
  start: "(\<And>a. index (st a) = new_index) \<Longrightarrow> poller_reachable ctl k (EpollPoller st k)"
| step: "poller_reachable ctl k p \<Longrightarrow> poller_step ctl p p' \<Longrightarrow> poller_reachable ctl k p'"

lemma create_in_step:
  assumes "in_step interest p" and "index (chan p a) = new_index"
  shows "in_step interest (set_chan a (new_channel f) p)"
proof -
  have reg: "reg_ok p" and ik: "interest (kernel p) = watched p" using assms(1) by (simp_all add: in_step_def)
  have na: "channels p f' \<noteq> Some a" for f' using reg_okD(2) [OF reg, of f' a] assms(2) by blast
  have "reg_ok (set_chan a (new_channel f) p)"
    using reg na assms(2) by (auto simp: reg_ok_def new_channel_def index_consts)
  moreover have "watched (set_chan a (new_channel f) p) = watched p"
    using na by (auto simp: watched_def fun_eq_iff split: option.split)
  ultimately show ?thesis using ik by (simp add: in_step_def)
qed

lemma poll_in_step:
  assumes "in_step interest p"
  shows "in_step interest (snd (snd (poll n evs clock p)))"
proof -
  obtain act q where f: "fill_active_channels (take (nat n) evs) p [] = (act, q)" by fastforce
  have "watched q = watched p \<and> kernel q = kernel p \<and> reg_ok q = reg_ok p"
    using fill_active_frame [of "take (nat n) evs" p "[]"] f by simp
  moreover have "watched (q\<lparr>events_size := s\<rparr>) = watched q" "reg_ok (q\<lparr>events_size := s\<rparr>) = reg_ok q" for s
    by (auto simp: watched_def fun_eq_iff reg_ok_def split: option.split)
  ultimately show ?thesis using assms f by (simp add: poll_def in_step_def)
qed

lemma poller_step_in_step:
  assumes "epoll_kernel ctl interest" and "poller_step ctl p p'" and "in_step interest p"
  shows "in_step interest p'"
  using assms(2,3) set_events_in_step [OF assms(1)] remove_channel_in_step [OF assms(1)]
  by (cases rule: poller_step.cases)
    (simp_all add: create_in_step poll_in_step enable_reading_def disable_reading_def enable_writing_def
      disable_writing_def disable_all_def channel_remove_def)

section \<open>Properties\<close>


text \<open>A kernel that keeps the interest list itself.\<close>

fun list_kernel :: "(int \<rightharpoonup> mask \<times> caddr) epoll_ctl" where
  "list_kernel CTL_ADD f ev a k = (if k f = None then (True, k(f \<mapsto> (ev, a))) else (False, k))"
| "list_kernel CTL_MOD f ev a k = (if k f = None then (False, k) else (True, k(f \<mapsto> (ev, a))))"
| "list_kernel CTL_DEL f ev a k = (if k f = None then (False, k) else (True, k(f := None)))"

lemma list_kernel_ok: "epoll_kernel list_kernel (\<lambda>k. k)"
  by (simp add: epoll_kernel_def)


text \<open>
  when the kernel reports only channels it watches, \<^verbatim>\<open>poll\<close> hands all of them to the
  loop, in order and with the reported events stored in each, and doubles the event array
  when it was filled.
\<close>

theorem poll_delivers:
  assumes "in_step interest p" and "0 < n" and "length evs = nat n"
    and "\<forall>(ev, a) \<in> set evs. \<exists>m. interest (kernel p) (fd (chan p a)) = Some (m, a)"
    and "distinct (map snd evs)" and "poll n evs clock p = (t, active, p')"
  shows "active = map snd evs \<and> t = Timestamp clock \<and>
    (\<forall>(ev, a) \<in> set evs. revents (chan p' a) = ev) \<and>
    events_size p' = (if nat n = events_size p then 2 * events_size p else events_size p)"
proof -
  have reg: "\<forall>(ev, a) \<in> set evs. channels p (fd (chan p a)) = Some a"
    using assms(1,4) by (fastforce simp: in_step_def watched_def split: option.splits if_splits)
  have fill: "fst (fill_active_channels evs p act) = act @ map snd evs \<and>
      (\<forall>(ev, a) \<in> set evs. revents (chan (snd (fill_active_channels evs p act)) a) = ev) \<and>
      (\<forall>b. b \<notin> snd ` set evs \<longrightarrow> chan (snd (fill_active_channels evs p act)) b = chan p b) \<and>
      events_size (snd (fill_active_channels evs p act)) = events_size p"
    if "\<forall>(ev, a) \<in> set evs. channels p (fd (chan p a)) = Some a" "distinct (map snd evs)" for evs p act
    using that
  proof (induction evs p act rule: fill_active_channels.induct)
    case (2 ev a evs p active)
    have na: "a \<notin> snd ` set evs" using "2.prems"(2) by simp
    let ?q = "set_chan a ((chan p a)\<lparr>revents := ev\<rparr>) p"
    have "\<forall>(ev, b) \<in> set evs. channels ?q (fd (chan ?q b)) = Some b" using "2.prems"(1) by auto
    then show ?case using "2.IH" "2.prems" na by auto
  qed simp
  obtain act q where f: "fill_active_channels evs p [] = (act, q)" by fastforce
  have "take (nat n) evs = evs" using assms(3) by simp
  then show ?thesis using fill [OF reg assms(5), of "[]"] f assms(2,6)
    by (auto simp: poll_def now_def)
qed

theorem poll_delivers_witness:
  "\<exists>t p'. poll 1 [(POLLIN, 3)] 77 (snd (enable_reading list_kernel 3 (EpollPoller (\<lambda>_. new_channel 9) Map.empty))) =
     (t, [3], p') \<and> revents (chan p' 3) = POLLIN"
proof -
  let ?p = "EpollPoller (\<lambda>_. new_channel 9) Map.empty :: (int \<rightharpoonup> mask \<times> caddr) epoll_poller"
  let ?q = "snd (enable_reading list_kernel 3 ?p)"
  have "in_step (\<lambda>k. k) ?p"
    by (auto simp: in_step_def reg_ok_def EpollPoller_def watched_def fun_eq_iff new_channel_def index_consts)
  then have s: "in_step (\<lambda>k. k) ?q"
    using set_events_in_step [OF list_kernel_ok] by (simp add: enable_reading_def)
  have "kernel ?q (fd (chan ?q 3)) = Some (read_event, 3)"
    by (simp add: enable_reading_def set_events_def update_channel_def EpollPoller_def
        new_channel_def index_consts poller_update_def Let_def set_chan_def set_index_def)
  moreover obtain t act p' where r: "poll 1 [(POLLIN, 3)] 77 ?q = (t, act, p')" by (metis prod_cases3)
  ultimately show ?thesis using poll_delivers [OF s _ _ _ _ r] r by simp
qed

end
