(* ===== verification/Event_Loop.thy ===== *)
theory Event_Loop
  imports Timer_Queue Channel_Poller
begin

text \<open>
  \<^verbatim>\<open>EventLoop\<close> of \<^verbatim>\<open>network/event_loop.{h,cpp}\<close>: timers, polling, event handling and the
  queue of functors that other threads hand to the loop thread. A functor is a value of an
  arbitrary type. The member functions are functions on the loop's record; the identity of
  the calling thread is the argument \<open>in_loop\<close>, results of system calls are arguments.

  \<^verbatim>\<open>loop()\<close> is a step relation over the phases of its body, interleaved with calls from
  other threads at every point the mutex allows: \<^verbatim>\<open>do_other_tasks\<close> swaps the pending
  functors out under the lock and then runs them one by one. The lists \<open>submitted\<close> and
  \<open>executed\<close> are history variables, as are \<open>frames\<close>, the calls of the frame functor, and
  \<open>needs_wake\<close>, which tells that the pending list holds a functor whose submission calls
  \<^verbatim>\<open>wakeup()\<close>. A call of \<^verbatim>\<open>queue_in_loop\<close> from another thread is two steps, since \<^verbatim>\<open>wakeup()\<close>
  comes after the lock is released; \<open>waking\<close> counts the threads between the two. Writes to the
  eventfd are taken to succeed in these steps.
\<close>

section \<open>State and member functions\<close>

datatype phase = Stopped | Timers | Polling | Handling | Tasks | Frame

record ('t, 'k) event_loop =
  looping :: bool
  quit_flag :: bool
  event_handling :: bool
  doing_other_tasks :: bool
  iteration :: int
  poll_return_time :: timestamp
  timer_queue :: Timer_Queue.timer_queue
  poller :: "'k epoll_poller"
  wakeup_counter :: nat
  active_channels :: "caddr list"
  pending_functors :: "'t list"
  functors :: "'t list"
  frame_functor :: "'t option"
  at :: phase
  submitted :: "'t list"
  executed :: "'t list"
  needs_wake :: bool
  waking :: nat
  frames :: "'t list"

definition EventLoop :: "Timer_Queue.timer_queue \<Rightarrow> 'k epoll_poller \<Rightarrow> ('t, 'k) event_loop" where
  "EventLoop q p =
     \<lparr>looping = False, quit_flag = False, event_handling = False, doing_other_tasks = False,
      iteration = 0, poll_return_time = invalid, timer_queue = q, poller = p, wakeup_counter = 0,
      active_channels = [], pending_functors = [], functors = [], frame_functor = None, at = Stopped,
      submitted = [], executed = [], needs_wake = False, waking = 0, frames = []\<rparr>"

definition set_frame_functor :: "'t \<Rightarrow> ('t, 'k) event_loop \<Rightarrow> ('t, 'k) event_loop" where
  "set_frame_functor cb l = l\<lparr>frame_functor := Some cb\<rparr>"

definition call_frame :: "('t, 'k) event_loop \<Rightarrow> ('t, 'k) event_loop" where
  "call_frame l = l\<lparr>frames := frames l @ (case frame_functor l of None \<Rightarrow> [] | Some cb \<Rightarrow> [cb])\<rparr>"

text \<open>\<open>n\<close> is the result of writing (reading) the eight bytes of the eventfd.\<close>

definition wakeup :: "int \<Rightarrow> ('t, 'k) event_loop \<Rightarrow> bool \<times> ('t, 'k) event_loop" where
  "wakeup n l = (if n \<noteq> 8 then (False, l) else (True, l\<lparr>wakeup_counter := wakeup_counter l + 1\<rparr>))"

definition handle_read :: "int \<Rightarrow> ('t, 'k) event_loop \<Rightarrow> bool \<times> ('t, 'k) event_loop" where
  "handle_read n l = (if n \<noteq> 8 then (False, l) else (True, l\<lparr>wakeup_counter := 0\<rparr>))"

definition queue_push :: "bool \<Rightarrow> 't \<Rightarrow> ('t, 'k) event_loop \<Rightarrow> ('t, 'k) event_loop" where
  "queue_push in_loop cb l =
     l\<lparr>pending_functors := pending_functors l @ [cb], submitted := submitted l @ [cb],
       needs_wake := (needs_wake l \<or> \<not> in_loop \<or> doing_other_tasks l)\<rparr>"

definition queue_in_loop :: "bool \<Rightarrow> int \<Rightarrow> 't \<Rightarrow> ('t, 'k) event_loop \<Rightarrow> ('t, 'k) event_loop" where
  "queue_in_loop in_loop n cb l =
     (let l1 = queue_push in_loop cb l
      in if \<not> in_loop \<or> doing_other_tasks l1 then snd (wakeup n l1) else l1)"

text \<open>\<^verbatim>\<open>run_in_loop\<close> tells whether the functor is to be called at once.\<close>

definition run_in_loop :: "bool \<Rightarrow> int \<Rightarrow> 't \<Rightarrow> ('t, 'k) event_loop \<Rightarrow> 't option \<times> ('t, 'k) event_loop" where
  "run_in_loop in_loop n cb l = (if in_loop then (Some cb, l) else (None, queue_in_loop in_loop n cb l))"

definition quit :: "bool \<Rightarrow> int \<Rightarrow> ('t, 'k) event_loop \<Rightarrow> ('t, 'k) event_loop" where
  "quit in_loop n l =
     (let l1 = l\<lparr>quit_flag := True\<rparr> in if \<not> in_loop then snd (wakeup n l1) else l1)"

text \<open>\<^verbatim>\<open>do_other_tasks\<close> in three parts: before the loop, one call, after the loop.\<close>

definition tasks_begin :: "('t, 'k) event_loop \<Rightarrow> ('t, 'k) event_loop" where
  "tasks_begin l = l\<lparr>doing_other_tasks := True, functors := pending_functors l, pending_functors := [],
                     needs_wake := False\<rparr>"

definition tasks_next :: "('t, 'k) event_loop \<Rightarrow> ('t \<times> ('t, 'k) event_loop) option" where
  "tasks_next l =
     (case functors l of
        [] \<Rightarrow> None
      | f # fs \<Rightarrow> Some (f, l\<lparr>functors := fs, executed := executed l @ [f]\<rparr>))"

definition tasks_end :: "('t, 'k) event_loop \<Rightarrow> ('t, 'k) event_loop" where
  "tasks_end l = l\<lparr>doing_other_tasks := False\<rparr>"

section \<open>Timers through the loop\<close>

text \<open>\<open>a\<close> is the address of the new timer, \<open>clock\<close> the time of the call.\<close>

definition run_at ::
  "addr \<Rightarrow> timestamp \<Rightarrow> nat \<Rightarrow> Timer_Queue.timer_queue \<Rightarrow> Timer_Queue.timer_queue \<times> timer_task \<times> timer_id" where
  "run_at a time cb q = add_timer_copy a cb time 0 1 q"

definition run_after ::
  "addr \<Rightarrow> int \<Rightarrow> int \<Rightarrow> nat \<Rightarrow> Timer_Queue.timer_queue \<Rightarrow> Timer_Queue.timer_queue \<times> timer_task \<times> timer_id" where
  "run_after a clock delay cb q = run_at a (add_time (now clock) delay) cb q"

definition run_every ::
  "addr \<Rightarrow> int \<Rightarrow> int \<Rightarrow> nat \<Rightarrow> Timer_Queue.timer_queue \<Rightarrow> Timer_Queue.timer_queue \<times> timer_task \<times> timer_id" where
  "run_every a clock intv cb q = add_timer_copy a cb (add_time (now clock) intv) intv (- 1) q"

definition run_at_move ::
  "addr \<Rightarrow> timestamp \<Rightarrow> nat \<Rightarrow> Timer_Queue.timer_queue \<Rightarrow> Timer_Queue.timer_queue \<times> timer_task \<times> timer_id" where
  "run_at_move a time cb q = add_timer_move a cb time 0 1 q"

definition run_after_move ::
  "addr \<Rightarrow> int \<Rightarrow> int \<Rightarrow> nat \<Rightarrow> Timer_Queue.timer_queue \<Rightarrow> Timer_Queue.timer_queue \<times> timer_task \<times> timer_id" where
  "run_after_move a clock delay cb q = run_at_move a (add_time (now clock) delay) cb q"

definition run_every_move ::
  "addr \<Rightarrow> int \<Rightarrow> int \<Rightarrow> nat \<Rightarrow> Timer_Queue.timer_queue \<Rightarrow> Timer_Queue.timer_queue \<times> timer_task \<times> timer_id" where
  "run_every_move a clock intv cb q = add_timer_move a cb (add_time (now clock) intv) intv (- 1) q"

definition loop_cancel :: "timer_id \<Rightarrow> bool \<Rightarrow> timer_task" where
  "loop_cancel tid off = cancel tid off"

definition loop_remove :: "timer_id \<Rightarrow> timer_task" where
  "loop_remove tid = remove_timer tid"

section \<open>Channels through the loop\<close>

text \<open>\<open>owned\<close> tells whether \<^verbatim>\<open>channel->owner_loop()\<close> is this loop.\<close>

definition loop_update_channel ::
  "'k epoll_ctl \<Rightarrow> bool \<Rightarrow> caddr \<Rightarrow> ('t, 'k) event_loop \<Rightarrow> bool \<times> ('t, 'k) event_loop" where
  "loop_update_channel ctl owned a l =
     (if \<not> owned then (False, l)
      else case update_channel ctl a (poller l) of (ok, p) \<Rightarrow> (ok, l\<lparr>poller := p\<rparr>))"

definition loop_remove_channel ::
  "'k epoll_ctl \<Rightarrow> bool \<Rightarrow> caddr \<Rightarrow> ('t, 'k) event_loop \<Rightarrow> ('t, 'k) event_loop" where
  "loop_remove_channel ctl owned a l =
     (if \<not> owned then l else l\<lparr>poller := remove_channel ctl a (poller l)\<rparr>)"

definition loop_has_channel :: "caddr \<Rightarrow> ('t, 'k) event_loop \<Rightarrow> bool" where
  "loop_has_channel a l \<longleftrightarrow> has_channel a (poller l)"

section \<open>The loop\<close>

text \<open>\<open>Frame\<close> is the point of the frame functor and of the test of \<^verbatim>\<open>quit_\<close>, where the loop also enters.\<close>

inductive loop_step :: "('t, 'k) event_loop \<Rightarrow> ('t, 'k) event_loop \<Rightarrow> bool" where
  start: "at l = Stopped \<Longrightarrow> loop_step l (l\<lparr>looping := True, quit_flag := False, at := Frame\<rparr>)"
| timers: "at l = Timers \<Longrightarrow>
    loop_step l (l\<lparr>timer_queue := fst (do_timer (now clock) (timer_queue l)), active_channels := [], at := Polling\<rparr>)"
| polled: "at l = Polling \<Longrightarrow> poll n evs clock (poller l) = (t, active, p) \<Longrightarrow>
    loop_step l (l\<lparr>poll_return_time := t, active_channels := active, poller := p, iteration := iteration l + 1,
      event_handling := True, at := Handling\<rparr>)"
| handle: "at l = Handling \<Longrightarrow> active_channels l = a # as \<Longrightarrow> loop_step l (l\<lparr>active_channels := as\<rparr>)"
| read_wakeup: "at l = Handling \<Longrightarrow> loop_step l (snd (handle_read n l))"
| begin_tasks: "at l = Handling \<Longrightarrow> active_channels l = [] \<Longrightarrow>
    loop_step l (tasks_begin (l\<lparr>event_handling := False, at := Tasks\<rparr>))"
| task: "at l = Tasks \<Longrightarrow> tasks_next l = Some (f, l') \<Longrightarrow> loop_step l l'"
| end_tasks: "at l = Tasks \<Longrightarrow> functors l = [] \<Longrightarrow> loop_step l (call_frame ((tasks_end l)\<lparr>at := Frame\<rparr>))"
| again: "at l = Frame \<Longrightarrow> \<not> quit_flag l \<Longrightarrow> loop_step l (l\<lparr>at := Timers\<rparr>)"
| stop: "at l = Frame \<Longrightarrow> quit_flag l \<Longrightarrow> loop_step l (l\<lparr>looping := False, at := Stopped\<rparr>)"
| queue_inside: "at l \<noteq> Stopped \<Longrightarrow> loop_step l (queue_in_loop True 8 cb l)"
| queue_outside: "loop_step l ((queue_push False cb l)\<lparr>waking := waking l + 1\<rparr>)"
| wake_outside: "0 < waking l \<Longrightarrow> loop_step l ((snd (wakeup 8 l))\<lparr>waking := waking l - 1\<rparr>)"
| set_frame: "loop_step l (set_frame_functor cb l)"
| quit_call: "loop_step l (quit in_loop 8 l)"

inductive loop_reachable :: "('t, 'k) event_loop \<Rightarrow> bool" where
  new: "loop_reachable (EventLoop q p)"
| step: "loop_reachable l \<Longrightarrow> loop_step l l' \<Longrightarrow> loop_reachable l'"

inductive_cases loop_stepE: "loop_step l l'"

definition loop_inv :: "('t, 'k) event_loop \<Rightarrow> bool" where
  "loop_inv l \<longleftrightarrow>
     submitted l = executed l @ functors l @ pending_functors l \<and>
     (at l \<noteq> Tasks \<longrightarrow> functors l = []) \<and>
     (event_handling l \<longleftrightarrow> at l = Handling) \<and> (doing_other_tasks l \<longleftrightarrow> at l = Tasks) \<and>
     (looping l \<longleftrightarrow> at l \<noteq> Stopped) \<and> 0 \<le> iteration l"

lemmas loop_defs = queue_in_loop_def queue_push_def quit_def wakeup_def handle_read_def tasks_begin_def tasks_next_def
  tasks_end_def set_frame_functor_def call_frame_def Let_def

lemma loop_step_inv: "loop_step l l' \<Longrightarrow> loop_inv l \<Longrightarrow> loop_inv l'"
  by (induction rule: loop_step.induct) (auto simp: loop_inv_def loop_defs split: list.splits)

lemma loop_reachable_inv: "loop_reachable l \<Longrightarrow> loop_inv l"
proof (induction rule: loop_reachable.induct)
  case (new q p)
  then show ?case by (simp add: loop_inv_def EventLoop_def)
next
  case step
  then show ?case using loop_step_inv by blast
qed

lemma executed_grows: "loop_step l l' \<Longrightarrow> \<exists>xs. executed l' = executed l @ xs"
  by (induction rule: loop_step.induct) (auto simp: loop_defs split: list.splits)

definition wake_inv :: "('t, 'k) event_loop \<Rightarrow> bool" where
  "wake_inv l \<longleftrightarrow> (needs_wake l \<and> at l \<noteq> Handling \<longrightarrow> 0 < wakeup_counter l \<or> 0 < waking l)"

lemma wake_step: "loop_step l l' \<Longrightarrow> loop_inv l \<Longrightarrow> wake_inv l \<Longrightarrow> wake_inv l'"
  by (induction rule: loop_step.induct) (auto simp: wake_inv_def loop_inv_def loop_defs split: list.splits)

text \<open>The two parts of a call from another thread, one after the other, are the whole call.\<close>

lemma queue_outside_steps: "loop_step\<^sup>*\<^sup>* l (queue_in_loop False 8 cb l)"
proof -
  let ?l = "(queue_push False cb l)\<lparr>waking := waking l + 1\<rparr>"
  have "loop_step l ?l" by (rule loop_step.queue_outside)
  moreover have "loop_step ?l ((snd (wakeup 8 ?l))\<lparr>waking := waking ?l - 1\<rparr>)" by (rule loop_step.wake_outside) simp
  moreover have "(snd (wakeup 8 ?l))\<lparr>waking := waking ?l - 1\<rparr> = queue_in_loop False 8 cb l"
    by (simp add: loop_defs)
  ultimately show ?thesis by (simp add: converse_rtranclp_into_rtranclp)
qed

lemma reachable_steps: "loop_step\<^sup>*\<^sup>* l l' \<Longrightarrow> loop_reachable l \<Longrightarrow> loop_reachable l'"
  by (induction rule: rtranclp_induct) (auto intro: loop_reachable.step)

lemmas queued_reachable = reachable_steps [OF queue_outside_steps]

section \<open>One undisturbed round\<close>

text \<open>
  The body of the \<^verbatim>\<open>while\<close> loop as one function, for functors and callbacks that do not
  queue anything: the reference for what a round does when no other thread interferes.
\<close>

definition do_other_tasks :: "('t, 'k) event_loop \<Rightarrow> ('t, 'k) event_loop" where
  "do_other_tasks l =
     (let l1 = tasks_begin l
      in tasks_end (l1\<lparr>executed := executed l1 @ functors l1, functors := []\<rparr>))"

definition loop_body ::
  "int \<Rightarrow> int \<Rightarrow> (mask \<times> caddr) list \<Rightarrow> int \<Rightarrow> ('t, 'k) event_loop \<Rightarrow> ('t, 'k) event_loop" where
  "loop_body clock n evs clock2 l =
     (let l1 = l\<lparr>timer_queue := fst (do_timer (now clock) (timer_queue l)), active_channels := []\<rparr>
      in case poll n evs clock2 (poller l1) of
           (t, active, p) \<Rightarrow>
             call_frame (do_other_tasks (l1\<lparr>poll_return_time := t, poller := p, iteration := iteration l1 + 1\<rparr>)))"

lemma run_functors:
  "at l = Tasks \<Longrightarrow> loop_step\<^sup>*\<^sup>* l (l\<lparr>functors := [], executed := executed l @ functors l\<rparr>)"
proof (induction "functors l" arbitrary: l)
  case Nil
  then have "l\<lparr>functors := [], executed := executed l @ functors l\<rparr> = l" by (cases l) simp
  then show ?case by simp
next
  case (Cons f fs)
  let ?l = "l\<lparr>functors := fs, executed := executed l @ [f]\<rparr>"
  have "loop_step l ?l" using Cons.hyps(2) [symmetric] Cons.prems by (intro loop_step.task) (auto simp: tasks_next_def)
  moreover have "loop_step\<^sup>*\<^sup>* ?l (?l\<lparr>functors := [], executed := executed ?l @ functors ?l\<rparr>)"
    using Cons.hyps(1) [of ?l] Cons.prems by simp
  moreover have "?l\<lparr>functors := [], executed := executed ?l @ functors ?l\<rparr> =
      l\<lparr>functors := [], executed := executed l @ functors l\<rparr>"
    using Cons.hyps(2) [symmetric] by simp
  ultimately show ?case by (simp add: converse_rtranclp_into_rtranclp)
qed

lemma handle_all:
  "at l = Handling \<Longrightarrow> loop_step\<^sup>*\<^sup>* l (l\<lparr>active_channels := []\<rparr>)"
proof (induction "active_channels l" arbitrary: l)
  case Nil
  then have "l\<lparr>active_channels := []\<rparr> = l" by (cases l) simp
  then show ?case by simp
next
  case (Cons a as)
  have "loop_step l (l\<lparr>active_channels := as\<rparr>)"
    using Cons.hyps(2) [symmetric] Cons.prems by (rule loop_step.handle [rotated])
  moreover have "loop_step\<^sup>*\<^sup>* (l\<lparr>active_channels := as\<rparr>) (l\<lparr>active_channels := []\<rparr>)"
    using Cons.hyps(1) [of "l\<lparr>active_channels := as\<rparr>"] Cons.prems by simp
  ultimately show ?case by (simp add: converse_rtranclp_into_rtranclp)
qed

lemma six_steps: "r a b \<Longrightarrow> r b c \<Longrightarrow> r\<^sup>*\<^sup>* c d \<Longrightarrow> r d e \<Longrightarrow> r\<^sup>*\<^sup>* e f \<Longrightarrow> r f g \<Longrightarrow> r\<^sup>*\<^sup>* a g"
  by (meson converse_rtranclp_into_rtranclp rtranclp.rtrancl_into_rtrancl rtranclp_trans)

lemma loop_body_steps:
  assumes "at l = Timers"
  shows "loop_step\<^sup>*\<^sup>* l ((loop_body clock n evs clock2 (l\<lparr>event_handling := False\<rparr>))\<lparr>at := Frame\<rparr>)"
proof -
  let ?l1 = "l\<lparr>timer_queue := fst (do_timer (now clock) (timer_queue l)), active_channels := [], at := Polling\<rparr>"
  obtain t act p where pl: "poll n evs clock2 (poller ?l1) = (t, act, p)" by (metis prod_cases3)
  let ?l2 = "?l1\<lparr>poll_return_time := t, active_channels := act, poller := p, iteration := iteration ?l1 + 1,
      event_handling := True, at := Handling\<rparr>"
  let ?l3 = "?l2\<lparr>active_channels := []\<rparr>"
  let ?l4 = "tasks_begin (?l3\<lparr>event_handling := False, at := Tasks\<rparr>)"
  let ?l5 = "?l4\<lparr>functors := [], executed := executed ?l4 @ functors ?l4\<rparr>"
  have s1: "loop_step l ?l1" using assms by (rule loop_step.timers)
  have s2: "loop_step ?l1 ?l2" by (rule loop_step.polled [OF _ pl]) simp
  have s3: "loop_step\<^sup>*\<^sup>* ?l2 ?l3" by (rule handle_all) simp
  have s4: "loop_step ?l3 ?l4" by (rule loop_step.begin_tasks) simp_all
  have s5: "loop_step\<^sup>*\<^sup>* ?l4 ?l5" by (rule run_functors) (simp add: tasks_begin_def)
  have s6: "loop_step ?l5 (call_frame ((tasks_end ?l5)\<lparr>at := Frame\<rparr>))"
    by (rule loop_step.end_tasks) (simp_all add: tasks_begin_def)
  have r: "loop_step\<^sup>*\<^sup>* l (call_frame ((tasks_end ?l5)\<lparr>at := Frame\<rparr>))"
    by (rule six_steps [where r = loop_step, OF s1 s2 s3 s4 s5 s6])
  have "call_frame ((tasks_end ?l5)\<lparr>at := Frame\<rparr>) = (loop_body clock n evs clock2 (l\<lparr>event_handling := False\<rparr>))\<lparr>at := Frame\<rparr>"
    using pl by (simp add: loop_body_def do_other_tasks_def tasks_begin_def tasks_end_def call_frame_def Let_def)
  then show ?thesis using r by simp
qed

section \<open>Properties\<close>

definition demo_loop :: "(string, unit) event_loop" where
  "demo_loop = EventLoop demo_queue (EpollPoller (\<lambda>_. new_channel 0) ())"

lemma demo_loop_reachable: "loop_reachable demo_loop"
  unfolding demo_loop_def by (rule loop_reachable.new)

lemmas demo_loop_simps = demo_loop_def EventLoop_def loop_defs

text \<open>
  C7: whatever threads queue functors and whenever they do, the functors the loop has run
  are a prefix of the functors submitted, in the order of submission and each once; the rest
  is exactly what waits, first in the batch being run and then in the pending list. The flags
  follow the phases of the loop.
\<close>

theorem tasks_fifo_exactly_once:
  assumes "loop_reachable l"
  shows "submitted l = executed l @ functors l @ pending_functors l \<and>
    (event_handling l \<longleftrightarrow> at l = Handling) \<and> (doing_other_tasks l \<longleftrightarrow> at l = Tasks) \<and>
    (looping l \<longleftrightarrow> at l \<noteq> Stopped)"
  using loop_reachable_inv [OF assms] by (simp add: loop_inv_def)

theorem tasks_fifo_exactly_once_witness:
  "submitted (queue_in_loop False 8 ''b'' (queue_in_loop False 8 ''a'' demo_loop)) = [''a'', ''b'']"
proof -
  let ?l = "queue_in_loop False 8 ''b'' (queue_in_loop False 8 ''a'' demo_loop)"
  have "loop_reachable ?l" by (intro queued_reachable demo_loop_reachable)
  then have "submitted ?l = executed ?l @ functors ?l @ pending_functors ?l"
    using tasks_fifo_exactly_once by blast
  then show ?thesis by (simp add: demo_loop_simps)
qed

text \<open>
  C9: no wake-up is lost. A functor that another thread queued, or that a functor queued while
  the loop was running functors, and that the loop has not collected, keeps the eventfd
  readable at every point where the loop may go on to block in the poll, unless a thread that
  has queued a functor is still on its way to the write.
\<close>

theorem no_lost_wakeup:
  assumes "loop_reachable l"
  shows "needs_wake l \<and> at l \<noteq> Handling \<longrightarrow> 0 < wakeup_counter l \<or> 0 < waking l"
proof -
  from assms have "wake_inv l"
  proof (induction rule: loop_reachable.induct)
    case (new q p)
    then show ?case by (simp add: wake_inv_def EventLoop_def)
  next
    case (step l l')
    then show ?case using wake_step loop_reachable_inv by blast
  qed
  then show ?thesis by (simp add: wake_inv_def)
qed

theorem no_lost_wakeup_witness:
  "0 < wakeup_counter (queue_in_loop False 8 ''a'' demo_loop)"
proof -
  let ?l = "queue_in_loop False 8 ''a'' demo_loop"
  have "loop_reachable ?l" by (rule queued_reachable [OF demo_loop_reachable])
  moreover have "needs_wake ?l \<and> at ?l \<noteq> Handling" "waking ?l = 0" by (simp_all add: demo_loop_simps)
  ultimately show ?thesis using no_lost_wakeup by fastforce
qed

text \<open>
  a round that starts with timers ends in a state where every functor pending at its
  start has been run: the steps of \<^verbatim>\<open>loop()\<close> implement the undisturbed round, and that
  round leaves nothing pending.
\<close>

theorem round_runs_pending:
  assumes "loop_reachable l" and "at l = Timers"
  shows "\<exists>l'. loop_step\<^sup>*\<^sup>* l l' \<and> at l' = Frame \<and> executed l' = submitted l \<and> pending_functors l' = [] \<and>
    iteration l' = iteration l + 1"
proof -
  let ?r = "(loop_body 0 0 [] 0 (l\<lparr>event_handling := False\<rparr>))\<lparr>at := Frame\<rparr>"
  have "submitted l = executed l @ pending_functors l"
    using loop_reachable_inv [OF assms(1)] assms(2) by (simp add: loop_inv_def)
  then have "executed ?r = submitted l \<and> pending_functors ?r = [] \<and> iteration ?r = iteration l + 1"
    by (simp add: loop_body_def do_other_tasks_def tasks_begin_def tasks_end_def call_frame_def Let_def poll_def)
  then show ?thesis using loop_body_steps [OF assms(2), of 0 0 "[]" 0] by (intro exI [of _ ?r]) simp
qed

theorem round_runs_pending_witness:
  "\<exists>l'. executed l' = [''a''] \<and>
     loop_step\<^sup>*\<^sup>* ((queue_in_loop False 8 ''a'' demo_loop)\<lparr>looping := True, quit_flag := False, at := Timers\<rparr>) l'"
proof -
  let ?q = "queue_in_loop False 8 ''a'' demo_loop"
  let ?l = "?q\<lparr>looping := True, quit_flag := False, at := Timers\<rparr>"
  have "loop_reachable ?q" by (rule queued_reachable [OF demo_loop_reachable])
  moreover have "loop_step ?q (?q\<lparr>looping := True, quit_flag := False, at := Frame\<rparr>)"
    by (rule loop_step.start) (simp add: demo_loop_simps)
  ultimately have "loop_reachable (?q\<lparr>looping := True, quit_flag := False, at := Frame\<rparr>)" by (rule loop_reachable.step)
  moreover have "loop_step (?q\<lparr>looping := True, quit_flag := False, at := Frame\<rparr>) ?l"
    using loop_step.again [of "?q\<lparr>looping := True, quit_flag := False, at := Frame\<rparr>"] by simp
  ultimately have "loop_reachable ?l" by (rule loop_reachable.step)
  moreover have "at ?l = Timers" "submitted ?l = [''a'']" by (simp_all add: demo_loop_simps)
  ultimately show ?thesis using round_runs_pending [of ?l] by auto
qed

end
