(* ===== verification/Tcp_Connection.thy ===== *)
theory Tcp_Connection
  imports Byte_Buffer Event_Loop
begin

text \<open>
  \<^verbatim>\<open>TcpConnection\<close> of \<^verbatim>\<open>network/tcp_connect.{h,cpp}\<close>: the connection's state machine, its
  two buffers and its channel in the loop's poller. Results of the socket calls are
  arguments (\<open>n\<close> for the count, \<open>err\<close> for \<^verbatim>\<open>errno\<close>); functors handed to the loop are
  collected in \<open>queued\<close>, the calls of the user's callbacks in \<open>calls\<close>. Two history
  variables record the traffic: \<open>wire\<close>, the bytes the socket accepted, and \<open>shut\<close>, whether
  the write side was shut down.
\<close>

section \<open>State\<close>

datatype StateE = kDisconnected | kConnecting | kConnected | kDisconnecting

datatype conn_task = SendTask "byte list" | ShutdownTask | ForceCloseTask | WriteCompleteTask | HighWaterTask nat

datatype conn_call = CallConn | CallClose | CallMessage timestamp

record 'k tcp_connection =
  name :: string
  state :: StateE
  chan_addr :: caddr
  loop_poller :: "'k epoll_poller"
  has_write_complete :: bool
  has_high_water :: bool
  high_water_mark :: nat
  input_buffer :: byte_buffer
  output_buffer :: byte_buffer
  queued :: "conn_task list"
  calls :: "conn_call list"
  wire :: "byte list"
  shut :: bool

definition EWOULDBLOCK :: int where "EWOULDBLOCK = 11"
definition EPIPE :: int where "EPIPE = 32"
definition ECONNRESET :: int where "ECONNRESET = 104"

text \<open>The constructor sets the four callbacks of the channel at address \<open>a\<close>.\<close>

definition TcpConnection :: "string \<Rightarrow> int \<Rightarrow> caddr \<Rightarrow> 'k epoll_poller \<Rightarrow> 'k tcp_connection" where
  "TcpConnection nm sockfd a p =
     \<lparr>name = nm, state = kConnecting, chan_addr = a,
      loop_poller = set_chan a (set_error_callback True (set_close_callback True
                       (set_write_callback True (set_read_callback True (new_channel sockfd))))) p,
      has_write_complete = False, has_high_water = False, high_water_mark = 64 * 1024 * 1024,
      input_buffer = ByteBuffer initial_size, output_buffer = ByteBuffer initial_size,
      queued = [], calls = [], wire = [], shut = False\<rparr>"

definition conn_channel :: "'k tcp_connection \<Rightarrow> channel" where
  "conn_channel c = chan (loop_poller c) (chan_addr c)"

definition writing :: "'k tcp_connection \<Rightarrow> bool" where
  "writing c \<longleftrightarrow> is_writing (conn_channel c)"

definition on_channel ::
  "(caddr \<Rightarrow> 'k epoll_poller \<Rightarrow> bool \<times> 'k epoll_poller) \<Rightarrow> 'k tcp_connection \<Rightarrow> bool \<times> 'k tcp_connection" where
  "on_channel f c = (case f (chan_addr c) (loop_poller c) of (ok, p) \<Rightarrow> (ok, c\<lparr>loop_poller := p\<rparr>))"

definition queue_task :: "conn_task \<Rightarrow> 'k tcp_connection \<Rightarrow> 'k tcp_connection" where
  "queue_task t c = c\<lparr>queued := queued c @ [t]\<rparr>"

definition connected :: "'k tcp_connection \<Rightarrow> bool" where
  "connected c \<longleftrightarrow> state c = kConnected"

text \<open>Of a callback only matters whether it is set; an empty function object is not.\<close>

definition conn_set_write_complete_callback :: "bool \<Rightarrow> 'k tcp_connection \<Rightarrow> 'k tcp_connection" where
  "conn_set_write_complete_callback cb c = c\<lparr>has_write_complete := cb\<rparr>"

definition set_high_water_mark_callback :: "bool \<Rightarrow> nat \<Rightarrow> 'k tcp_connection \<Rightarrow> 'k tcp_connection" where
  "set_high_water_mark_callback cb highWaterMark c = c\<lparr>has_high_water := cb, high_water_mark := highWaterMark\<rparr>"

section \<open>Sending\<close>

text \<open>The direct attempt to write: bytes written, bytes remaining, fatal error, connection.\<close>

definition try_write ::
  "int \<Rightarrow> int \<Rightarrow> byte list \<Rightarrow> 'k tcp_connection \<Rightarrow> nat \<times> nat \<times> bool \<times> 'k tcp_connection" where
  "try_write n err data c =
     (if \<not> writing c \<and> bb_bytes_readable (output_buffer c) = 0 then
        (if n \<ge> 0 then
           let remaining = nat ((int (length data) - n) mod 2 ^ 64);
               c1 = c\<lparr>wire := wire c @ take (nat n) data\<rparr>
           in (nat n, remaining, False,
               if remaining = 0 \<and> has_write_complete c then queue_task WriteCompleteTask c1 else c1)
         else (0, length data, err \<noteq> EWOULDBLOCK \<and> (err = EPIPE \<or> err = ECONNRESET), c))
      else (0, length data, False, c))"

definition send_in_loop ::
  "'k epoll_ctl \<Rightarrow> int \<Rightarrow> int \<Rightarrow> byte list \<Rightarrow> 'k tcp_connection \<Rightarrow> 'k tcp_connection" where
  "send_in_loop ctl n err data c =
     (if state c = kDisconnected then c
      else case try_write n err data c of
        (nwrote, remaining, faultError, c1) \<Rightarrow>
          if remaining > length data then c1
          else if \<not> faultError \<and> remaining > 0 then
            let oldLen = bb_bytes_readable (output_buffer c1);
                c2 = (if oldLen + remaining \<ge> high_water_mark c1 \<and> oldLen < high_water_mark c1 \<and> has_high_water c1
                      then queue_task (HighWaterTask (oldLen + remaining)) c1 else c1);
                c3 = c2\<lparr>output_buffer := bb_append (output_buffer c2) (take remaining (drop nwrote data))\<rparr>
            in if \<not> writing c3 then snd (on_channel (enable_writing ctl) c3) else c3
          else c1)"

definition send ::
  "'k epoll_ctl \<Rightarrow> bool \<Rightarrow> int \<Rightarrow> int \<Rightarrow> byte list \<Rightarrow> 'k tcp_connection \<Rightarrow> 'k tcp_connection" where
  "send ctl in_loop n err message c =
     (if state c = kConnected then
        (if in_loop then send_in_loop ctl n err message c else queue_task (SendTask message) c)
      else c)"

text \<open>\<^verbatim>\<open>send(ByteBuffer*)\<close> empties the caller's buffer.\<close>

definition send_buffer ::
  "'k epoll_ctl \<Rightarrow> bool \<Rightarrow> int \<Rightarrow> int \<Rightarrow> byte_buffer \<Rightarrow> 'k tcp_connection \<Rightarrow> 'k tcp_connection \<times> byte_buffer" where
  "send_buffer ctl in_loop n err buf c =
     (if state c = kConnected then
        (if in_loop then
           (send_in_loop ctl n err (segment (bb_peek buf) (bb_peek buf + bb_bytes_readable buf) (buffer buf)) c,
            bb_retrieve_all buf)
         else case bb_retrieve_all_as_string buf of (buf1, message) \<Rightarrow> (queue_task (SendTask message) c, buf1))
      else (c, buf))"

section \<open>Closing\<close>

definition handle_close :: "'k epoll_ctl \<Rightarrow> 'k tcp_connection \<Rightarrow> 'k tcp_connection" where
  "handle_close ctl c =
     (if state c = kDisconnected then c
      else let c1 = c\<lparr>state := kDisconnected\<rparr>;
               c2 = snd (on_channel (disable_all ctl) c1)
           in c2\<lparr>calls := calls c2 @ [CallConn, CallClose]\<rparr>)"

definition handle_error :: "'k epoll_ctl \<Rightarrow> 'k tcp_connection \<Rightarrow> 'k tcp_connection" where
  "handle_error ctl c = handle_close ctl c"

definition shutdown_in_loop :: "'k tcp_connection \<Rightarrow> 'k tcp_connection" where
  "shutdown_in_loop c = (if \<not> writing c then c\<lparr>shut := True\<rparr> else c)"

definition shutdown :: "bool \<Rightarrow> 'k tcp_connection \<Rightarrow> 'k tcp_connection" where
  "shutdown in_loop c =
     (if state c = kConnected then
        let c1 = c\<lparr>state := kDisconnecting\<rparr>
        in if in_loop then shutdown_in_loop c1 else queue_task ShutdownTask c1
      else c)"

definition force_close :: "'k tcp_connection \<Rightarrow> 'k tcp_connection" where
  "force_close c =
     (if state c = kConnected \<or> state c = kDisconnecting
      then queue_task ForceCloseTask (c\<lparr>state := kDisconnecting\<rparr>) else c)"

definition force_close_in_loop :: "'k epoll_ctl \<Rightarrow> 'k tcp_connection \<Rightarrow> 'k tcp_connection" where
  "force_close_in_loop ctl c =
     (if state c = kConnected \<or> state c = kDisconnecting then handle_close ctl c else c)"

fun state_2_string :: "StateE \<Rightarrow> string" where
  "state_2_string kDisconnected = ''kDisconnected''"
| "state_2_string kConnecting = ''kConnecting''"
| "state_2_string kConnected = ''kConnected''"
| "state_2_string kDisconnecting = ''kDisconnecting''"

section \<open>Establishing and destroying\<close>

definition conn_established :: "'k epoll_ctl \<Rightarrow> 'k tcp_connection \<Rightarrow> 'k tcp_connection" where
  "conn_established ctl c =
     (if state c \<noteq> kConnecting then c
      else case on_channel (enable_reading ctl) (c\<lparr>state := kConnected\<rparr>) of
        (False, c1) \<Rightarrow> handle_close ctl c1
      | (True, c1) \<Rightarrow> c1\<lparr>calls := calls c1 @ [CallConn]\<rparr>)"

definition conn_destroyed :: "'k epoll_ctl \<Rightarrow> 'k tcp_connection \<Rightarrow> 'k tcp_connection" where
  "conn_destroyed ctl c =
     (let c1 = (if state c = kConnected then
                  let c0 = snd (on_channel (disable_all ctl) (c\<lparr>state := kDisconnected\<rparr>))
                  in c0\<lparr>calls := calls c0 @ [CallConn]\<rparr>
                else c)
      in c1\<lparr>loop_poller := channel_remove ctl (chan_addr c1) (loop_poller c1)\<rparr>)"

section \<open>Events\<close>

text \<open>\<open>on_msg\<close> is the message callback's effect on the input buffer.\<close>

definition handle_read ::
  "'k epoll_ctl \<Rightarrow> int \<Rightarrow> byte list \<Rightarrow> int \<Rightarrow> timestamp \<Rightarrow> (byte_buffer \<Rightarrow> byte_buffer) \<Rightarrow>
     'k tcp_connection \<Rightarrow> 'k tcp_connection" where
  "handle_read ctl n extrabuf err receiveTime on_msg c =
     (case bb_read_fd (input_buffer c) n extrabuf err of
        (b, r, _) \<Rightarrow>
          let c1 = c\<lparr>input_buffer := b\<rparr>
          in if r > 0 then c1\<lparr>calls := calls c1 @ [CallMessage receiveTime], input_buffer := on_msg b\<rparr>
             else if r = 0 then handle_close ctl c1
             else handle_error ctl c1)"

definition handle_write :: "'k epoll_ctl \<Rightarrow> int \<Rightarrow> 'k tcp_connection \<Rightarrow> 'k tcp_connection" where
  "handle_write ctl n c =
     (if writing c then
        (if n > 0 then
           let out = output_buffer c;
               c1 = c\<lparr>wire := wire c @ take (nat n) (segment (bb_peek out) (bb_peek out + bb_bytes_readable out) (buffer out)),
                      output_buffer := fst (bb_retrieve out (nat n))\<rparr>
           in if bb_bytes_readable (output_buffer c1) = 0 then
                let c2 = snd (on_channel (disable_writing ctl) c1);
                    c3 = (if has_write_complete c2 then queue_task WriteCompleteTask c2 else c2)
                in if state c3 = kDisconnecting then shutdown_in_loop c3 else c3
              else c1
         else handle_close ctl c)
      else c)"

text \<open>What the loop does with a functor of this connection.\<close>

fun run_task :: "'k epoll_ctl \<Rightarrow> int \<Rightarrow> int \<Rightarrow> conn_task \<Rightarrow> 'k tcp_connection \<Rightarrow> 'k tcp_connection" where
  "run_task ctl n err (SendTask message) c = send_in_loop ctl n err message c"
| "run_task ctl n err ShutdownTask c = shutdown_in_loop c"
| "run_task ctl n err ForceCloseTask c = force_close_in_loop ctl c"
| "run_task ctl n err WriteCompleteTask c = c"
| "run_task ctl n err (HighWaterTask k) c = c"

definition default_msg_callback :: "byte_buffer \<Rightarrow> byte_buffer" where
  "default_msg_callback b = bb_retrieve_all b"

section \<open>Channel masks\<close>

lemma or_and_absorb: "(x OR y) AND y = (y :: mask)"
  by (auto simp: bit_eq_iff bit_simps)

lemma and_not_absorb: "(x AND NOT y) AND y = (0 :: mask)"
  by (auto simp: bit_eq_iff bit_simps)

lemma read_keeps_write: "(x OR read_event) AND write_event = x AND write_event"
proof -
  have "read_event AND write_event = 0" by (simp add: read_event_def write_event_def poll_flags)
  then show ?thesis by (simp add: bit.conj_disj_distrib2)
qed

lemma write_event_nonzero: "write_event \<noteq> 0"
  by (simp add: write_event_def POLLOUT_def)

lemma set_events_chan: "events (chan (snd (set_events ctl a ev p)) a) = ev"
  by (simp add: set_events_def update_channel_chan)

lemma on_channel_frame [simp]:
  "name (snd (on_channel f c)) = name c" "state (snd (on_channel f c)) = state c"
  "chan_addr (snd (on_channel f c)) = chan_addr c" "output_buffer (snd (on_channel f c)) = output_buffer c"
  "input_buffer (snd (on_channel f c)) = input_buffer c" "queued (snd (on_channel f c)) = queued c"
  "calls (snd (on_channel f c)) = calls c" "wire (snd (on_channel f c)) = wire c"
  "shut (snd (on_channel f c)) = shut c" "has_write_complete (snd (on_channel f c)) = has_write_complete c"
  by (simp_all add: on_channel_def case_prod_beta)

lemma set_callback_frame [simp]:
  "state (conn_set_write_complete_callback cb c) = state c" "state (set_high_water_mark_callback cb h c) = state c"
  "output_buffer (conn_set_write_complete_callback cb c) = output_buffer c"
  "output_buffer (set_high_water_mark_callback cb h c) = output_buffer c"
  "wire (conn_set_write_complete_callback cb c) = wire c" "wire (set_high_water_mark_callback cb h c) = wire c"
  "calls (conn_set_write_complete_callback cb c) = calls c" "calls (set_high_water_mark_callback cb h c) = calls c"
  "shut (conn_set_write_complete_callback cb c) = shut c" "shut (set_high_water_mark_callback cb h c) = shut c"
  "writing (conn_set_write_complete_callback cb c) = writing c" "writing (set_high_water_mark_callback cb h c) = writing c"
  by (simp_all add: conn_set_write_complete_callback_def set_high_water_mark_callback_def writing_def conn_channel_def)

lemma queue_task_frame [simp]:
  "state (queue_task t c) = state c" "output_buffer (queue_task t c) = output_buffer c"
  "calls (queue_task t c) = calls c" "wire (queue_task t c) = wire c" "writing (queue_task t c) = writing c"
  "queued (queue_task t c) = queued c @ [t]"
  by (simp_all add: queue_task_def writing_def conn_channel_def)

lemma writing_frame [simp]:
  "writing (c\<lparr>wire := w\<rparr>) = writing c" "writing (c\<lparr>output_buffer := b\<rparr>) = writing c"
  "writing (c\<lparr>calls := k\<rparr>) = writing c" "writing (c\<lparr>state := s\<rparr>) = writing c"
  "writing (c\<lparr>shut := x\<rparr>) = writing c" "writing (c\<lparr>queued := q\<rparr>) = writing c"
  "writing (c\<lparr>input_buffer := b\<rparr>) = writing c"
  by (simp_all add: writing_def conn_channel_def)

lemma channel_writing:
  "writing (snd (on_channel (enable_writing ctl) c))"
  "\<not> writing (snd (on_channel (disable_writing ctl) c))"
  "\<not> writing (snd (on_channel (disable_all ctl) c))"
  "writing (snd (on_channel (enable_reading ctl) c)) = writing c"
  by (simp_all add: writing_def conn_channel_def on_channel_def case_prod_beta is_writing_def enable_writing_def
      disable_writing_def disable_all_def enable_reading_def set_events_chan or_and_absorb and_not_absorb
      read_keeps_write write_event_nonzero none_event_def)

lemma writing_loop_goes_on:
  "chan p (chan_addr c) = set_revents ev (conn_channel c) \<Longrightarrow> writing (c\<lparr>loop_poller := p\<rparr>) = writing c"
  by (simp add: writing_def conn_channel_def is_writing_def)

lemma writing_removed: "writing (c\<lparr>loop_poller := channel_remove ctl (chan_addr c) (loop_poller c)\<rparr>) = writing c"
  by (simp add: writing_def conn_channel_def is_writing_def channel_remove_def remove_channel_chan)

section \<open>The byte stream\<close>

definition outgoing :: "'k tcp_connection \<Rightarrow> byte list" where
  "outgoing c = bb_content (output_buffer c)"

text \<open>Whether \<^verbatim>\<open>_send_in_loop\<close> takes responsibility for the bytes.\<close>

definition accepts :: "int \<Rightarrow> int \<Rightarrow> 'k tcp_connection \<Rightarrow> bool" where
  "accepts n err c \<longleftrightarrow>
     state c \<noteq> kDisconnected \<and>
     (writing c \<or> outgoing c \<noteq> [] \<or> n \<ge> 0 \<or> \<not> (err = EPIPE \<or> err = ECONNRESET))"

lemma readable_content: "bb_wf b \<Longrightarrow> bb_bytes_readable b = length (bb_content b)"
  by (simp add: length_bb_content)

lemma peeked_content:
  "bb_wf b \<Longrightarrow> segment (bb_peek b) (bb_peek b + bb_bytes_readable b) (buffer b) = bb_content b"
  by (simp add: bb_content_def bb_peek_def bb_bytes_readable_def bb_wf_def)

text \<open>The direct attempt, split into its outcomes.\<close>

lemma try_write_cases:
  assumes "bb_wf (output_buffer c)" and "n \<le> int (length data)" and "length data < 2 ^ 64"
    and "try_write n err data c = (nwrote, remaining, fault, c1)"
  shows "remaining = length data - nwrote" and "nwrote \<le> length data"
    and "wire c1 = wire c @ take nwrote data" and "output_buffer c1 = output_buffer c"
    and "state c1 = state c" and "calls c1 = calls c" and "writing c1 = writing c"
    and "0 < nwrote \<Longrightarrow> outgoing c = [] \<and> \<not> writing c"
    and "fault \<longleftrightarrow> \<not> (writing c \<or> outgoing c \<noteq> [] \<or> n \<ge> 0 \<or> \<not> (err = EPIPE \<or> err = ECONNRESET))"
    and "fault \<Longrightarrow> nwrote = 0" and "shut c1 = shut c"
proof -
  have rem: "nat ((int (length data) - n) mod 2 ^ 64) = length data - nat n" if "n \<ge> 0"
  proof -
    have "(int (length data) - n) mod 2 ^ 64 = int (length data) - n"
      using that assms(2,3) by (intro mod_pos_pos_trivial) auto
    then show ?thesis using that by simp
  qed
  have e: "EWOULDBLOCK \<noteq> EPIPE" "EWOULDBLOCK \<noteq> ECONNRESET"
    by (simp_all add: EWOULDBLOCK_def EPIPE_def ECONNRESET_def)
  have r: "bb_bytes_readable (output_buffer c) = 0 \<longleftrightarrow> outgoing c = []"
    using readable_content [OF assms(1)] by (simp add: outgoing_def)
  consider (busy) "writing c \<or> outgoing c \<noteq> []" | (ok) "\<not> writing c" "outgoing c = []" "n \<ge> 0"
    | (err) "\<not> writing c" "outgoing c = []" "n < 0" by force
  then have "remaining = length data - nwrote \<and> nwrote \<le> length data \<and> wire c1 = wire c @ take nwrote data \<and>
    output_buffer c1 = output_buffer c \<and> state c1 = state c \<and> calls c1 = calls c \<and> writing c1 = writing c \<and>
    (0 < nwrote \<longrightarrow> outgoing c = [] \<and> \<not> writing c) \<and>
    (fault \<longleftrightarrow> \<not> (writing c \<or> outgoing c \<noteq> [] \<or> n \<ge> 0 \<or> \<not> (err = EPIPE \<or> err = ECONNRESET))) \<and>
    (fault \<longrightarrow> nwrote = 0) \<and> shut c1 = shut c"
  proof cases
    case busy
    then show ?thesis using assms(4) r by (auto simp: try_write_def split: if_splits)
  next
    case ok
    have sh: "shut (queue_task t x) = shut x" for t and x :: "'a tcp_connection" by (simp add: queue_task_def)
    let ?c = "c\<lparr>wire := wire c @ take (nat n) data\<rparr>"
    have "try_write n err data c = (nat n, length data - nat n, False,
        if length data - nat n = 0 \<and> has_write_complete c then queue_task WriteCompleteTask ?c else ?c)"
      unfolding try_write_def Let_def rem [OF ok(3)] using ok r by simp
    then have c1: "nwrote = nat n" "remaining = length data - nat n" "\<not> fault"
      "c1 = (if length data - nat n = 0 \<and> has_write_complete c then queue_task WriteCompleteTask ?c else ?c)"
      using assms(4) by simp_all
    have "nat n \<le> length data" using assms(2) by simp
    then show ?thesis unfolding c1(4) using ok(1,2,3) c1(1-3) by (simp add: sh)
  next
    case err
    then show ?thesis using assms(4) r e by (auto simp: try_write_def split: if_splits)
  qed
  then show "remaining = length data - nwrote" "nwrote \<le> length data" "wire c1 = wire c @ take nwrote data"
    "output_buffer c1 = output_buffer c" "state c1 = state c" "calls c1 = calls c" "writing c1 = writing c"
    "0 < nwrote \<Longrightarrow> outgoing c = [] \<and> \<not> writing c"
    "fault \<longleftrightarrow> \<not> (writing c \<or> outgoing c \<noteq> [] \<or> n \<ge> 0 \<or> \<not> (err = EPIPE \<or> err = ECONNRESET))"
    "fault \<Longrightarrow> nwrote = 0" "shut c1 = shut c"
    by blast+
qed

text \<open>Data are in the output buffer exactly while the channel asks for write events.\<close>

definition write_interest :: "'k tcp_connection \<Rightarrow> bool" where
  "write_interest c \<longleftrightarrow> (writing c \<longleftrightarrow> outgoing c \<noteq> [])"

lemma send_in_loop_stream:
  assumes "bb_wf (output_buffer c)" and "n \<le> int (length data)" and "length data < 2 ^ 64"
    and c'_def: "c' = send_in_loop ctl n err data c"
  shows "bb_wf (output_buffer c') \<and>
    wire c' @ outgoing c' = wire c @ outgoing c @ (if accepts n err c then data else []) \<and>
    state c' = state c \<and> calls c' = calls c \<and> shut c' = shut c \<and>
    (write_interest c \<longrightarrow> write_interest c')"
proof (cases "state c = kDisconnected")
  case True
  then show ?thesis using assms(1) by (simp add: c'_def send_in_loop_def accepts_def)
next
  case False
  obtain nw rem fault c1 where t: "try_write n err data c = (nw, rem, fault, c1)" by (metis prod_cases4)
  note tw = try_write_cases [OF assms(1-3) t]
  have acc: "accepts n err c \<longleftrightarrow> \<not> fault" using False tw(9) by (simp add: accepts_def)
  have o1: "outgoing c1 = outgoing c" using tw(4) by (simp add: outgoing_def)
  show ?thesis
  proof (cases "\<not> fault \<and> rem > 0")
    case True
    define c2 where "c2 = (if bb_bytes_readable (output_buffer c1) + rem \<ge> high_water_mark c1 \<and>
        bb_bytes_readable (output_buffer c1) < high_water_mark c1 \<and> has_high_water c1
      then queue_task (HighWaterTask (bb_bytes_readable (output_buffer c1) + rem)) c1 else c1)"
    define c3 where "c3 = c2\<lparr>output_buffer := bb_append (output_buffer c2) (take rem (drop nw data))\<rparr>"
    have c': "c' = (if \<not> writing c3 then snd (on_channel (enable_writing ctl) c3) else c3)"
      using False t True tw(1) by (simp add: c'_def send_in_loop_def c2_def c3_def Let_def)
    have sh: "shut (queue_task x y) = shut y" for x and y :: "'a tcp_connection" by (simp add: queue_task_def)
    have c2: "output_buffer c2 = output_buffer c" "wire c2 = wire c1" "state c2 = state c" "calls c2 = calls c"
      "shut c2 = shut c" using tw(4-6,11) by (simp_all add: c2_def sh)
    have d: "take rem (drop nw data) = drop nw data" using tw(1) by simp
    have o3: "outgoing c3 = outgoing c @ drop nw data" "bb_wf (output_buffer c3)"
      using assms(1) c2 d by (simp_all add: c3_def outgoing_def bbq.put_content bbq.put_inv)
    have "wire c3 @ outgoing c3 = wire c @ outgoing c @ data"
      using tw(3,8) c2(2) o3(1) by (cases "nw = 0") (simp_all add: c3_def)
    moreover have "writing c'" using channel_writing(1) [of ctl c3] by (simp add: c')
    moreover have "outgoing c' = outgoing c3" by (simp add: c' outgoing_def)
    moreover have "drop nw data \<noteq> []" using True tw(1) by simp
    ultimately show ?thesis using True acc c2 o3 by (simp add: c' c3_def write_interest_def)
  next
    case no: False
    have c': "c' = c1" using False t no tw(1) by (auto simp: c'_def send_in_loop_def)
    have "write_interest c1 = write_interest c" using tw(7) o1 by (simp add: write_interest_def)
    moreover have "take nw data = data" if "\<not> fault" using that no tw(1,2) by simp
    moreover have "take nw data = []" if fault using tw(10) that by simp
    moreover have "outgoing c = []" if "0 < nw" using tw(8) that by blast
    ultimately show ?thesis using tw(3-6,11) c' o1 assms(1) acc
      by (cases fault; cases "nw = 0") auto
  qed
qed

lemma handle_close_frame:
  "outgoing (handle_close ctl c) = outgoing c" "wire (handle_close ctl c) = wire c"
  "output_buffer (handle_close ctl c) = output_buffer c" "state (handle_close ctl c) = kDisconnected"
  "calls (handle_close ctl c) = calls c @ (if state c = kDisconnected then [] else [CallConn, CallClose])"
  by (simp_all add: handle_close_def Let_def outgoing_def)

lemma shutdown_in_loop_frame [simp]:
  "outgoing (shutdown_in_loop c) = outgoing c" "wire (shutdown_in_loop c) = wire c"
  "output_buffer (shutdown_in_loop c) = output_buffer c" "state (shutdown_in_loop c) = state c"
  "calls (shutdown_in_loop c) = calls c" "writing (shutdown_in_loop c) = writing c"
  by (simp_all add: shutdown_in_loop_def outgoing_def)

lemma handle_write_stream:
  assumes "bb_wf (output_buffer c)" and "n \<le> int (length (outgoing c))"
    and c'_def: "c' = handle_write ctl n c"
  shows "bb_wf (output_buffer c') \<and> wire c' @ outgoing c' = wire c @ outgoing c \<and>
    (state c' = state c \<and> calls c' = calls c \<and> (write_interest c \<longrightarrow> write_interest c') \<or> c' = handle_close ctl c)"
proof (cases "writing c \<and> n > 0")
  case True
  let ?out = "output_buffer c"
  define c1 where "c1 = c\<lparr>wire := wire c @ take (nat n) (outgoing c), output_buffer := fst (bb_retrieve ?out (nat n))\<rparr>"
  have le: "nat n \<le> length (bb_content ?out)" using assms(2) by (simp add: outgoing_def)
  have wf1: "bb_wf (output_buffer c1)" using bbq.get_inv [OF assms(1)] by (simp add: c1_def)
  have o1: "wire c1 @ outgoing c1 = wire c @ outgoing c"
    using bbq.get_splits [OF assms(1) le] by (simp add: c1_def outgoing_def)
  have w1: "writing c1" using True by (simp add: c1_def)
  have c': "c' = (if bb_bytes_readable (output_buffer c1) = 0 then
      let c2 = snd (on_channel (disable_writing ctl) c1);
          c3 = (if has_write_complete c2 then queue_task WriteCompleteTask c2 else c2)
      in if state c3 = kDisconnecting then shutdown_in_loop c3 else c3 else c1)"
    using True peeked_content [OF assms(1)] by (simp add: c'_def handle_write_def c1_def outgoing_def Let_def)
  show ?thesis
  proof (cases "outgoing c1 = []")
    case True
    then have "bb_bytes_readable (output_buffer c1) = 0"
      using readable_content [OF wf1] by (simp add: outgoing_def)
    then have "output_buffer c' = output_buffer c1" "wire c' = wire c1" "state c' = state c" "calls c' = calls c" "\<not> writing c'"
      using channel_writing(2) [of ctl c1] by (simp_all add: c' Let_def) (simp_all add: c1_def)
    then show ?thesis using wf1 o1 True by (simp add: outgoing_def write_interest_def)
  next
    case False
    then have "bb_bytes_readable (output_buffer c1) \<noteq> 0"
      using readable_content [OF wf1] by (simp add: outgoing_def)
    then have "c' = c1" by (simp add: c')
    then show ?thesis using wf1 o1 w1 False by (simp add: write_interest_def) (simp add: c1_def)
  qed
next
  case False
  then have "c' = c \<or> c' = handle_close ctl c" by (auto simp: c'_def handle_write_def)
  then show ?thesis using assms(1) by (auto simp: handle_close_frame)
qed

section \<open>Steps of a connection\<close>

text \<open>
  A connection with the bytes it took responsibility for. Socket writes report at most as
  many bytes as they were given; functors run in the order they were queued. Polls and the
  other channels of the loop change its poller, but of this channel only the reported mask.
\<close>

inductive conn_step ::
  "'k epoll_ctl \<Rightarrow> 'k tcp_connection \<times> byte list \<Rightarrow> 'k tcp_connection \<times> byte list \<Rightarrow> bool" for ctl where
  established: "conn_step ctl (c, acc) (conn_established ctl c, acc)"
| send_here: "n \<le> int (length data) \<Longrightarrow> length data < 2 ^ 64 \<Longrightarrow>
    conn_step ctl (c, acc) (send ctl True n err data c,
      acc @ (if state c = kConnected \<and> accepts n err c then data else []))"
| send_there: "conn_step ctl (c, acc) (send ctl False n err data c, acc)"
| task: "queued c = t # ts \<Longrightarrow> c0 = c\<lparr>queued := ts\<rparr> \<Longrightarrow>
    (\<And>data. t = SendTask data \<Longrightarrow> n \<le> int (length data) \<and> length data < 2 ^ 64) \<Longrightarrow>
    conn_step ctl (c, acc) (run_task ctl n err t c0,
      acc @ (case t of SendTask data \<Rightarrow> if accepts n err c0 then data else [] | _ \<Rightarrow> []))"
| writable: "n \<le> int (length (outgoing c)) \<Longrightarrow> conn_step ctl (c, acc) (handle_write ctl n c, acc)"
| read: "conn_step ctl (c, acc) (handle_read ctl n extrabuf err t on_msg c, acc)"
| close: "state c \<noteq> kConnecting \<Longrightarrow> conn_step ctl (c, acc) (handle_close ctl c, acc)"
| err: "state c \<noteq> kConnecting \<Longrightarrow> conn_step ctl (c, acc) (handle_error ctl c, acc)"
| shut_down: "conn_step ctl (c, acc) (shutdown in_loop c, acc)"
| force: "conn_step ctl (c, acc) (force_close c, acc)"
| destroyed: "conn_step ctl (c, acc) (conn_destroyed ctl c, acc)"
| on_write_complete: "conn_step ctl (c, acc) (conn_set_write_complete_callback cb c, acc)"
| on_high_water: "conn_step ctl (c, acc) (set_high_water_mark_callback cb h c, acc)"
| loop_goes_on: "chan p (chan_addr c) = set_revents ev (conn_channel c) \<Longrightarrow> conn_step ctl (c, acc) (c\<lparr>loop_poller := p\<rparr>, acc)"

inductive conn_reachable :: "'k epoll_ctl \<Rightarrow> 'k tcp_connection \<times> byte list \<Rightarrow> bool" for ctl where
  new: "conn_reachable ctl (TcpConnection nm sockfd a p, [])"
| step: "conn_reachable ctl s \<Longrightarrow> conn_step ctl s s' \<Longrightarrow> conn_reachable ctl s'"

text \<open>The position of a state on the way from connecting to disconnected.\<close>

fun rank :: "StateE \<Rightarrow> nat" where
  "rank kConnecting = 0" | "rank kConnected = 1" | "rank kDisconnecting = 2" | "rank kDisconnected = 3"

definition stream_inv :: "'k tcp_connection \<times> byte list \<Rightarrow> bool" where
  "stream_inv s \<longleftrightarrow> (case s of (c, acc) \<Rightarrow>
     bb_wf (output_buffer c) \<and> wire c @ outgoing c = acc \<and> (state c \<noteq> kDisconnected \<longrightarrow> write_interest c))"

lemma stream_inv_frame:
  assumes "stream_inv (c, acc)" and "output_buffer c' = output_buffer c" and "wire c' = wire c"
    and "writing c' = writing c" and "state c' = kDisconnected \<or> state c \<noteq> kDisconnected"
  shows "stream_inv (c', acc)"
  using assms by (auto simp: stream_inv_def outgoing_def write_interest_def)

lemma handle_close_stream: "stream_inv (c, acc) \<Longrightarrow> stream_inv (handle_close ctl c, acc)"
  by (auto simp: stream_inv_def handle_close_frame)

lemma send_in_loop_inv:
  assumes "stream_inv (c, acc)" and "n \<le> int (length data)" and "length data < 2 ^ 64"
  shows "stream_inv (send_in_loop ctl n err data c, acc @ (if accepts n err c then data else []))"
proof -
  have "bb_wf (output_buffer c)" using assms(1) by (simp add: stream_inv_def)
  from send_in_loop_stream [OF this assms(2,3) refl, of ctl err] show ?thesis
    using assms(1) by (auto simp: stream_inv_def)
qed

lemma conn_established_cases:
  "conn_established ctl c = c \<or>
   (\<exists>c1. output_buffer c1 = output_buffer c \<and> wire c1 = wire c \<and> writing c1 = writing c \<and>
      state c1 = kConnected \<and> calls c1 = calls c \<and> state c = kConnecting \<and>
      (conn_established ctl c = handle_close ctl c1 \<or> conn_established ctl c = c1\<lparr>calls := calls c1 @ [CallConn]\<rparr>))"
proof (cases "state c = kConnecting")
  case True
  let ?c1 = "snd (on_channel (enable_reading ctl) (c\<lparr>state := kConnected\<rparr>))"
  have "conn_established ctl c = handle_close ctl ?c1 \<or> conn_established ctl c = ?c1\<lparr>calls := calls ?c1 @ [CallConn]\<rparr>"
    using True by (simp add: conn_established_def case_prod_beta bool.case_eq_if)
  moreover have "writing ?c1 = writing c" by (simp add: channel_writing(4))
  ultimately show ?thesis using True by (intro disjI2 exI [of _ ?c1]) simp
qed (simp add: conn_established_def)

lemma conn_destroyed_frame:
  "output_buffer (conn_destroyed ctl c) = output_buffer c" "wire (conn_destroyed ctl c) = wire c"
  "state (conn_destroyed ctl c) = (if state c = kConnected then kDisconnected else state c)"
  "state c \<noteq> kConnected \<Longrightarrow> writing (conn_destroyed ctl c) = writing c"
  "calls (conn_destroyed ctl c) = calls c @ (if state c = kConnected then [CallConn] else [])"
  by (simp_all add: conn_destroyed_def Let_def writing_removed)

lemma handle_read_cases:
  "\<exists>b k. handle_read ctl n extrabuf err t on_msg c = c\<lparr>calls := calls c @ [k], input_buffer := b\<rparr> \<and> k \<noteq> CallClose \<or>
     handle_read ctl n extrabuf err t on_msg c = handle_close ctl (c\<lparr>input_buffer := b\<rparr>)"
  by (auto simp: handle_read_def handle_error_def Let_def case_prod_beta)

lemma conn_step_stream:
  assumes "conn_step ctl s s'" and "stream_inv s"
  shows "stream_inv s'"
  using assms
proof (induction rule: conn_step.induct)
  case (established c acc)
  then show ?case using conn_established_cases [of ctl c]
    by (auto simp: stream_inv_def handle_close_frame outgoing_def write_interest_def)
next
  case (send_here n data c acc err)
  then show ?case using send_in_loop_inv [of c acc n data ctl err] by (auto simp: send_def)
next
  case (send_there c acc n err data)
  then show ?case by (auto simp: send_def intro: stream_inv_frame)
next
  case (task c t ts c0 n acc err)
  have inv0: "stream_inv (c0, acc)" using task.prems task.hyps(2) by (auto intro: stream_inv_frame)
  then show ?case using task.hyps(3)
    by (cases t) (auto simp: send_in_loop_inv force_close_in_loop_def handle_close_stream intro: stream_inv_frame)
next
  case (writable n c acc)
  then show ?case using handle_write_stream [OF _ writable.hyps refl, of ctl]
    by (auto simp: stream_inv_def handle_close_frame)
next
  case (read c acc n extrabuf err t on_msg)
  have "stream_inv (c\<lparr>input_buffer := b\<rparr>, acc)" for b by (rule stream_inv_frame [OF read.prems]) simp_all
  then have "stream_inv (handle_close ctl (c\<lparr>input_buffer := b\<rparr>), acc)" for b by (rule handle_close_stream)
  with handle_read_cases [of ctl n extrabuf err t on_msg c] show ?case
    using read.prems by (auto intro: stream_inv_frame)
next
  case (close c acc)
  then show ?case by (simp add: handle_close_stream)
next
  case (err c acc)
  then show ?case by (simp add: handle_close_stream handle_error_def)
next
  case (shut_down c acc in_loop)
  then show ?case by (auto simp: shutdown_def Let_def intro: stream_inv_frame)
next
  case (force c acc)
  then show ?case by (auto simp: force_close_def intro: stream_inv_frame)
next
  case (destroyed c acc)
  then show ?case using conn_destroyed_frame(4) [of c ctl]
    by (auto simp: stream_inv_def outgoing_def write_interest_def conn_destroyed_frame)
next
  case (loop_goes_on p c ev acc)
  show ?case by (rule stream_inv_frame [OF loop_goes_on.prems]) (simp_all add: writing_loop_goes_on [OF loop_goes_on.hyps])
qed (auto intro: stream_inv_frame)

lemma new_stream: "stream_inv (TcpConnection nm sockfd a p, [])"
  by (simp add: stream_inv_def TcpConnection_def outgoing_def write_interest_def writing_def conn_channel_def
      is_writing_def new_channel_def)

lemma conn_reachable_stream: "conn_reachable ctl s \<Longrightarrow> stream_inv s"
proof (induction rule: conn_reachable.induct)
  case (new nm sockfd a p)
  then show ?case by (rule new_stream)
next
  case (step s s')
  then show ?case using conn_step_stream by blast
qed

section \<open>Life cycle\<close>

definition closed_once :: "'k tcp_connection \<Rightarrow> bool" where
  "closed_once c \<longleftrightarrow> count_list (calls c) CallClose \<le> (if state c = kDisconnected then 1 else 0)"

lemma send_in_loop_state [simp]:
  "state (send_in_loop ctl n err data c) = state c" "calls (send_in_loop ctl n err data c) = calls c"
proof -
  have "state (snd (snd (snd (try_write n err data c)))) = state c" "calls (snd (snd (snd (try_write n err data c)))) = calls c"
    by (simp_all add: try_write_def Let_def)
  then show "state (send_in_loop ctl n err data c) = state c" "calls (send_in_loop ctl n err data c) = calls c"
    by (simp_all add: send_in_loop_def Let_def case_prod_beta)
qed

lemma handle_write_state:
  "state (handle_write ctl n c) = state c \<and> calls (handle_write ctl n c) = calls c \<or>
   handle_write ctl n c = handle_close ctl c"
  by (auto simp: handle_write_def Let_def)

lemma rank_le_3: "rank st \<le> 3"
  by (cases st) simp_all

lemma handle_close_once: "closed_once c \<Longrightarrow> closed_once (handle_close ctl c)"
  by (auto simp: closed_once_def handle_close_frame)

lemma conn_step_life:
  assumes "conn_step ctl s s'"
  shows "rank (state (fst s)) \<le> rank (state (fst s')) \<and> (closed_once (fst s) \<longrightarrow> closed_once (fst s'))"
  using assms
proof (induction rule: conn_step.induct)
  case (established c acc)
  then show ?case using conn_established_cases [of ctl c]
    by (auto simp: closed_once_def handle_close_frame)
next
  case (task c t ts c0 n acc err)
  have f: "state c0 = state c" "calls c0 = calls c" using task.hyps(2) by simp_all
  then show ?case
    by (cases t) (auto simp: closed_once_def force_close_in_loop_def handle_close_frame rank_le_3)
next
  case (writable n c acc)
  then show ?case using handle_write_state [of ctl n c] handle_close_once [of c ctl]
    by (auto simp: closed_once_def handle_close_frame rank_le_3)
next
  case (read c acc n extrabuf err t on_msg)
  from handle_read_cases [of ctl n extrabuf err t on_msg c] show ?case
    by (auto simp: closed_once_def handle_close_frame rank_le_3)
qed (auto simp: send_def handle_close_frame handle_error_def rank_le_3 shutdown_def force_close_def conn_destroyed_frame
    closed_once_def Let_def)

lemma conn_reachable_once: "conn_reachable ctl s \<Longrightarrow> closed_once (fst s)"
proof (induction rule: conn_reachable.induct)
  case (new nm sockfd a p)
  then show ?case by (simp add: closed_once_def TcpConnection_def)
next
  case (step s s')
  then show ?case using conn_step_life by blast
qed

section \<open>Properties\<close>

text \<open>
  C4: no byte is lost, duplicated or reordered on the way out. Whatever the socket accepts
  of each write, the bytes on the wire followed by the bytes in the output buffer are the
  messages the connection accepted, in order; and while the connection is open the channel
  asks for write events exactly when something is left to send.
\<close>

theorem output_stream_exact:
  assumes "conn_reachable ctl (c, acc)"
  shows "wire c @ outgoing c = acc \<and> bb_wf (output_buffer c) \<and>
    (state c \<noteq> kDisconnected \<longrightarrow> (writing c \<longleftrightarrow> outgoing c \<noteq> []))"
  using conn_reachable_stream [OF assms] by (simp add: stream_inv_def write_interest_def)

text \<open>An established connection on a kernel that accepts everything.\<close>

definition demo_conn :: "(int \<rightharpoonup> mask \<times> caddr) tcp_connection" where
  "demo_conn = conn_established list_kernel
     (TcpConnection ''c'' 5 0 (EpollPoller (\<lambda>_. new_channel 0) Map.empty))"

lemma demo_conn_state: "state demo_conn = kConnected" "outgoing demo_conn = []" "\<not> writing demo_conn"
  "wire demo_conn = []" "calls demo_conn = [CallConn]" "queued demo_conn = []"
proof -
  let ?c = "TcpConnection ''c'' 5 0 (EpollPoller (\<lambda>_. new_channel 0) Map.empty) :: (int \<rightharpoonup> mask \<times> caddr) tcp_connection"
  have "fst (on_channel (enable_reading list_kernel) (?c\<lparr>state := kConnected\<rparr>))"
    by (simp add: on_channel_def enable_reading_def set_events_def update_channel_def TcpConnection_def
        EpollPoller_def new_channel_def index_consts Channel_Poller.poller_update_def Let_def set_chan_def set_index_def)
  then have d: "demo_conn = (let c1 = snd (on_channel (enable_reading list_kernel) (?c\<lparr>state := kConnected\<rparr>))
      in c1\<lparr>calls := calls c1 @ [CallConn]\<rparr>)"
    by (simp add: demo_conn_def conn_established_def case_prod_beta bool.case_eq_if TcpConnection_def Let_def)
  show "state demo_conn = kConnected" "outgoing demo_conn = []" "\<not> writing demo_conn" "wire demo_conn = []"
    "calls demo_conn = [CallConn]" "queued demo_conn = []"
    by (simp_all add: d Let_def outgoing_def channel_writing(4))
      (simp_all add: TcpConnection_def writing_def conn_channel_def is_writing_def new_channel_def)
qed

lemma demo_conn_reachable: "conn_reachable list_kernel (demo_conn, [])"
  unfolding demo_conn_def by (rule conn_reachable.step [OF conn_reachable.new conn_step.established])

theorem output_stream_exact_witness:
  "wire (send list_kernel True 2 0 [1, 2, 3, 4, 5] demo_conn) @
     outgoing (send list_kernel True 2 0 [1, 2, 3, 4, 5] demo_conn) = [1, 2, 3, 4, 5]"
proof -
  let ?d = "[1, 2, 3, 4, 5] :: byte list"
  have "conn_step list_kernel (demo_conn, []) (send list_kernel True 2 0 ?d demo_conn,
      [] @ (if state demo_conn = kConnected \<and> accepts 2 0 demo_conn then ?d else []))"
    by (rule conn_step.send_here) simp_all
  then have "conn_reachable list_kernel (send list_kernel True 2 0 ?d demo_conn,
      [] @ (if state demo_conn = kConnected \<and> accepts 2 0 demo_conn then ?d else []))"
    by (rule conn_reachable.step [OF demo_conn_reachable])
  moreover have "accepts 2 0 demo_conn" by (simp add: accepts_def demo_conn_state)
  ultimately show ?thesis using output_stream_exact by (fastforce simp: demo_conn_state)
qed



text \<open>The only steps that shut the write side of a connection that stays open find no write interest.\<close>

lemma conn_step_shut_not_writing:
  assumes "conn_reachable ctl (c, acc)" and "conn_step ctl (c, acc) (c', acc')"
    and "\<not> shut c" and "shut c'" and "state c' \<noteq> kDisconnected"
  shows "\<not> writing c'"
  using assms(2-5)
proof (cases rule: conn_step.cases)
  case (established)
  then show ?thesis using assms(3-5)
    by (auto simp: conn_established_def handle_close_def Let_def case_prod_beta bool.case_eq_if split: if_splits)
next
  case (send_here n data err)
  then have "shut c' = shut c"
    using send_in_loop_stream [of c n data c' ctl err] conn_reachable_stream [OF assms(1)]
    by (auto simp: send_def stream_inv_def)
  then show ?thesis using assms(3,4) by simp
next
  case (send_there n err data)
  then show ?thesis using assms(3,4) by (auto simp: send_def queue_task_def split: if_splits)
next
  case (task t ts c0 n err)
  show ?thesis
  proof (cases t)
    case (SendTask data)
    have "bb_wf (output_buffer c0)" using conn_reachable_stream [OF assms(1)] task by (simp add: stream_inv_def)
    then have "shut c' = shut c0"
      using send_in_loop_stream [of c0 n data c' ctl err] task SendTask by auto
    then show ?thesis using assms(3,4) task by simp
  next
    case ForceCloseTask
    then show ?thesis using assms(3-5) task
      by (auto simp: force_close_in_loop_def handle_close_frame split: if_splits)
  qed (use assms(3,4) task in \<open>auto simp: shutdown_in_loop_def split: if_splits\<close>)
next
  case (writable n)
  show ?thesis
  proof (rule ccontr)
    assume "\<not> \<not> writing c'"
    then show False using writable assms(3-5)
      by (auto simp: handle_write_def Let_def handle_close_frame shutdown_in_loop_def queue_task_def split: if_splits)
  qed
next
  case (read n extrabuf err t on_msg)
  then show ?thesis using handle_read_cases [of ctl n extrabuf err t on_msg c] assms(3-5)
    by (auto simp: handle_close_frame)
next
  case (shut_down in_loop)
  then show ?thesis using assms(3,4)
    by (auto simp: shutdown_def shutdown_in_loop_def queue_task_def Let_def split: if_splits)
next
  case destroyed
  then show ?thesis using assms(3,4) by (auto simp: conn_destroyed_def Let_def split: if_splits)
qed (use assms(3-5) in \<open>auto simp: handle_close_frame handle_error_def force_close_def queue_task_def split: if_splits\<close>)

text \<open>
  C28: closing is graceful: the write side of an open connection is shut down only in a step
  after which every accepted byte has been handed to the socket.
\<close>

theorem shutdown_after_drain:
  assumes "conn_reachable ctl (c, acc)" and "conn_step ctl (c, acc) (c', acc')"
    and "\<not> shut c" and "shut c'" and "state c' \<noteq> kDisconnected"
  shows "wire c' = acc' \<and> outgoing c' = []"
  using conn_reachable_stream [OF conn_reachable.step [OF assms(1,2)]] conn_step_shut_not_writing [OF assms] assms(5)
  by (auto simp: stream_inv_def write_interest_def)

theorem shutdown_after_drain_witness:
  "shut (shutdown True demo_conn) \<and> wire (shutdown True demo_conn) = [] \<and> outgoing (shutdown True demo_conn) = []"
proof -
  have s: "shut (shutdown True demo_conn)"
    by (simp add: shutdown_def shutdown_in_loop_def writing_def conn_channel_def demo_conn_state [unfolded writing_def conn_channel_def])
  have "\<not> shut demo_conn"
    by (simp add: demo_conn_def conn_established_def handle_close_def TcpConnection_def Let_def case_prod_beta bool.case_eq_if)
  moreover have "state (shutdown True demo_conn) \<noteq> kDisconnected" by (simp add: shutdown_def demo_conn_state)
  ultimately show ?thesis
    using shutdown_after_drain [OF demo_conn_reachable conn_step.shut_down _ s] s by blast
qed

end
