(* ===== verification/Zlib_Util.thy ===== *)
theory Zlib_Util
  imports Talko_Prelude
begin

text \<open>
  \<^verbatim>\<open>ZlibUtil\<close> of \<^verbatim>\<open>common/zlibutil.{h,cpp}\<close>. The zlib library is a parameter: its one-call
  functions \<^verbatim>\<open>compressBound\<close>, \<^verbatim>\<open>compress\<close> and \<^verbatim>\<open>uncompress\<close> in the record \<open>zlib\<close>, with
  \<open>None\<close> for a result other than \<^verbatim>\<open>Z_OK\<close>, and its streaming functions \<^verbatim>\<open>deflate\<close> and
  \<^verbatim>\<open>inflate\<close> as a function from the state of the stream to the return code, the bytes put
  into the output array, the input left and the next state. The law of the one-call functions
  is stated as the hypothesis \<open>zlib_law\<close>. A byte buffer of the C code is its contents.
  Lengths go through \<^verbatim>\<open>int\<close> and 32-bit variables there; sources and results of 2 GiB and more
  are outside the model.
\<close>

record zlib =
  compressBound :: "nat \<Rightarrow> nat"
  compress :: "byte list \<Rightarrow> nat \<Rightarrow> byte list option"
  uncompress :: "byte list \<Rightarrow> nat \<Rightarrow> byte list option"

text \<open>
  What zlib documents: compression into a destination of the bound's size succeeds, and
  uncompressing the result into a destination at least as large as the source restores it.
\<close>

definition zlib_law :: "zlib \<Rightarrow> bool" where
  "zlib_law z \<longleftrightarrow>
     (\<forall>src. src \<noteq> [] \<longrightarrow> 0 < compressBound z (length src) \<and>
        (\<exists>d. compress z src (compressBound z (length src)) = Some d \<and>
           (\<forall>n \<ge> length src. uncompress z d n = Some src)))"

section \<open>Whole buffers\<close>

definition MAX_COMPRESS_BUF_SIZE :: nat where "MAX_COMPRESS_BUF_SIZE = 10 * 1024 * 1024"

text \<open>The overload on C buffers: the source and the destination pointers may be null.\<close>

definition compressBuf_raw :: "zlib \<Rightarrow> byte list option \<Rightarrow> bool \<Rightarrow> byte list option" where
  "compressBuf_raw z pSrcBuf dest_null =
     (case pSrcBuf of
        None \<Rightarrow> None
      | Some src \<Rightarrow>
          if length src = 0 \<or> length src > MAX_COMPRESS_BUF_SIZE \<or> dest_null then None
          else compress z src (compressBound z (length src)))"

text \<open>The overloads on strings append to their destination.\<close>

definition compressBuf :: "zlib \<Rightarrow> byte list \<Rightarrow> byte list \<Rightarrow> bool \<times> byte list" where
  "compressBuf z strSrcBuf strDestBuf =
     (if strSrcBuf = [] then (False, strDestBuf)
      else if length strSrcBuf > MAX_COMPRESS_BUF_SIZE then (False, strDestBuf)
      else let nDestBufLength = compressBound z (length strSrcBuf)
           in if nDestBufLength \<le> 0 then (False, strDestBuf)
              else case compress z strSrcBuf nDestBufLength of
                     None \<Rightarrow> (False, strDestBuf)
                   | Some d \<Rightarrow> (True, strDestBuf @ d))"

definition uncompressBuf :: "zlib \<Rightarrow> byte list \<Rightarrow> byte list \<Rightarrow> nat \<Rightarrow> bool \<times> byte list" where
  "uncompressBuf z strSrcBuf strDestBuf nDestBufLength =
     (case uncompress z strSrcBuf nDestBufLength of
        None \<Rightarrow> (False, strDestBuf)
      | Some d \<Rightarrow> (True, strDestBuf @ d))"

section \<open>Streams\<close>

definition Z_OK :: int where "Z_OK = 0"
definition Z_STREAM_END :: int where "Z_STREAM_END = 1"
definition OUTPUT_BUF_SIZE :: nat where "OUTPUT_BUF_SIZE = 8192"

type_synonym 'z zcall = "'z \<Rightarrow> int \<times> byte list \<times> nat \<times> 'z"

text \<open>
  The common loop of \<^verbatim>\<open>deflate\<close> and \<^verbatim>\<open>inflate\<close>, which goes on while the output array is
  filled and input is left. How it ends: at the end of the stream, with all input taken, or
  with an error. The loop returns when the library makes progress; a library that does not
  gives \<open>None\<close>.
\<close>

datatype zend = AtEnd | AllTaken | Failed

partial_function (option) zloop :: "'z zcall \<Rightarrow> 'z \<Rightarrow> byte list \<Rightarrow> (zend \<times> byte list) option" where
  "zloop zc z strDest =
     (case zc z of
        (err, out, avail_in, z') \<Rightarrow>
          if err = Z_STREAM_END then Some (AtEnd, strDest @ out)
          else if err = Z_OK \<and> OUTPUT_BUF_SIZE - length out = 0 \<and> avail_in \<noteq> 0 then zloop zc z' (strDest @ out)
          else if err = Z_OK \<and> avail_in = 0 then Some (AllTaken, strDest @ out)
          else Some (Failed, strDest))"

text \<open>\<open>z0\<close> is the stream that the initialisation sets up, \<open>None\<close> when that fails.\<close>

definition zdeflate :: "'z zcall \<Rightarrow> 'z option \<Rightarrow> byte list \<Rightarrow> (bool \<times> byte list) option" where
  "zdeflate zc z0 strDest =
     (case z0 of
        None \<Rightarrow> Some (False, strDest)
      | Some z \<Rightarrow>
          map_option (\<lambda>(e, d). case e of
              AtEnd \<Rightarrow> (True, d)
            | AllTaken \<Rightarrow> (True, if length d < 4 then d else take (length d - 4) d)
            | Failed \<Rightarrow> (False, d)) (zloop zc z strDest))"

definition zinflate :: "'z zcall \<Rightarrow> 'z option \<Rightarrow> byte list \<Rightarrow> (bool \<times> byte list) option" where
  "zinflate zc z0 strDest =
     (case z0 of
        None \<Rightarrow> Some (False, strDest)
      | Some z \<Rightarrow> map_option (\<lambda>(e, d). (e \<noteq> Failed, d)) (zloop zc z strDest))"

section \<open>Lemmas\<close>

lemma compressBuf_ok:
  assumes "zlib_law z" and "src \<noteq> []" and "length src \<le> MAX_COMPRESS_BUF_SIZE"
  shows "\<exists>d. compressBuf z src dest = (True, dest @ d) \<and> (\<forall>n \<ge> length src. uncompress z d n = Some src)"
  using assms by (auto simp: zlib_law_def compressBuf_def Let_def)

text \<open>The calls of a run: \<open>k\<close> calls that fill the output array with input left, then a last one.\<close>

fun zcalls :: "'z zcall \<Rightarrow> nat \<Rightarrow> 'z \<Rightarrow> (byte list \<times> 'z) option" where
  "zcalls zc 0 z = Some ([], z)"
| "zcalls zc (Suc k) z =
     (case zc z of
        (err, out, avail_in, z') \<Rightarrow>
          if err = Z_OK \<and> OUTPUT_BUF_SIZE \<le> length out \<and> avail_in \<noteq> 0
          then map_option (\<lambda>(os, z''). (out @ os, z'')) (zcalls zc k z') else None)"

lemma zloop_calls:
  "zcalls zc k z = Some (outs, z') \<Longrightarrow> zloop zc z dest = zloop zc z' (dest @ outs)"
proof (induction k arbitrary: z outs dest)
  case (Suc k)
  obtain err out ain z1 where c: "zc z = (err, out, ain, z1)" by (metis prod_cases4)
  with Suc.prems obtain os where os: "err = Z_OK" "OUTPUT_BUF_SIZE \<le> length out" "ain \<noteq> 0"
      "zcalls zc k z1 = Some (os, z')" "outs = out @ os"
    by (auto split: if_splits)
  have "zloop zc z dest = zloop zc z1 (dest @ out)"
    using c os(1-3) by (subst zloop.simps) (simp add: Z_OK_def Z_STREAM_END_def)
  then show ?case using Suc.IH [OF os(4), of "dest @ out"] os(5) by simp
qed simp

text \<open>The loop returns when each continued call makes some measure of the stream smaller.\<close>

lemma zloop_returns:
  fixes left :: "'z \<Rightarrow> nat"
  assumes "\<And>z err out ain z'. zc z = (err, out, ain, z') \<Longrightarrow> ain \<noteq> 0 \<Longrightarrow> left z' < left z"
  shows "\<exists>r. zloop zc z dest = Some r"
proof (induction "left z" arbitrary: z dest rule: less_induct)
  case less
  obtain err out ain z1 where c: "zc z = (err, out, ain, z1)" by (metis prod_cases4)
  show ?case
  proof (cases "ain = 0")
    case True
    then show ?thesis using c by (subst zloop.simps) simp
  next
    case False
    then obtain r where "zloop zc z1 (dest @ out) = Some r" using less assms [OF c] by blast
    then show ?thesis using c by (subst zloop.simps) simp
  qed
qed

section \<open>Properties\<close>

text \<open>A library that stores: the parameter instantiated for the witnesses.\<close>

definition stored :: zlib where
  "stored = \<lparr>compressBound = (\<lambda>n. n + 1), compress = (\<lambda>s n. if length s < n then Some (1 # s) else None),
             uncompress = (\<lambda>s n. if length s - 1 \<le> n then Some (tl s) else None)\<rparr>"

lemma stored_law: "zlib_law stored"
  by (simp add: zlib_law_def stored_def)

text \<open>
  every nonempty buffer of at most ten megabytes is compressed, and uncompressing the
  result with the original size gives it back; an empty or larger one is refused and the
  destination left alone.
\<close>

theorem compress_round_trip:
  assumes "zlib_law z"
  shows "if src \<noteq> [] \<and> length src \<le> MAX_COMPRESS_BUF_SIZE
    then \<exists>d. compressBuf z src dest = (True, dest @ d) \<and> uncompressBuf z d dest (length src) = (True, dest @ src)
    else compressBuf z src dest = (False, dest)"
proof (cases "src \<noteq> [] \<and> length src \<le> MAX_COMPRESS_BUF_SIZE")
  case True
  then show ?thesis using compressBuf_ok [OF assms, of src dest] by (auto simp: uncompressBuf_def)
next
  case False
  then show ?thesis by (auto simp: compressBuf_def)
qed

theorem compress_round_trip_witness:
  "\<exists>d. compressBuf stored [7, 8] [] = (True, d) \<and> uncompressBuf stored d [] 2 = (True, [7, 8])"
  using compress_round_trip [OF stored_law, of "[7, 8]" "[]"] by (simp add: MAX_COMPRESS_BUF_SIZE_def numeral_2_eq_2)

text \<open>
  \<^verbatim>\<open>inflate\<close> returns the output of every call it makes, in order: of any number of calls
  that fill the output array with input left, and of the first one that has taken all input.
\<close>

theorem inflate_collects:
  assumes "zcalls zc k z0 = Some (outs, z)" and "zc z = (err, out, 0, z')" and "err \<in> {Z_OK, Z_STREAM_END}"
  shows "zinflate zc (Some z0) dest = Some (True, dest @ outs @ out)"
proof -
  have "zloop zc z (dest @ outs) = Some (if err = Z_STREAM_END then AtEnd else AllTaken, dest @ outs @ out)"
    using assms(2,3) by (subst zloop.simps) auto
  then show ?thesis using zloop_calls [OF assms(1), of dest] by (auto simp: zinflate_def)
qed

text \<open>
  A library that takes its whole input at once and hands out what it holds in portions: the
  state is what is left to hand out. The loop stops after the first portion and reports
  success, whatever is still held.
\<close>

definition holding :: "byte list zcall" where
  "holding bs = (Z_OK, take OUTPUT_BUF_SIZE bs, 0, drop OUTPUT_BUF_SIZE bs)"

lemma inflate_drops_held_output: "zinflate holding (Some bs) dest = Some (True, dest @ take OUTPUT_BUF_SIZE bs)"
  by (subst zinflate_def, subst zloop.simps) (simp add: holding_def Z_OK_def Z_STREAM_END_def)

theorem inflate_collects_witness: "zinflate holding (Some [1, 2, 3]) [9] = Some (True, [9, 1, 2, 3])"
  using inflate_collects [of holding 0 "[1, 2, 3]" "[]" "[1, 2, 3]" Z_OK "[1, 2, 3]" "[]" "[9]"]
  by (simp add: holding_def OUTPUT_BUF_SIZE_def)

end
