(* ===== verification/Tcp_Session.thy ===== *)
theory Tcp_Session
  imports Protocol_Stream Tcp_Connection Zlib_Util
begin

text \<open>
  \<^verbatim>\<open>TcpSession\<close> of \<^verbatim>\<open>network/tcp_session.{h,cpp}\<close> with the package header
  \<^verbatim>\<open>chat_msg_header\<close> of \<^verbatim>\<open>common/msg.h\<close>: a command is written field by field into a stream,
  compressed, put behind a header and handed to the connection. The weak pointer to the
  connection is \<open>None\<close> when the connection is gone. What the code leaves uninitialised, the
  reserved bytes of the header and the first bytes of the stream, is an argument.

  There is no receiving side in the repository yet; the property at the end reads packages
  back with \<^verbatim>\<open>ZlibUtil\<close> and \<^verbatim>\<open>BinaryStreamReader\<close>.
\<close>

section \<open>Packages\<close>

record chat_msg_header =
  compressflag :: byte
  originsize :: i32
  compresssize :: i32
  reserved :: "byte list"

text \<open>The packed structure as bytes in memory, 25 of them.\<close>

definition header_bytes :: "chat_msg_header \<Rightarrow> byte list" where
  "header_bytes h = compressflag h # le_bytes 4 (originsize h) @ le_bytes 4 (compresssize h) @ take 16 (reserved h)"

record 'k tcp_session =
  tmp_conn :: "'k tcp_connection option"

definition TcpSession :: "'k tcp_connection option \<Rightarrow> 'k tcp_session" where
  "TcpSession tmpconn = \<lparr>tmp_conn = tmpconn\<rparr>"

definition get_conn_ptr :: "'k tcp_session \<Rightarrow> 'k tcp_connection option" where
  "get_conn_ptr s = tmp_conn s"

text \<open>\<open>io\<close> is what the connection's \<^verbatim>\<open>send\<close> needs: the calling thread and the result of the write.\<close>

definition send_pkg ::
  "'k epoll_ctl \<Rightarrow> zlib \<Rightarrow> byte list \<Rightarrow> bool \<times> int \<times> int \<Rightarrow> byte list \<Rightarrow> 'k tcp_session \<Rightarrow> 'k tcp_session" where
  "send_pkg ctl z junk io p s =
     (case compressBuf z p [] of
        (False, _) \<Rightarrow> s
      | (True, destbuf) \<Rightarrow>
          let header = \<lparr>compressflag = 1, originsize = of_nat (length p),
                        compresssize = of_nat (length destbuf), reserved = junk\<rparr>;
              strPackageData = header_bytes header @ destbuf
          in case tmp_conn s of
               None \<Rightarrow> s
             | Some conn \<Rightarrow>
                 (case io of (in_loop, n, err) \<Rightarrow> s\<lparr>tmp_conn := Some (send ctl in_loop n err strPackageData conn)\<rparr>))"

definition send_outbuf ::
  "'k epoll_ctl \<Rightarrow> zlib \<Rightarrow> byte list \<Rightarrow> bool \<times> int \<times> int \<Rightarrow> byte list \<Rightarrow> 'k tcp_session \<Rightarrow> 'k tcp_session" where
  "send_outbuf ctl z junk io outbuf s = send_pkg ctl z junk io outbuf s"

text \<open>\<open>junk6\<close> are the first six bytes of the stream before \<^verbatim>\<open>Flush\<close>.\<close>

definition command_stream :: "byte list \<Rightarrow> i32 \<Rightarrow> i32 \<Rightarrow> byte list \<Rightarrow> byte list" where
  "command_stream junk6 cmd seq data =
     Flush (WriteCString (WriteInt32 (WriteInt32 (BinaryStreamWriter junk6) cmd False) seq False) data)"

definition send_command ::
  "'k epoll_ctl \<Rightarrow> zlib \<Rightarrow> byte list \<Rightarrow> byte list \<Rightarrow> bool \<times> int \<times> int \<Rightarrow> i32 \<Rightarrow> i32 \<Rightarrow> byte list \<Rightarrow> 'k tcp_session \<Rightarrow> 'k tcp_session" where
  "send_command ctl z junk6 junk io cmd seq data s =
     send_pkg ctl z junk io (command_stream junk6 cmd seq data) s"

section \<open>Reading a package\<close>

text \<open>The reference for a receiver: check the header, uncompress the body, read the fields.\<close>

definition read_package :: "zlib \<Rightarrow> byte list \<Rightarrow> byte list option" where
  "read_package z pkg =
     (if length pkg < 25 \<or> hd pkg \<noteq> 1 then None
      else let osize = of_le_bytes (segment 1 5 pkg) :: i32;
               csize = of_le_bytes (segment 5 9 pkg) :: i32
           in if length pkg \<noteq> 25 + unat csize then None
              else case uncompressBuf z (drop 25 pkg) [] (unat osize) of
                     (True, d) \<Rightarrow> Some d
                   | (False, _) \<Rightarrow> None)"

definition read_command :: "byte list \<Rightarrow> pfield list option" where
  "read_command msg =
     (case read_pfields (BinaryStreamReader msg (length msg)) [PInt32 0, PInt32 0, PString []] of
        Some (_, fs) \<Rightarrow> fs
      | None \<Rightarrow> None)"

section \<open>Lemmas\<close>

lemma length_header_bytes: "16 \<le> length (reserved h) \<Longrightarrow> length (header_bytes h) = 25"
  by (simp add: header_bytes_def)

lemma read_package_header:
  assumes "uncompress z d (length p) = Some p" and "length p < 2 ^ 32" and "length d < 2 ^ 32" and "16 \<le> length junk"
  shows "read_package z (header_bytes \<lparr>compressflag = 1, originsize = of_nat (length p),
      compresssize = of_nat (length d), reserved = junk\<rparr> @ d) = Some p"
proof -
  let ?h = "\<lparr>compressflag = 1, originsize = of_nat (length p), compresssize = of_nat (length d), reserved = junk\<rparr>"
  let ?pkg = "header_bytes ?h @ d"
  have len: "length (header_bytes ?h) = 25" using assms(4) by (simp add: length_header_bytes)
  have sg: "segment 1 5 ?pkg = le_bytes 4 (originsize ?h)" "segment 5 9 ?pkg = le_bytes 4 (compresssize ?h)"
    by (simp_all add: header_bytes_def segment_def)
  have "unat (of_le_bytes (segment 1 5 ?pkg) :: i32) = length p" "unat (of_le_bytes (segment 5 9 ?pkg) :: i32) = length d"
    unfolding sg using assms(2,3) by (simp_all add: unat_of_nat)
  moreover have "hd ?pkg = 1" by (simp add: header_bytes_def)
  ultimately show ?thesis
    using len assms(1) by (simp add: read_package_def Let_def uncompressBuf_def)
qed

lemma read_pfields_shape:
  "read_pfields r [PInt32 a, PInt32 b, PString s] = read_pfields r [PInt32 0, PInt32 0, PString []]"
  by (auto split: option.split)

lemma command_stream_eq:
  assumes "length junk6 = 6" and "length data < 2 ^ 32"
  shows "\<exists>hd6. length hd6 = 6 \<and>
    command_stream junk6 cmd seq data = hd6 @ concat (map pfield_bytes [PInt32 cmd, PInt32 seq, PString data])"
proof -
  let ?fs = "[PInt32 cmd, PInt32 seq, PString data]"
  let ?d = "foldl write_pfield (BinaryStreamWriter junk6) ?fs"
  have j: "BinaryStreamWriter junk6 = junk6"
    using assms(1) by (simp add: BinaryStreamWriter_def BINARY_PACKLEN_LEN_2_def CHECKSUM_LEN_def)
  have d: "?d = junk6 @ concat (map pfield_bytes ?fs)"
    using write_pfields_bytes [of ?fs junk6] assms(2) by (simp only: j) simp
  let ?m = "junk6 @ concat (map pfield_bytes ?fs)"
  have "command_stream junk6 cmd seq data = Flush ?d" by (simp add: command_stream_def WriteString_def)
  also have "\<dots> = Flush ?m" by (simp only: d)
  also have "\<dots> = rev (le_bytes 4 (of_nat (length ?m) :: i32)) @ drop 4 ?m"
    using assms(1) by (intro Flush_eq) simp
  also have "drop 4 ?m = drop 4 junk6 @ concat (map pfield_bytes ?fs)" using assms(1) by simp
  finally show ?thesis
    using assms(1) by (intro exI [of _ "rev (le_bytes 4 (of_nat (length ?m) :: i32)) @ drop 4 junk6"]) simp
qed

lemma read_command_stream:
  assumes "length junk6 = 6" and "length data < 2 ^ 32"
  shows "read_command (command_stream junk6 cmd seq data) = Some [PInt32 cmd, PInt32 seq, PString data]"
proof -
  let ?fs = "[PInt32 cmd, PInt32 seq, PString data]" and ?m = "command_stream junk6 cmd seq data"
  obtain h where h: "length h = 6" "?m = h @ concat (map pfield_bytes ?fs)" using command_stream_eq [OF assms] by blast
  have "at_bytes (BinaryStreamReader ?m (length ?m)) (concat (map pfield_bytes ?fs)) []"
    using h by (simp add: at_bytes_def BinaryStreamReader_def BINARY_PACKLEN_LEN_2_def CHECKSUM_LEN_def)
  then have "read_pfields (BinaryStreamReader ?m (length ?m)) ?fs =
      Some ((BinaryStreamReader ?m (length ?m))\<lparr>rcur := rcur (BinaryStreamReader ?m (length ?m)) +
        length (concat (map pfield_bytes ?fs))\<rparr>, Some ?fs)"
    using read_pfields_at assms(2) by fastforce
  then show ?thesis unfolding read_command_def read_pfields_shape [of _ cmd seq data, symmetric] by simp
qed

section \<open>Properties\<close>

text \<open>
  a command sent through a session over an open connection in its loop thread arrives
  whole: the bytes the connection takes over, behind those it had, are one package whose
  header carries both sizes, whose body uncompresses to the stream and from whose stream the
  reader recovers the command, the sequence number and the data. Over a connection that is
  gone nothing happens.
\<close>

theorem session_send_round_trip:
  assumes "zlib_law z" and "conn_reachable ctl (c, acc)" and "state c = kConnected" and "accepts n err c"
    and "length junk6 = 6" and "length junk = 16" and "length data < 10000000"
    and "compressBuf z (command_stream junk6 cmd seq data) [] = (True, d)"
    and "n \<le> int (25 + length d)" and "length d < 2 ^ 32"
  shows "(\<exists>c' pkg. tmp_conn (send_command ctl z junk6 junk (True, n, err) cmd seq data (TcpSession (Some c))) = Some c' \<and>
      wire c' @ outgoing c' = acc @ pkg \<and> length pkg = 25 + length d \<and>
      Option.bind (read_package z pkg) read_command = Some [PInt32 cmd, PInt32 seq, PString data]) \<and>
    send_command ctl z junk6 junk (True, n, err) cmd seq data (TcpSession None) = TcpSession None"
proof -
  let ?m = "command_stream junk6 cmd seq data"
  have l32: "length data < 2 ^ 32" using assms(7) by simp
  obtain h6 where h6: "length h6 = 6" "?m = h6 @ concat (map pfield_bytes [PInt32 cmd, PInt32 seq, PString data])"
    using command_stream_eq [OF assms(5) l32, of cmd seq] by blast
  have "length (enc7 (length data)) \<le> 10" using length_enc7 [of 10 "length data"] assms(7) by simp
  then have lm: "?m \<noteq> []" "length ?m < 2 ^ 32" "length ?m \<le> MAX_COMPRESS_BUF_SIZE"
    using h6 assms(7) by (auto simp: MAX_COMPRESS_BUF_SIZE_def)
  have u: "uncompress z d (length ?m) = Some ?m"
    using compressBuf_ok [OF assms(1) lm(1,3), of "[]"] assms(8) by auto
  let ?pkg = "header_bytes \<lparr>compressflag = 1, originsize = of_nat (length ?m), compresssize = of_nat (length d),
      reserved = junk\<rparr> @ d"
  have len: "length ?pkg = 25 + length d" using assms(6) by (simp add: length_header_bytes)
  have inv: "bb_wf (output_buffer c)" "wire c @ outgoing c = acc"
    using conn_reachable_stream [OF assms(2)] by (auto simp: stream_inv_def)
  let ?c' = "send ctl True n err ?pkg c"
  have "wire ?c' @ outgoing ?c' = acc @ ?pkg"
    using send_in_loop_stream [OF inv(1), of n ?pkg ?c' ctl err] assms(3,4,9,10) len inv(2) by (simp add: send_def)
  moreover have "read_package z ?pkg = Some ?m" using read_package_header [OF u lm(2) assms(10)] assms(6) by simp
  moreover have "read_command ?m = Some [PInt32 cmd, PInt32 seq, PString data]"
    using read_command_stream [OF assms(5) l32] by simp
  moreover have "tmp_conn (send_command ctl z junk6 junk (True, n, err) cmd seq data (TcpSession (Some c))) = Some ?c'"
    by (simp add: send_command_def send_pkg_def assms(8) TcpSession_def Let_def)
  moreover have "send_command ctl z junk6 junk (True, n, err) cmd seq data (TcpSession None) = TcpSession None"
    by (simp add: send_command_def send_pkg_def TcpSession_def Let_def case_prod_beta bool.case_eq_if)
  ultimately show ?thesis using len by (intro conjI exI [of _ ?c'] exI [of _ ?pkg]) simp_all
qed

theorem session_send_round_trip_witness:
  "\<exists>c' pkg. tmp_conn (send_command list_kernel stored (replicate 6 0) (replicate 16 0) (True, 3, 0) 1000 7 [65]
      (TcpSession (Some demo_conn))) = Some c' \<and> wire c' @ outgoing c' = pkg \<and>
      Option.bind (read_package stored pkg) read_command = Some [PInt32 1000, PInt32 7, PString [65]]"
proof -
  let ?m = "command_stream (replicate 6 0) 1000 7 [65]"
  have m: "?m = [0, 0, 0, 16, 0, 0, 0, 0, 3, 232, 0, 0, 0, 7, 1, 65]" by code_simp
  have c: "compressBuf stored ?m [] = (True, 1 # ?m)"
    by (simp add: m compressBuf_def stored_def MAX_COMPRESS_BUF_SIZE_def)
  have "accepts 3 0 demo_conn" by (simp add: accepts_def demo_conn_state)
  then show ?thesis
    using session_send_round_trip [OF stored_law demo_conn_reachable demo_conn_state(1) _ _ _ _ c, of 3 0 "replicate 16 0"]
    by (auto simp: m)
qed

end
