(* ===== verification/User_Manager.thy ===== *)
theory User_Manager
  imports Talko_Prelude
begin

text \<open>
  The class \<^verbatim>\<open>UserManager\<close> of \<^verbatim>\<open>service/user_manager.{h,cpp}\<close>: the users and groups
  cached in memory, their friend lists, and the SQL statements that keep the database in
  step. The mutex makes each pass over the cache atomic, so an operation is one function on
  the manager's state.

  \<^verbatim>\<open>CDatabaseMysql\<close> and \<^verbatim>\<open>QueryResult\<close> are not part of the sources. They are the
  parameter \<open>db\<close>: a record of functions on a database state of an arbitrary type. A query
  answers with NULL (\<^const>\<open>None\<close>) or with the rows the loop obtains from \<^verbatim>\<open>fetch()\<close> until
  \<^verbatim>\<open>fetch()\<close> is NULL or \<^verbatim>\<open>nextRow()\<close> is false; a row gives for each column index what
  the getters return. Log output is left out. \<^verbatim>\<open>int32_t\<close> members are integers; the atomic
  counters wrap at 32 bits. Members that a constructor leaves uninitialised take their
  values from the argument \<open>junk\<close>.
\<close>

section \<open>Data\<close>

definition GROUPID_BOUBDARY :: int where "GROUPID_BOUBDARY = 0x0FFFFFFF"

definition DEFAULT_TEAMNAME :: string where "DEFAULT_TEAMNAME = ''My Friends''"

datatype FRIEND_OPERATION = FRIEND_OPERATION_ADD | FRIEND_OPERATION_DELETE

record friend_info =
  friendid :: int
  markname :: string
  teamname :: string

record user =
  userid :: int
  username :: string
  password :: string
  nickname :: string
  facetype :: int
  customface :: string
  customfacefmt :: string
  gender :: int
  birthday :: int
  signature :: string
  address :: string
  phonenumber :: string
  mail :: string
  teaminfo :: string
  ownerid :: int
  friends :: "friend_info list"

record field =
  getInt32 :: int
  getString :: string
  getCppString :: string

type_synonym row = "nat \<Rightarrow> field"

record 'd database =
  initialize :: "string \<Rightarrow> string \<Rightarrow> string \<Rightarrow> string \<Rightarrow> 'd \<Rightarrow> bool \<times> 'd"
  query :: "string \<Rightarrow> 'd \<Rightarrow> row list option \<times> 'd"
  execute :: "string \<Rightarrow> 'd \<Rightarrow> bool \<times> 'd"

record user_manager =
  base_user_id :: int
  base_group_id :: int
  all_cached_users :: "user list"
  db_server :: string
  db_user_name :: string
  db_password :: string
  db_name :: string

type_synonym 'd answer = "bool \<times> user_manager \<times> 'd"

section \<open>Operations\<close>

definition UserManager :: user_manager where
  "UserManager =
     \<lparr>base_user_id = 0, base_group_id = 0x0FFFFFFF, all_cached_users = [],
      db_server = [], db_user_name = [], db_password = [], db_name = []\<rparr>"

text \<open>\<^verbatim>\<open>User u;\<close> leaves the integers of the object uninitialised.\<close>

record junk =
  j_userid :: int
  j_facetype :: int
  j_gender :: int
  j_birthday :: int
  j_ownerid :: int

definition new_user :: "junk \<Rightarrow> user" where
  "new_user j =
     \<lparr>userid = j_userid j, username = [], password = [], nickname = [], facetype = j_facetype j,
      customface = [], customfacefmt = [], gender = j_gender j, birthday = j_birthday j,
      signature = [], address = [], phonenumber = [], mail = [], teaminfo = [],
      ownerid = j_ownerid j, friends = []\<rparr>"

definition connect :: "'d database \<Rightarrow> user_manager \<Rightarrow> 'd \<Rightarrow> bool \<times> 'd" where
  "connect db m d = initialize db (db_server m) (db_user_name m) (db_password m) (db_name m) d"

text \<open>A single quote, which cannot stand in a string literal.\<close>

definition quote :: string where "quote = [CHR 0x27]"

definition sql_load_users :: string where
  "sql_load_users =
     ''SELECT f_user_id, f_username, f_nickname, f_password,  f_facetype, f_customface, f_gender, f_birthday, f_signature, f_address, f_phonenumber, f_mail, f_teaminfo FROM t_user ORDER BY  f_user_id DESC''"

definition row_user :: "junk \<Rightarrow> row \<Rightarrow> user" where
  "row_user j pRow = (new_user j)
     \<lparr>userid := getInt32 (pRow 0), username := getString (pRow 1), nickname := getString (pRow 2),
      password := getString (pRow 3), facetype := getInt32 (pRow 4),
      customface := getString (pRow 5), gender := getInt32 (pRow 6),
      birthday := getInt32 (pRow 7), signature := getString (pRow 8),
      address := getString (pRow 9), phonenumber := getString (pRow 10),
      mail := getString (pRow 11), teaminfo := getString (pRow 12)\<rparr>"

definition load_user :: "junk \<Rightarrow> row \<Rightarrow> user_manager \<Rightarrow> user_manager" where
  "load_user j pRow m =
     (let u = row_user j pRow;
          m1 = m\<lparr>all_cached_users := all_cached_users m @ [u]\<rparr>;
          m2 = (if userid u < GROUPID_BOUBDARY \<and> userid u > base_user_id m1
                then m1\<lparr>base_user_id := userid u\<rparr> else m1)
      in if userid u > GROUPID_BOUBDARY \<and> userid u > base_group_id m2
         then m2\<lparr>base_group_id := userid u\<rparr> else m2)"

definition loadUsersFromDb ::
  "'d database \<Rightarrow> junk \<Rightarrow> user_manager \<Rightarrow> 'd \<Rightarrow> 'd answer" where
  "loadUsersFromDb db j m d =
     (case connect db m d of
        (False, d1) \<Rightarrow> (False, m, d1)
      | (True, d1) \<Rightarrow>
          (case query db sql_load_users d1 of
             (None, d2) \<Rightarrow> (False, m, d2)
           | (Some rows, d2) \<Rightarrow> (True, fold (load_user j) rows m, d2)))"

definition sql_load_relationship :: "int \<Rightarrow> string" where
  "sql_load_relationship uid = snprintf 256
     (''SELECT f_user_id1, f_user_id2, f_user1_markname, f_user2_markname, f_user1_teamname, f_user2_teamname FROM t_user_relationship WHERE f_user_id1 = '' @
      dec_int uid @ '' OR f_user_id2 = '' @ dec_int uid @ '' '')"

definition row_friend :: "int \<Rightarrow> row \<Rightarrow> friend_info" where
  "row_friend uid pRow =
     (let friendid1 = getInt32 (pRow 0);
          friendid2 = getInt32 (pRow 1);
          markname1 = getCppString (pRow 2);
          markname2 = getCppString (pRow 3);
          teamname1 = getCppString (pRow 4);
          teamname2 = getCppString (pRow 5);
          teamname1 = (if teamname1 = [] then DEFAULT_TEAMNAME else teamname1);
          teamname2 = (if teamname2 = [] then DEFAULT_TEAMNAME else teamname2)
      in if friendid1 = uid
         then \<lparr>friendid = friendid2, markname = markname1, teamname = teamname1\<rparr>
         else \<lparr>friendid = friendid1, markname = markname2, teamname = teamname2\<rparr>)"

definition loadRelationshipFromDb ::
  "'d database \<Rightarrow> user_manager \<Rightarrow> int \<Rightarrow> friend_info list \<Rightarrow> 'd \<Rightarrow> bool \<times> friend_info list \<times> 'd" where
  "loadRelationshipFromDb db m uid r d =
     (case connect db m d of
        (False, d1) \<Rightarrow> (False, r, d1)
      | (True, d1) \<Rightarrow>
          (case query db (sql_load_relationship uid) d1 of
             (None, d2) \<Rightarrow> (False, r, d2)
           | (Some rows, d2) \<Rightarrow> (True, r @ map (row_friend uid) rows, d2)))"

text \<open>The loop of \<^verbatim>\<open>init\<close>: a user whose relationships cannot be loaded is skipped.\<close>

fun load_relationships ::
  "'d database \<Rightarrow> user_manager \<Rightarrow> user list \<Rightarrow> 'd \<Rightarrow> user list \<times> 'd" where
  "load_relationships db m [] d = ([], d)"
| "load_relationships db m (u # us) d =
     (case loadRelationshipFromDb db m (userid u) (friends u) d of
        (_, r, d1) \<Rightarrow>
          case load_relationships db m us d1 of
            (us', d2) \<Rightarrow> (u\<lparr>friends := r\<rparr> # us', d2))"

definition um_init ::
  "'d database \<Rightarrow> junk \<Rightarrow> string \<Rightarrow> string \<Rightarrow> string option \<Rightarrow> string \<Rightarrow> user_manager \<Rightarrow> 'd \<Rightarrow> 'd answer" where
  "um_init db j dbServer dbUserName dbPassword dbName m d =
     (let m1 = m\<lparr>db_server := dbServer, db_user_name := dbUserName,
                 db_password := (case dbPassword of None \<Rightarrow> db_password m | Some p \<Rightarrow> p),
                 db_name := dbName\<rparr>
      in case loadUsersFromDb db j m1 d of
           (False, m2, d2) \<Rightarrow> (False, m2, d2)
         | (True, m2, d2) \<Rightarrow>
             (case load_relationships db m2 (all_cached_users m2) d2 of
                (us, d3) \<Rightarrow> (True, m2\<lparr>all_cached_users := us\<rparr>, d3)))"

definition sql_add_user :: "int \<Rightarrow> user \<Rightarrow> string" where
  "sql_add_user uid u =
     ''INSERT INTO t_user(f_user_id, f_username, f_nickname, f_password, f_register_time) VALUES('' @
     dec_int uid @ '', '' @ quote @ c_str (username u) @ quote @ '', '' @ quote @
     c_str (nickname u) @ quote @ '', '' @ quote @ c_str (password u) @ quote @ '', NOW())''"

text \<open>\<open>addUser\<close> returns the argument \<open>u\<close> too, whose fields it sets.\<close>

definition addUser ::
  "'d database \<Rightarrow> user \<Rightarrow> user_manager \<Rightarrow> 'd \<Rightarrow> bool \<times> user \<times> user_manager \<times> 'd" where
  "addUser db u m d =
     (case connect db m d of
        (False, d1) \<Rightarrow> (False, u, m, d1)
      | (True, d1) \<Rightarrow>
          let m1 = m\<lparr>base_user_id := wrap32 (base_user_id m + 1)\<rparr>;
              sql = snprintf 256 (sql_add_user (base_user_id m1) u)
          in case execute db sql d1 of
               (False, d2) \<Rightarrow> (False, u, m1, d2)
             | (True, d2) \<Rightarrow>
                 let u1 = u\<lparr>userid := base_user_id m1, facetype := 0, birthday := 19900101,
                            gender := 0, ownerid := 0\<rparr>
                 in (True, u1, m1\<lparr>all_cached_users := all_cached_users m1 @ [u1]\<rparr>, d2))"

definition makeFriendRelationshipInDB ::
  "'d database \<Rightarrow> int \<Rightarrow> int \<Rightarrow> user_manager \<Rightarrow> 'd \<Rightarrow> 'd answer" where
  "makeFriendRelationshipInDB db smallUserid greaterUserid m d =
     (if smallUserid = greaterUserid then (False, m, d)
      else let (smallUserid, greaterUserid) =
                 (if smallUserid > greaterUserid then (greaterUserid, smallUserid)
                  else (smallUserid, greaterUserid))
           in case connect db m d of
                (False, d1) \<Rightarrow> (False, m, d1)
              | (True, d1) \<Rightarrow>
                  let sql = snprintf 512
                    (''INSERT INTO t_user_relationship(f_user_id1, f_user_id2, f_user1_teamname, f_user2_teamname) VALUES('' @
                     dec_int smallUserid @ '', '' @ dec_int greaterUserid @ '', '' @ quote @
                     DEFAULT_TEAMNAME @ quote @ '', '' @ quote @ DEFAULT_TEAMNAME @ quote @ '')'')
                  in (case execute db sql d1 of (ok, d2) \<Rightarrow> (ok, m, d2)))"

text \<open>Remove the first list entry that names a friend, as \<^verbatim>\<open>erase\<close> followed by \<^verbatim>\<open>break\<close>.\<close>

fun erase_friend :: "int \<Rightarrow> friend_info list \<Rightarrow> friend_info list" where
  "erase_friend fid [] = []"
| "erase_friend fid (f # fs) = (if friendid f = fid then fs else f # erase_friend fid fs)"

definition has_friend :: "int \<Rightarrow> friend_info list \<Rightarrow> bool" where
  "has_friend fid fs \<longleftrightarrow> (\<exists>f\<in>set fs. friendid f = fid)"

definition default_friend :: "int \<Rightarrow> friend_info" where
  "default_friend fid = \<lparr>friendid = fid, markname = [], teamname = DEFAULT_TEAMNAME\<rparr>"

text \<open>
  The loop of \<^verbatim>\<open>deleteFriendToUser\<close>. The range-for variable is a copy of each user, so
  the erasures are lost; only the two flags survive.
\<close>

fun delete_friend_loop :: "int \<Rightarrow> int \<Rightarrow> bool \<Rightarrow> bool \<Rightarrow> user list \<Rightarrow> bool \<times> bool" where
  "delete_friend_loop uid fid bFound1 bFound2 [] = (bFound1, bFound2)"
| "delete_friend_loop uid fid bFound1 bFound2 (iter # rest) =
     (let found_here = userid iter = uid \<and> has_friend fid (friends iter);
          fs = (if userid iter = uid then erase_friend fid (friends iter) else friends iter);
          bFound1' = (bFound1 \<or> found_here)
      in if userid iter = uid \<and> bFound1' then delete_friend_loop uid fid bFound1' bFound2 rest
         else let bFound2' = (bFound2 \<or> userid iter = fid \<and> has_friend uid fs)
              in delete_friend_loop uid fid bFound1' bFound2' rest)"

definition deleteFriendToUser :: "int \<Rightarrow> int \<Rightarrow> user_manager \<Rightarrow> bool \<times> user_manager" where
  "deleteFriendToUser uid fid m =
     (case delete_friend_loop uid fid False False (all_cached_users m) of
        (bFound1, bFound2) \<Rightarrow> (bFound1 \<and> bFound2, m))"

definition releaseFriendRelationshipInDBAndMemory ::
  "'d database \<Rightarrow> int \<Rightarrow> int \<Rightarrow> user_manager \<Rightarrow> 'd \<Rightarrow> 'd answer" where
  "releaseFriendRelationshipInDBAndMemory db smallUserid greaterUserid m d =
     (if smallUserid = greaterUserid then (False, m, d)
      else let (smallUserid, greaterUserid) =
                 (if smallUserid > greaterUserid then (greaterUserid, smallUserid)
                  else (smallUserid, greaterUserid))
           in case connect db m d of
                (False, d1) \<Rightarrow> (False, m, d1)
              | (True, d1) \<Rightarrow>
                  let sql = snprintf 256
                    (''DELETE FROM t_user_relationship WHERE f_user_id1 = '' @ dec_int smallUserid @
                     '' AND f_user_id2 = '' @ dec_int greaterUserid)
                  in (case execute db sql d1 of
                        (False, d2) \<Rightarrow> (False, m, d2)
                      | (True, d2) \<Rightarrow>
                          (case deleteFriendToUser smallUserid greaterUserid m of
                             (ok, m1) \<Rightarrow> (ok, m1, d2))))"

text \<open>The two passes of \<^verbatim>\<open>updateUserRelationshipInMemory\<close> with their flags.\<close>

fun relationship_add :: "int \<Rightarrow> int \<Rightarrow> bool \<Rightarrow> bool \<Rightarrow> user list \<Rightarrow> bool \<times> bool \<times> user list" where
  "relationship_add uid target found1 found2 [] = (found1, found2, [])"
| "relationship_add uid target found1 found2 (iter # rest) =
     (if userid iter = uid then
        case relationship_add uid target True found2 rest of
          (f1, f2, us) \<Rightarrow> (f1, f2, iter\<lparr>friends := friends iter @ [default_friend target]\<rparr> # us)
      else if userid iter = target then
        case relationship_add uid target found1 True rest of
          (f1, f2, us) \<Rightarrow> (f1, f2, iter\<lparr>friends := friends iter @ [default_friend uid]\<rparr> # us)
      else case relationship_add uid target found1 found2 rest of (f1, f2, us) \<Rightarrow> (f1, f2, iter # us))"

fun relationship_delete :: "int \<Rightarrow> int \<Rightarrow> bool \<Rightarrow> bool \<Rightarrow> user list \<Rightarrow> bool \<times> bool \<times> user list" where
  "relationship_delete uid target found1 found2 [] = (found1, found2, [])"
| "relationship_delete uid target found1 found2 (iter # rest) =
     (let found1' = (found1 \<or> userid iter = uid \<and> has_friend target (friends iter));
          iter' = (if userid iter = uid then iter\<lparr>friends := erase_friend target (friends iter)\<rparr> else iter)
      in if userid iter = uid \<and> found1'
         then case relationship_delete uid target found1' found2 rest of
                (f1, f2, us) \<Rightarrow> (f1, f2, iter' # us)
         else let found2' = (found2 \<or> userid iter = target \<and> has_friend uid (friends iter'));
                  iter'' = (if userid iter = target
                            then iter'\<lparr>friends := erase_friend uid (friends iter')\<rparr> else iter')
              in case relationship_delete uid target found1' found2' rest of
                   (f1, f2, us) \<Rightarrow> (f1, f2, iter'' # us))"

definition updateUserRelationshipInMemory ::
  "int \<Rightarrow> int \<Rightarrow> FRIEND_OPERATION \<Rightarrow> user_manager \<Rightarrow> bool \<times> user_manager" where
  "updateUserRelationshipInMemory uid target operation m =
     (case operation of
        FRIEND_OPERATION_ADD \<Rightarrow>
          (case relationship_add uid target False False (all_cached_users m) of
             (found1, found2, us) \<Rightarrow> (found1 \<and> found2, m\<lparr>all_cached_users := us\<rparr>))
      | FRIEND_OPERATION_DELETE \<Rightarrow>
          (case relationship_delete uid target False False (all_cached_users m) of
             (found1, found2, us) \<Rightarrow> (found1 \<and> found2, m\<lparr>all_cached_users := us\<rparr>)))"

fun add_friend_loop :: "int \<Rightarrow> int \<Rightarrow> bool \<Rightarrow> bool \<Rightarrow> user list \<Rightarrow> bool \<times> user list" where
  "add_friend_loop uid fid bFound1 bFound2 [] = (False, [])"
| "add_friend_loop uid fid bFound1 bFound2 (iter # rest) =
     (let iter1 = (if userid iter = uid
                   then iter\<lparr>friends := friends iter @ [default_friend fid]\<rparr> else iter);
          bFound1' = (bFound1 \<or> userid iter = uid);
          iter2 = (if userid iter1 = fid
                   then iter1\<lparr>friends := friends iter1 @ [default_friend uid]\<rparr> else iter1);
          bFound2' = (bFound2 \<or> userid iter1 = fid)
      in if bFound1' \<and> bFound2' then (True, iter2 # rest)
         else case add_friend_loop uid fid bFound1' bFound2' rest of (ok, us) \<Rightarrow> (ok, iter2 # us))"

definition addFriendToUser :: "int \<Rightarrow> int \<Rightarrow> user_manager \<Rightarrow> bool \<times> user_manager" where
  "addFriendToUser uid fid m =
     (case add_friend_loop uid fid False False (all_cached_users m) of
        (ok, us) \<Rightarrow> (ok, m\<lparr>all_cached_users := us\<rparr>))"

definition isFriend :: "int \<Rightarrow> int \<Rightarrow> user_manager \<Rightarrow> bool" where
  "isFriend uid fid m \<longleftrightarrow>
     list_ex (\<lambda>iter. userid iter = uid \<and> list_ex (\<lambda>f. friendid f = fid) (friends iter)) (all_cached_users m)"

text \<open>
  The loops that look for the first user with an id, change it and return true: the flag
  tells whether there was one.
\<close>

fun update_user :: "int \<Rightarrow> (user \<Rightarrow> user) \<Rightarrow> user list \<Rightarrow> bool \<times> user list" where
  "update_user uid f [] = (False, [])"
| "update_user uid f (iter # rest) =
     (if userid iter = uid then (True, f iter # rest)
      else case update_user uid f rest of (ok, us) \<Rightarrow> (ok, iter # us))"

definition update_cached :: "int \<Rightarrow> (user \<Rightarrow> user) \<Rightarrow> user_manager \<Rightarrow> bool \<times> user_manager" where
  "update_cached uid f m =
     (case update_user uid f (all_cached_users m) of (ok, us) \<Rightarrow> (ok, m\<lparr>all_cached_users := us\<rparr>))"

text \<open>The common start of the update operations: connect, execute one statement.\<close>

definition run_sql :: "'d database \<Rightarrow> string \<Rightarrow> user_manager \<Rightarrow> 'd \<Rightarrow> bool \<times> 'd" where
  "run_sql db sql m d =
     (case connect db m d of (False, d1) \<Rightarrow> (False, d1) | (True, d1) \<Rightarrow> execute db (c_str sql) d1)"

definition sql_update_user :: "int \<Rightarrow> user \<Rightarrow> string" where
  "sql_update_user uid n =
     ''UPDATE t_user SET f_nickname='' @ quote @ nickname n @ quote @ '', f_facetype='' @
     dec_int (facetype n) @ '', f_customface='' @ quote @ customface n @ quote @ '', f_gender='' @
     dec_int (gender n) @ '', f_birthday='' @ dec_int (birthday n) @ '', f_signature='' @ quote @
     signature n @ quote @ '', f_address='' @ quote @ address n @ quote @ '', f_phonenumber='' @
     quote @ phonenumber n @ quote @ '', f_mail='' @ quote @ mail n @ quote @
     '' WHERE f_user_id='' @ dec_int uid"

definition updateUserInfoInDb ::
  "'d database \<Rightarrow> int \<Rightarrow> user \<Rightarrow> user_manager \<Rightarrow> 'd \<Rightarrow> 'd answer" where
  "updateUserInfoInDb db uid n m d =
     (case run_sql db (sql_update_user uid n) m d of
        (False, d1) \<Rightarrow> (False, m, d1)
      | (True, d1) \<Rightarrow>
          (case update_cached uid
             (\<lambda>iter. iter\<lparr>nickname := nickname n, facetype := facetype n,
                customface := customface n, gender := gender n, birthday := birthday n,
                signature := signature n, address := address n,
                phonenumber := phonenumber n, mail := mail n\<rparr>) m of
             (ok, m1) \<Rightarrow> (ok, m1, d1)))"

definition modifyUserPassword ::
  "'d database \<Rightarrow> int \<Rightarrow> string \<Rightarrow> user_manager \<Rightarrow> 'd \<Rightarrow> 'd answer" where
  "modifyUserPassword db uid newpassword m d =
     (case run_sql db (''UPDATE t_user SET f_password='' @ quote @ newpassword @ quote @
              '' WHERE f_user_id='' @ dec_int uid) m d of
        (False, d1) \<Rightarrow> (False, m, d1)
      | (True, d1) \<Rightarrow>
          (case update_cached uid (\<lambda>iter. iter\<lparr>password := newpassword\<rparr>) m of
             (ok, m1) \<Rightarrow> (ok, m1, d1)))"

definition updateUserTeamInfoInDbAndMemory ::
  "'d database \<Rightarrow> int \<Rightarrow> string \<Rightarrow> user_manager \<Rightarrow> 'd \<Rightarrow> 'd answer" where
  "updateUserTeamInfoInDbAndMemory db uid newteaminfo m d =
     (case run_sql db (''UPDATE t_user SET f_teaminfo='' @ quote @ newteaminfo @ quote @
              '' WHERE f_user_id='' @ dec_int uid) m d of
        (False, d1) \<Rightarrow> (False, m, d1)
      | (True, d1) \<Rightarrow>
          (case update_cached uid (\<lambda>iter. iter\<lparr>teaminfo := newteaminfo\<rparr>) m of
             (ok, m1) \<Rightarrow> (ok, m1, d1)))"

text \<open>The statement on column set \<open>k\<close> (1 or 2) of the relationship table.\<close>

definition sql_rename_team :: "nat \<Rightarrow> int \<Rightarrow> string \<Rightarrow> string \<Rightarrow> string" where
  "sql_rename_team k uid newname oldname =
     ''UPDATE t_user_relationship SET f_user'' @ dec_nat k @ ''_teamname='' @ quote @ newname @
     quote @ '' WHERE f_user_id'' @ dec_nat k @ ''='' @ dec_int uid @ '' AND f_user'' @ dec_nat k @
     ''_teamname='' @ quote @ oldname @ quote"

definition rename_team :: "string \<Rightarrow> string \<Rightarrow> user \<Rightarrow> user" where
  "rename_team oldname newname u =
     u\<lparr>friends := map (\<lambda>f. if teamname f = oldname then f\<lparr>teamname := newname\<rparr> else f) (friends u)\<rparr>"

definition deleteTeam :: "'d database \<Rightarrow> int \<Rightarrow> string \<Rightarrow> user_manager \<Rightarrow> 'd \<Rightarrow> 'd answer" where
  "deleteTeam db uid deletedteamname m d =
     (case run_sql db (sql_rename_team 1 uid DEFAULT_TEAMNAME deletedteamname) m d of
        (False, d1) \<Rightarrow> (False, m, d1)
      | (True, d1) \<Rightarrow>
          (case execute db (c_str (sql_rename_team 2 uid DEFAULT_TEAMNAME deletedteamname)) d1 of
             (False, d2) \<Rightarrow> (False, m, d2)
           | (True, d2) \<Rightarrow>
               (case update_cached uid (rename_team deletedteamname DEFAULT_TEAMNAME) m of
                  (ok, m1) \<Rightarrow> (ok, m1, d2))))"

definition modifyTeamName ::
  "'d database \<Rightarrow> int \<Rightarrow> string \<Rightarrow> string \<Rightarrow> user_manager \<Rightarrow> 'd \<Rightarrow> 'd answer" where
  "modifyTeamName db uid newteamname oldteamname m d =
     (case run_sql db (sql_rename_team 1 uid newteamname oldteamname) m d of
        (False, d1) \<Rightarrow> (False, m, d1)
      | (True, d1) \<Rightarrow>
          (case execute db (c_str (sql_rename_team 2 uid newteamname oldteamname)) d1 of
             (False, d2) \<Rightarrow> (False, m, d2)
           | (True, d2) \<Rightarrow>
               (case update_cached uid (rename_team oldteamname newteamname) m of
                  (_, m1) \<Rightarrow> (True, m1, d2))))"

text \<open>Change the first list entry that names a friend.\<close>

fun update_friend ::
  "int \<Rightarrow> (friend_info \<Rightarrow> friend_info) \<Rightarrow> friend_info list \<Rightarrow> bool \<times> friend_info list" where
  "update_friend fid g [] = (False, [])"
| "update_friend fid g (f # fs) =
     (if friendid f = fid then (True, g f # fs)
      else case update_friend fid g fs of (ok, fs') \<Rightarrow> (ok, f # fs'))"

text \<open>The nested loops of \<^verbatim>\<open>updateMarknameInDb\<close>: a user without the friend does not end them.\<close>

fun markname_loop :: "int \<Rightarrow> int \<Rightarrow> string \<Rightarrow> user list \<Rightarrow> bool \<times> user list" where
  "markname_loop uid fid newmarkname [] = (False, [])"
| "markname_loop uid fid newmarkname (iter # rest) =
     (if userid iter = uid then
        (case update_friend fid (\<lambda>f. f\<lparr>markname := newmarkname\<rparr>) (friends iter) of
           (True, fs) \<Rightarrow> (True, iter\<lparr>friends := fs\<rparr> # rest)
         | (False, _) \<Rightarrow>
             (case markname_loop uid fid newmarkname rest of (ok, us) \<Rightarrow> (ok, iter # us)))
      else case markname_loop uid fid newmarkname rest of (ok, us) \<Rightarrow> (ok, iter # us))"

definition updateMarknameInDb ::
  "'d database \<Rightarrow> int \<Rightarrow> int \<Rightarrow> string \<Rightarrow> user_manager \<Rightarrow> 'd \<Rightarrow> 'd answer" where
  "updateMarknameInDb db uid fid newmarkname m d =
     (let sql = (if uid < fid
                 then ''UPDATE t_user_relationship SET f_user1_markname='' @ quote @ newmarkname @
                      quote @ '' WHERE f_user_id1='' @ dec_int uid @ '' AND f_user_id2='' @ dec_int fid
                 else ''UPDATE t_user_relationship SET f_user2_markname='' @ quote @ newmarkname @
                      quote @ '' WHERE f_user_id2='' @ dec_int uid @ '' AND f_user_id1='' @ dec_int fid)
      in case run_sql db sql m d of
           (False, d1) \<Rightarrow> (False, m, d1)
         | (True, d1) \<Rightarrow>
             (case markname_loop uid fid newmarkname (all_cached_users m) of
                (ok, us) \<Rightarrow> (ok, m\<lparr>all_cached_users := us\<rparr>, d1)))"

text \<open>
  \<^verbatim>\<open>moveFriendToOtherTeam\<close> takes a pointer to the cached user from
  \<^verbatim>\<open>getUserInfoByUserId\<close> and changes the object through it.
\<close>

definition moveFriendToOtherTeam ::
  "'d database \<Rightarrow> int \<Rightarrow> int \<Rightarrow> string \<Rightarrow> user_manager \<Rightarrow> 'd \<Rightarrow> 'd answer" where
  "moveFriendToOtherTeam db uid fid newteamname m d =
     (let sql = (if uid < fid
                 then ''UPDATE t_user_relationship SET f_user1_teamname='' @ quote @ newteamname @
                      quote @ '' WHERE f_user_id1='' @ dec_int uid @ '' AND f_user_id2='' @ dec_int fid
                 else ''UPDATE t_user_relationship SET f_user2_teamname='' @ quote @ newteamname @
                      quote @ '' WHERE f_user_id1='' @ dec_int fid @ '' AND f_user_id2='' @ dec_int uid)
      in case run_sql db sql m d of
           (False, d1) \<Rightarrow> (False, m, d1)
         | (True, d1) \<Rightarrow>
             (case find (\<lambda>iter. userid iter = uid) (all_cached_users m) of
                None \<Rightarrow> (False, m, d1)
              | Some u \<Rightarrow>
                  (case update_friend fid (\<lambda>f. f\<lparr>teamname := newteamname\<rparr>) (friends u) of
                     (ok, fs) \<Rightarrow>
                       (ok, snd (update_cached uid (\<lambda>iter. iter\<lparr>friends := fs\<rparr>) m), d1))))"

definition sql_add_group :: "int \<Rightarrow> string \<Rightarrow> int \<Rightarrow> string" where
  "sql_add_group gid groupname owner =
     ''INSERT INTO t_user(f_user_id, f_username, f_nickname, f_password, f_owner_id, f_register_time) VALUES('' @
     dec_int gid @ '', '' @ quote @ dec_int gid @ quote @ '', '' @ quote @ c_str groupname @ quote @
     '', '' @ quote @ quote @ '', '' @ dec_int owner @ '',  NOW())''"

text \<open>\<open>addGroup\<close> returns the id it stored in its reference argument, if it did.\<close>

definition addGroup ::
  "'d database \<Rightarrow> junk \<Rightarrow> string \<Rightarrow> int \<Rightarrow> user_manager \<Rightarrow> 'd \<Rightarrow> bool \<times> int option \<times> user_manager \<times> 'd" where
  "addGroup db j groupname owner m d =
     (case connect db m d of
        (False, d1) \<Rightarrow> (False, None, m, d1)
      | (True, d1) \<Rightarrow>
          let m1 = m\<lparr>base_group_id := wrap32 (base_group_id m + 1)\<rparr>;
              sql = snprintf 256 (sql_add_group (base_group_id m1) groupname owner)
          in case execute db sql d1 of
               (False, d2) \<Rightarrow> (False, None, m1, d2)
             | (True, d2) \<Rightarrow>
                 let groupid = base_group_id m1;
                     u = (new_user j)\<lparr>userid := groupid, username := snprintf 12 (dec_int groupid),
                                      nickname := c_str groupname, ownerid := owner\<rparr>
                 in (True, Some groupid, m1\<lparr>all_cached_users := all_cached_users m1 @ [u]\<rparr>, d2))"

definition saveChatMsgToDb ::
  "'d database \<Rightarrow> int \<Rightarrow> int \<Rightarrow> string \<Rightarrow> user_manager \<Rightarrow> 'd \<Rightarrow> 'd answer" where
  "saveChatMsgToDb db senderid targetid chatmsg m d =
     (case run_sql db (''INSERT INTO t_chatmsg(f_senderid, f_targetid, f_msgcontent) VALUES('' @
              dec_int senderid @ '', '' @ dec_int targetid @ '', '' @ quote @ chatmsg @ quote @ '')'') m d of
        (ok, d1) \<Rightarrow> (ok, m, d1))"

text \<open>The look-ups return what they store in their reference argument.\<close>

definition getUserInfoByUsername :: "string \<Rightarrow> user_manager \<Rightarrow> user option" where
  "getUserInfoByUsername name m = find (\<lambda>iter. username iter = name) (all_cached_users m)"

definition getUserInfoByUserId :: "int \<Rightarrow> user_manager \<Rightarrow> user option" where
  "getUserInfoByUserId uid m = find (\<lambda>iter. userid iter = uid) (all_cached_users m)"

definition getFriendInfoByUserId :: "int \<Rightarrow> user_manager \<Rightarrow> user list" where
  "getFriendInfoByUserId uid m =
     (let friendInfo = (case find (\<lambda>iter. userid iter = uid) (all_cached_users m) of
                          None \<Rightarrow> [] | Some u \<Rightarrow> friends u)
      in List.map_filter (\<lambda>f. find (\<lambda>iter. userid iter = friendid f) (all_cached_users m)) friendInfo)"

fun markname_search :: "int \<Rightarrow> int \<Rightarrow> user list \<Rightarrow> string option" where
  "markname_search uid fid [] = None"
| "markname_search uid fid (iter # rest) =
     (if userid iter = uid then
        (case find (\<lambda>f. friendid f = fid) (friends iter) of
           Some f \<Rightarrow> Some (markname f)
         | None \<Rightarrow> markname_search uid fid rest)
      else markname_search uid fid rest)"

definition getFriendMarknameByUserId :: "int \<Rightarrow> int \<Rightarrow> user_manager \<Rightarrow> string option" where
  "getFriendMarknameByUserId uid fid m = markname_search uid fid (all_cached_users m)"

definition getTeamInfoByUserId :: "int \<Rightarrow> user_manager \<Rightarrow> string option" where
  "getTeamInfoByUserId uid m =
     map_option teaminfo (find (\<lambda>iter. userid iter = uid) (all_cached_users m))"

section \<open>The passes over the cache, in closed form\<close>

abbreviation ids :: "user_manager \<Rightarrow> int list" where
  "ids m \<equiv> map userid (all_cached_users m)"

definition link :: "int \<Rightarrow> int \<Rightarrow> user \<Rightarrow> user" where
  "link uid fid u =
     (if userid u = uid then u\<lparr>friends := friends u @ [default_friend fid]\<rparr>
      else if userid u = fid then u\<lparr>friends := friends u @ [default_friend uid]\<rparr> else u)"

definition unlink :: "int \<Rightarrow> int \<Rightarrow> user \<Rightarrow> user" where
  "unlink uid fid u =
     (if userid u = uid then u\<lparr>friends := erase_friend fid (friends u)\<rparr>
      else if userid u = fid then u\<lparr>friends := erase_friend uid (friends u)\<rparr> else u)"

lemma userid_link [simp]: "userid (link a b u) = userid u"
  by (simp add: link_def)

lemma link_at [simp]:
  "userid u = uid \<Longrightarrow> link uid fid u = u\<lparr>friends := friends u @ [default_friend fid]\<rparr>"
  "userid u = fid \<Longrightarrow> uid \<noteq> fid \<Longrightarrow> link uid fid u = u\<lparr>friends := friends u @ [default_friend uid]\<rparr>"
  "userid u \<noteq> uid \<Longrightarrow> userid u \<noteq> fid \<Longrightarrow> link uid fid u = u"
  by (simp_all add: link_def)

lemma userid_unlink [simp]: "userid (unlink a b u) = userid u"
  by (simp add: unlink_def)

lemma update_user_flag: "fst (update_user uid f us) \<longleftrightarrow> uid \<in> userid ` set us"
  by (induction us) (auto split: prod.split)

lemma update_user_map:
  "distinct (map userid us) \<Longrightarrow>
    snd (update_user uid f us) = map (\<lambda>u. if userid u = uid then f u else u) us"
proof (induction us)
  case (Cons a us)
  have "\<forall>u\<in>set us. userid u \<noteq> uid" if "userid a = uid"
    using Cons.prems that by (auto simp: image_iff)
  then have "map (\<lambda>u. if userid u = uid then f u else u) us = us" if "userid a = uid"
    using that by (intro map_idI) simp
  then show ?case using Cons by (auto split: prod.split)
qed simp

lemma update_user_ids:
  "(\<And>u. userid (f u) = userid u) \<Longrightarrow> map userid (snd (update_user uid f us)) = map userid us"
  by (induction us) (auto split: prod.split)

lemma relationship_add_map:
  "relationship_add uid target f1 f2 us =
     (f1 \<or> uid \<in> userid ` set us, f2 \<or> target \<noteq> uid \<and> target \<in> userid ` set us,
      map (link uid target) us)"
  by (induction us arbitrary: f1 f2) (auto simp: link_def split: prod.split)

lemma erase_friend_id: "\<not> has_friend fid fs \<Longrightarrow> erase_friend fid fs = fs"
  by (induction fs) (auto simp: has_friend_def)

lemma relationship_delete_map:
  "uid \<noteq> target \<Longrightarrow>
   relationship_delete uid target f1 f2 us =
     (f1 \<or> (\<exists>u\<in>set us. userid u = uid \<and> has_friend target (friends u)),
      f2 \<or> (\<exists>u\<in>set us. userid u = target \<and> has_friend uid (friends u)),
      map (unlink uid target) us)"
  by (induction us arbitrary: f1 f2) (auto simp: unlink_def Let_def erase_friend_id split: prod.split)

lemma link_fresh: "a \<notin> userid ` set us \<Longrightarrow> b \<notin> userid ` set us \<Longrightarrow> map (link a b) us = us"
  by (intro map_idI) (auto simp: link_def)

lemma add_friend_loop_map:
  "distinct (map userid us) \<Longrightarrow> uid \<noteq> fid \<Longrightarrow> \<not> (b1 \<and> b2) \<Longrightarrow>
   (b1 \<longrightarrow> uid \<notin> userid ` set us) \<Longrightarrow> (b2 \<longrightarrow> fid \<notin> userid ` set us) \<Longrightarrow>
   add_friend_loop uid fid b1 b2 us =
     ((b1 \<or> uid \<in> userid ` set us) \<and> (b2 \<or> fid \<in> userid ` set us), map (link uid fid) us)"
proof (induction us arbitrary: b1 b2)
  case (Cons u us)
  have d: "userid u \<notin> userid ` set us" "distinct (map userid us)" using Cons.prems(1) by auto
  consider "userid u = uid" | "userid u = fid" | "userid u \<noteq> uid" "userid u \<noteq> fid" by blast
  then show ?case
  proof cases
    case 1
    then have b1: "\<not> b1" "uid \<notin> userid ` set us" using Cons.prems d by auto
    show ?thesis
    proof (cases b2)
      case True
      then show ?thesis using 1 b1 Cons.prems by (simp add: link_fresh Let_def)
    next
      case False
      then show ?thesis using 1 b1 Cons.prems Cons.IH [of True False] d
        by (auto simp: Let_def)
    qed
  next
    case 2
    then have b2: "\<not> b2" "fid \<notin> userid ` set us" using Cons.prems d by auto
    show ?thesis
    proof (cases b1)
      case True
      then show ?thesis using 2 b2 Cons.prems by (simp add: link_fresh Let_def)
    next
      case False
      then show ?thesis using 2 b2 Cons.prems Cons.IH [of False True] d
        by (auto simp: Let_def)
    qed
  next
    case 3
    then show ?thesis using Cons.prems Cons.IH [of b1 b2] d by (auto simp: Let_def)
  qed
qed simp

lemma isFriend_iff:
  "isFriend a b m \<longleftrightarrow> (\<exists>u\<in>set (all_cached_users m). userid u = a \<and> has_friend b (friends u))"
  by (simp add: isFriend_def list_ex_iff has_friend_def)

lemma has_friend_append [simp]: "has_friend b (fs @ gs) \<longleftrightarrow> has_friend b fs \<or> has_friend b gs"
  by (auto simp: has_friend_def)

lemma has_friend_default [simp]: "has_friend b [default_friend c] \<longleftrightarrow> b = c"
  by (auto simp: has_friend_def default_friend_def)

lemma has_friend_link:
  "has_friend b (friends (link x y u)) \<longleftrightarrow>
     has_friend b (friends u) \<or> userid u = x \<and> b = y \<or> userid u = y \<and> y \<noteq> x \<and> b = x"
  by (auto simp: link_def)

lemma isFriend_link:
  "isFriend a b (m\<lparr>all_cached_users := map (link x y) (all_cached_users m)\<rparr>) \<longleftrightarrow>
     isFriend a b m \<or> a \<in> set (ids m) \<and> (a = x \<and> b = y \<or> a = y \<and> y \<noteq> x \<and> b = x)"
  by (auto simp: isFriend_iff has_friend_link)

lemma has_friend_erase:
  "distinct (map friendid fs) \<Longrightarrow> has_friend b (erase_friend c fs) \<longleftrightarrow> has_friend b fs \<and> b \<noteq> c"
  by (induction fs) (auto simp: has_friend_def image_iff)

section \<open>The id invariant\<close>

text \<open>
  Ids are unique; the counters bound the ids handed out below and above the boundary, so
  the next id of either kind is fresh.
\<close>

definition um_wf :: "user_manager \<Rightarrow> bool" where
  "um_wf m \<longleftrightarrow>
     distinct (ids m) \<and>
     (\<forall>i\<in>set (ids m). (i < GROUPID_BOUBDARY \<longrightarrow> i \<le> base_user_id m) \<and>
                      (i > GROUPID_BOUBDARY \<longrightarrow> i \<le> base_group_id m)) \<and>
     0 \<le> base_user_id m \<and> base_user_id m < GROUPID_BOUBDARY \<and>
     GROUPID_BOUBDARY \<le> base_group_id m \<and> base_group_id m < 2 ^ 31"

lemma um_wf_cong:
  assumes "um_wf m" and "ids m' = ids m"
    and "base_user_id m' = base_user_id m" and "base_group_id m' = base_group_id m"
  shows "um_wf m'"
  using assms by (simp add: um_wf_def)

lemma update_cached_wf:
  assumes "um_wf m" and "\<And>u. userid (f u) = userid u"
  shows "um_wf (snd (update_cached uid f m))"
proof (rule um_wf_cong [OF assms(1)])
  show "ids (snd (update_cached uid f m)) = ids m"
    using update_user_ids [of f uid "all_cached_users m"] assms(2)
    by (simp add: update_cached_def case_prod_beta)
qed (simp_all add: update_cached_def case_prod_beta)

lemma markname_loop_ids: "map userid (snd (markname_loop uid fid n us)) = map userid us"
  by (induction us) (auto split: prod.split bool.split)

lemma add_friend_loop_ids: "map userid (snd (add_friend_loop uid fid b1 b2 us)) = map userid us"
  by (induction us arbitrary: b1 b2) (auto simp: Let_def case_prod_beta)

lemma relationship_delete_ids:
  "map userid (snd (snd (relationship_delete uid target f1 f2 us))) = map userid us"
  by (induction us arbitrary: f1 f2) (auto simp: Let_def case_prod_beta)

lemma load_relationships_ids:
  "map userid (fst (load_relationships db m us d)) = map userid us"
  by (induction us arbitrary: d) (auto simp: case_prod_beta)

definition row_ids_ok :: "row list \<Rightarrow> bool" where
  "row_ids_ok rows \<longleftrightarrow>
     distinct (map (\<lambda>r. getInt32 (r 0)) rows) \<and> (\<forall>r\<in>set rows. int32 (getInt32 (r 0)))"

lemma load_user_simps [simp]:
  "all_cached_users (load_user j r m) = all_cached_users m @ [row_user j r]"
  "userid (row_user j r) = getInt32 (r 0)"
  "friends (row_user j r) = []"
  "base_user_id (load_user j r m) =
     (if getInt32 (r 0) < GROUPID_BOUBDARY \<and> getInt32 (r 0) > base_user_id m
      then getInt32 (r 0) else base_user_id m)"
  "base_group_id (load_user j r m) =
     (if getInt32 (r 0) > GROUPID_BOUBDARY \<and> getInt32 (r 0) > base_group_id m
      then getInt32 (r 0) else base_group_id m)"
  by (auto simp: load_user_def row_user_def new_user_def Let_def)

lemma load_users_wf:
  assumes "um_wf m" and "row_ids_ok rows"
    and "\<forall>r\<in>set rows. getInt32 (r 0) \<notin> set (ids m)"
  shows "um_wf (fold (load_user j) rows m)"
  using assms
proof (induction rows arbitrary: m)
  case (Cons r rows)
  have "um_wf (load_user j r m)"
    using Cons.prems by (auto simp: um_wf_def row_ids_ok_def int32_def)
  moreover have "\<forall>s\<in>set rows. getInt32 (s 0) \<notin> set (ids (load_user j r m))"
    using Cons.prems by (auto simp: row_ids_ok_def image_iff)
  ultimately show ?case using Cons by (simp add: row_ids_ok_def)
qed simp

lemma load_users_cached:
  "all_cached_users (fold (load_user j) rows m) = all_cached_users m @ map (row_user j) rows"
  by (induction rows arbitrary: m) simp_all

lemma UserManager_wf [simp]: "um_wf UserManager"
  by (simp add: um_wf_def UserManager_def GROUPID_BOUBDARY_def)

text \<open>What the code relies on: the primary key of \<^verbatim>\<open>t_user\<close> makes the loaded ids distinct.\<close>

definition unique_ids :: "'d database \<Rightarrow> bool" where
  "unique_ids db \<longleftrightarrow>
     (\<forall>d rows d'. query db sql_load_users d = (Some rows, d') \<longrightarrow> row_ids_ok rows)"

lemma um_init_wf:
  assumes "unique_ids db" and "um_init db j s u p n UserManager d = (ok, m, d')"
  shows "um_wf m"
proof -
  define m1 where "m1 = UserManager\<lparr>db_server := s, db_user_name := u,
     db_password := (case p of None \<Rightarrow> db_password UserManager | Some p \<Rightarrow> p), db_name := n\<rparr>"
  have m1: "um_wf m1" "ids m1 = []"
    using UserManager_wf by (simp_all add: um_wf_def m1_def UserManager_def)
  obtain b m2 d2 where l: "loadUsersFromDb db j m1 d = (b, m2, d2)" by (metis prod_cases3)
  have "um_wf m2"
    using l m1 assms(1) load_users_wf [of m1 _ j]
    by (auto simp: loadUsersFromDb_def unique_ids_def split: prod.splits bool.splits option.splits)
  moreover obtain us d3 where r: "load_relationships db m2 (all_cached_users m2) d2 = (us, d3)"
    by fastforce
  moreover have "map userid us = ids m2" using load_relationships_ids [of db m2 "all_cached_users m2" d2] r by simp
  ultimately have "um_wf m2" and "um_wf (m2\<lparr>all_cached_users := us\<rparr>)"
    using um_wf_cong [of m2 "m2\<lparr>all_cached_users := us\<rparr>"] by simp_all
  then show ?thesis using assms(2) l r
    by (cases b) (auto simp: um_init_def Let_def m1_def [symmetric])
qed

lemma addUser_cases:
  obtains (no_connection) d1 where "connect db m d = (False, d1)" "addUser db u m d = (False, u, m, d1)"
  | (rejected) d1 d2 where "connect db m d = (True, d1)"
      "addUser db u m d = (False, u, m\<lparr>base_user_id := wrap32 (base_user_id m + 1)\<rparr>, d2)"
  | (added) d1 d2 u1 where "connect db m d = (True, d1)"
      "u1 = u\<lparr>userid := wrap32 (base_user_id m + 1), facetype := 0, birthday := 19900101,
               gender := 0, ownerid := 0\<rparr>"
      "execute db (snprintf 256 (sql_add_user (wrap32 (base_user_id m + 1)) u)) d1 = (True, d2)"
      "addUser db u m d = (True, u1, m\<lparr>base_user_id := wrap32 (base_user_id m + 1),
         all_cached_users := all_cached_users m @ [u1]\<rparr>, d2)"
  by (cases "connect db m d"; cases "fst (connect db m d)";
      cases "execute db (snprintf 256 (sql_add_user (wrap32 (base_user_id m + 1)) u)) (snd (connect db m d))";
      cases "fst (execute db (snprintf 256 (sql_add_user (wrap32 (base_user_id m + 1)) u)) (snd (connect db m d)))")
    (auto simp: addUser_def Let_def)

lemma addUser_true:
  assumes "addUser db u m d = (True, u', m', d')"
  shows "all_cached_users m' = all_cached_users m @ [u'] \<and> username u' = username u \<and>
    nickname u' = nickname u \<and> password u' = password u"
  using assms by (cases rule: addUser_cases [of db m d u]) auto

lemma addUser_false:
  assumes "addUser db u m d = (False, u', m', d')"
  shows "all_cached_users m' = all_cached_users m"
  using assms by (cases rule: addUser_cases [of db m d u]) auto

lemma next_user_id:
  assumes "um_wf m" and "base_user_id m + 1 < GROUPID_BOUBDARY"
  shows "wrap32 (base_user_id m + 1) = base_user_id m + 1" and "base_user_id m + 1 \<notin> set (ids m)"
  using assms by (auto simp: um_wf_def GROUPID_BOUBDARY_def intro!: wrap32_id simp: int32_def)

lemma next_group_id:
  assumes "um_wf m" and "base_group_id m + 1 < 2 ^ 31"
  shows "wrap32 (base_group_id m + 1) = base_group_id m + 1" and "base_group_id m + 1 \<notin> set (ids m)"
  using assms by (auto simp: um_wf_def GROUPID_BOUBDARY_def intro!: wrap32_id simp: int32_def)

lemma addUser_wf:
  assumes "um_wf m" and "base_user_id m + 1 < GROUPID_BOUBDARY"
    and "addUser db u m d = (ok, u', m', d')"
  shows "um_wf m'"
  using addUser_cases [of db m d u]
proof cases
  case no_connection
  then show ?thesis using assms by simp
next
  case rejected
  then have "m' = m\<lparr>base_user_id := base_user_id m + 1\<rparr>" using assms next_user_id by simp
  then show ?thesis using assms(1,2) by (auto simp: um_wf_def)
next
  case added
  then show ?thesis using assms next_user_id [OF assms(1,2)] by (auto simp: um_wf_def)
qed

lemma addGroup_wf:
  assumes "um_wf m" and "base_group_id m + 1 < 2 ^ 31"
    and "addGroup db j g own m d = (ok, r, m', d')"
  shows "um_wf m'"
  using assms next_group_id [OF assms(1,2)]
  by (auto simp: addGroup_def Let_def um_wf_def split: prod.splits bool.splits)

section \<open>The operations as steps\<close>

text \<open>
  One step of the manager per operation that changes it. The two creating operations are
  steps while an id of their kind is left.
\<close>

inductive um_step :: "'d database \<Rightarrow> user_manager \<Rightarrow> user_manager \<Rightarrow> bool" for db where
  add_user: "base_user_id m + 1 < GROUPID_BOUBDARY \<Longrightarrow> addUser db u m d = (ok, u', m', d') \<Longrightarrow> um_step db m m'"
| add_group: "base_group_id m + 1 < 2 ^ 31 \<Longrightarrow> addGroup db j g own m d = (ok, r, m', d') \<Longrightarrow> um_step db m m'"
| make_friend: "makeFriendRelationshipInDB db a b m d = (ok, m', d') \<Longrightarrow> um_step db m m'"
| release_friend: "releaseFriendRelationshipInDBAndMemory db a b m d = (ok, m', d') \<Longrightarrow> um_step db m m'"
| relationship: "updateUserRelationshipInMemory a b fop m = (ok, m') \<Longrightarrow> um_step db m m'"
| add_friend: "addFriendToUser a b m = (ok, m') \<Longrightarrow> um_step db m m'"
| update_info: "updateUserInfoInDb db a n m d = (ok, m', d') \<Longrightarrow> um_step db m m'"
| passwd: "modifyUserPassword db a s m d = (ok, m', d') \<Longrightarrow> um_step db m m'"
| team_info: "updateUserTeamInfoInDbAndMemory db a s m d = (ok, m', d') \<Longrightarrow> um_step db m m'"
| delete_team: "deleteTeam db a s m d = (ok, m', d') \<Longrightarrow> um_step db m m'"
| team_name: "modifyTeamName db a s t m d = (ok, m', d') \<Longrightarrow> um_step db m m'"
| mark_name: "updateMarknameInDb db a b s m d = (ok, m', d') \<Longrightarrow> um_step db m m'"
| move_friend: "moveFriendToOtherTeam db a b s m d = (ok, m', d') \<Longrightarrow> um_step db m m'"
| chat_msg: "saveChatMsgToDb db a b s m d = (ok, m', d') \<Longrightarrow> um_step db m m'"

inductive um_reachable :: "'d database \<Rightarrow> user_manager \<Rightarrow> bool" for db where
  init: "um_init db j s u p n UserManager d = (ok, m, d') \<Longrightarrow> um_reachable db m"
| step: "um_reachable db m \<Longrightarrow> um_step db m m' \<Longrightarrow> um_reachable db m'"

lemma um_wf_users:
  assumes "um_wf m" and "map userid us = ids m"
  shows "um_wf (m\<lparr>all_cached_users := us\<rparr>)"
  using um_wf_cong [OF assms(1)] assms(2) by simp

lemma userid_rename_team [simp]: "userid (rename_team a b u) = userid u"
  by (simp add: rename_team_def)

lemma update_cached_answer:
  assumes "um_wf m" and "\<And>u. userid (f u) = userid u"
    and "(case run_sql db sql m d of (False, d1) \<Rightarrow> (False, m, d1)
          | (True, d1) \<Rightarrow> (case update_cached uid f m of (ok, m1) \<Rightarrow> (ok, m1, d1))) = (ok, m', d')"
  shows "um_wf m'"
  using assms(3) assms(1) update_cached_wf [OF assms(1,2), of uid]
  by (auto split: prod.splits bool.splits)

lemma updateUserRelationship_wf:
  "um_wf m \<Longrightarrow> um_wf (snd (updateUserRelationshipInMemory a b fop m))"
  using relationship_delete_ids [of a b False False "all_cached_users m"]
  by (cases fop)
    (auto simp: updateUserRelationshipInMemory_def relationship_add_map case_prod_beta intro!: um_wf_users)

lemma addFriendToUser_wf: "um_wf m \<Longrightarrow> um_wf (snd (addFriendToUser a b m))"
  using add_friend_loop_ids [of a b False False "all_cached_users m"]
  by (auto simp: addFriendToUser_def case_prod_beta intro!: um_wf_users)

lemma team_frame:
  "deleteTeam db uid s m d = (ok, m', d') \<Longrightarrow>
     m' = m \<or> m' = snd (update_cached uid (rename_team s DEFAULT_TEAMNAME) m)"
  "modifyTeamName db uid t s m d = (ok, m', d') \<Longrightarrow>
     m' = m \<or> m' = snd (update_cached uid (rename_team s t) m)"
  by (auto simp: deleteTeam_def modifyTeamName_def split: prod.splits bool.splits)

lemma updateMarknameInDb_wf:
  assumes "um_wf m" and "updateMarknameInDb db a b s m d = (ok, m', d')"
  shows "um_wf m'"
proof -
  have "m' = m \<or> m' = m\<lparr>all_cached_users := snd (markname_loop a b s (all_cached_users m))\<rparr>"
    using assms(2) by (auto simp: updateMarknameInDb_def Let_def case_prod_beta split: prod.splits bool.splits)
  then show ?thesis using assms(1) markname_loop_ids by (auto intro: um_wf_users)
qed

lemma moveFriendToOtherTeam_wf:
  assumes "um_wf m" and "moveFriendToOtherTeam db a b s m d = (ok, m', d')"
  shows "um_wf m'"
proof -
  have "m' = m \<or> (\<exists>fs. m' = snd (update_cached a (\<lambda>u. u\<lparr>friends := fs\<rparr>) m))"
    using assms(2)
    by (auto simp: moveFriendToOtherTeam_def Let_def split: prod.splits bool.splits option.splits)
  then show ?thesis using assms(1) update_cached_wf [OF assms(1)] by auto
qed

lemma um_step_wf: "um_step db m m' \<Longrightarrow> um_wf m \<Longrightarrow> um_wf m'"
proof (induction rule: um_step.induct)
  case (relationship a b fop m ok m')
  then show ?case using updateUserRelationship_wf [of m a b fop] by simp
next
  case (add_friend a b m ok m')
  then show ?case using addFriendToUser_wf [of m a b] by simp
next
  case (delete_team a s m d ok m' d')
  then show ?case using team_frame(1) update_cached_wf [of m "rename_team s DEFAULT_TEAMNAME"] by force
next
  case (team_name a s t m d ok m' d')
  then show ?case using team_frame(2) update_cached_wf [of m "rename_team t s"] by force
next
  case (update_info a n m d ok m' d')
  then show ?case unfolding updateUserInfoInDb_def by (elim update_cached_answer [rotated 2]) simp_all
next
  case (passwd a s m d ok m' d')
  then show ?case unfolding modifyUserPassword_def by (elim update_cached_answer [rotated 2]) simp_all
next
  case (team_info a s m d ok m' d')
  then show ?case
    unfolding updateUserTeamInfoInDbAndMemory_def by (elim update_cached_answer [rotated 2]) simp_all
qed (auto intro: addUser_wf addGroup_wf updateMarknameInDb_wf moveFriendToOtherTeam_wf
      simp: makeFriendRelationshipInDB_def releaseFriendRelationshipInDBAndMemory_def Let_def
        deleteFriendToUser_def saveChatMsgToDb_def
      split: prod.splits bool.splits if_splits)

section \<open>Friend lists\<close>

definition friends_sym :: "user_manager \<Rightarrow> bool" where
  "friends_sym m \<longleftrightarrow> (\<forall>a\<in>set (ids m). \<forall>b\<in>set (ids m). isFriend a b m = isFriend b a m)"

definition friends_distinct :: "user_manager \<Rightarrow> bool" where
  "friends_distinct m \<longleftrightarrow> (\<forall>u\<in>set (all_cached_users m). distinct (map friendid (friends u)))"

lemma add_relationship_eq:
  "updateUserRelationshipInMemory u t FRIEND_OPERATION_ADD m =
     (u \<in> set (ids m) \<and> t \<noteq> u \<and> t \<in> set (ids m),
      m\<lparr>all_cached_users := map (link u t) (all_cached_users m)\<rparr>)"
  by (auto simp: updateUserRelationshipInMemory_def relationship_add_map)

lemma delete_relationship_eq:
  assumes "u \<noteq> t"
  shows "updateUserRelationshipInMemory u t FRIEND_OPERATION_DELETE m =
     (isFriend u t m \<and> isFriend t u m,
      m\<lparr>all_cached_users := map (unlink u t) (all_cached_users m)\<rparr>)"
  using assms by (auto simp: updateUserRelationshipInMemory_def relationship_delete_map isFriend_iff)

lemma addFriendToUser_eq:
  assumes "distinct (ids m)" and "u \<noteq> t"
  shows "addFriendToUser u t m = updateUserRelationshipInMemory u t FRIEND_OPERATION_ADD m"
  using add_friend_loop_map [of "all_cached_users m" u t False False] assms
  by (auto simp: addFriendToUser_def add_relationship_eq)

lemma isFriend_unlink:
  assumes "friends_distinct m" and "x \<noteq> y"
  shows "isFriend a b (m\<lparr>all_cached_users := map (unlink x y) (all_cached_users m)\<rparr>) \<longleftrightarrow>
     isFriend a b m \<and> \<not> (a = x \<and> b = y) \<and> \<not> (a = y \<and> b = x)"
proof -
  have "has_friend b (friends (unlink x y u)) \<longleftrightarrow>
      has_friend b (friends u) \<and> \<not> (userid u = x \<and> b = y) \<and> \<not> (userid u = y \<and> b = x)"
    if "u \<in> set (all_cached_users m)" for u
  proof -
    have "distinct (map friendid (friends u))" using assms(1) that by (simp add: friends_distinct_def)
    then show ?thesis using assms(2) by (auto simp: unlink_def has_friend_erase)
  qed
  then show ?thesis by (auto simp: isFriend_iff)
qed

lemma erase_default: "\<not> has_friend b fs \<Longrightarrow> erase_friend b (fs @ [default_friend b]) = fs"
  by (induction fs) (auto simp: default_friend_def has_friend_def)

lemma unlink_link:
  assumes "u \<in> set (all_cached_users m)" and "\<not> isFriend x y m" and "\<not> isFriend y x m" and "x \<noteq> y"
  shows "unlink x y (link x y u) = u"
proof -
  have "userid u = x \<Longrightarrow> \<not> has_friend y (friends u)" "userid u = y \<Longrightarrow> \<not> has_friend x (friends u)"
    using assms by (auto simp: isFriend_iff)
  then show ?thesis using assms(4) by (auto simp: link_def unlink_def erase_default)
qed

lemma update_friend_find:
  "fst (update_friend fid g fs) \<Longrightarrow> (\<And>f. friendid (g f) = friendid f) \<Longrightarrow>
    \<exists>f. find (\<lambda>f. friendid f = fid) (snd (update_friend fid g fs)) = Some (g f)"
  by (induction fs) (auto simp: case_prod_beta)

lemma update_friend_other:
  "(\<And>f. friendid (g f) = friendid f) \<Longrightarrow> b \<noteq> fid \<Longrightarrow>
    find (\<lambda>f. friendid f = b) (snd (update_friend fid g fs)) = find (\<lambda>f. friendid f = b) fs"
  by (induction fs) (auto simp: case_prod_beta)

lemma update_friend_none:
  "\<not> fst (update_friend fid g fs) \<longleftrightarrow> find (\<lambda>f. friendid f = fid) fs = None"
  by (induction fs) (auto simp: case_prod_beta)

lemma markname_loop_search:
  "fst (markname_loop uid fid n us) \<Longrightarrow> markname_search uid fid (snd (markname_loop uid fid n us)) = Some n"
proof (induction us)
  case (Cons u us)
  show ?case
  proof (cases "userid u = uid \<and> fst (update_friend fid (\<lambda>f. f\<lparr>markname := n\<rparr>) (friends u))")
    case True
    then show ?thesis using update_friend_find [of fid "\<lambda>f. f\<lparr>markname := n\<rparr>" "friends u"]
      by (auto simp: case_prod_beta split: prod.splits bool.splits)
  next
    case False
    then show ?thesis using Cons update_friend_none [of fid "\<lambda>f. f\<lparr>markname := n\<rparr>" "friends u"]
      by (auto simp: case_prod_beta split: prod.splits bool.splits)
  qed
qed simp

lemma markname_loop_frame:
  "(a, b) \<noteq> (uid, fid) \<Longrightarrow>
    markname_search a b (snd (markname_loop uid fid n us)) = markname_search a b us"
proof (induction us)
  case (Cons u us)
  obtain ok fs where f: "update_friend fid (\<lambda>f. f\<lparr>markname := n\<rparr>) (friends u) = (ok, fs)" by fastforce
  have "b \<noteq> fid \<Longrightarrow> find (\<lambda>f. friendid f = b) fs = find (\<lambda>f. friendid f = b) (friends u)"
    using update_friend_other [of "\<lambda>f. f\<lparr>markname := n\<rparr>" b fid "friends u"] f by simp
  then show ?case using Cons f
    by (cases ok) (auto simp: case_prod_beta split: option.split)
qed simp

lemma load_relationships_map:
  assumes "\<And>d. fst (connect db m d)"
    and "\<And>uid d. fst (query db (sql_load_relationship uid) d) = Some (rel uid)"
  shows "fst (load_relationships db m us d) =
    map (\<lambda>u. u\<lparr>friends := friends u @ map (row_friend (userid u)) (rel (userid u))\<rparr>) us"
proof (induction us arbitrary: d)
  case (Cons u us)
  obtain d1 where c: "connect db m d = (True, d1)" using assms(1) [of d] by (metis prod.collapse)
  obtain d2 where "query db (sql_load_relationship (userid u)) d1 = (Some (rel (userid u)), d2)"
    using assms(2) [of "userid u" d1] by (metis prod.collapse)
  then have "loadRelationshipFromDb db m (userid u) (friends u) d =
      (True, friends u @ map (row_friend (userid u)) (rel (userid u)), d2)"
    using c by (simp add: loadRelationshipFromDb_def)
  then show ?case using Cons.IH by (simp add: case_prod_beta)
qed simp

definition row_mentions :: "int \<Rightarrow> row \<Rightarrow> bool" where
  "row_mentions uid r \<longleftrightarrow> getInt32 (r 0) = uid \<or> getInt32 (r 1) = uid"

lemma friendid_row_friend:
  "friendid (row_friend a r) = (if getInt32 (r 0) = a then getInt32 (r 1) else getInt32 (r 0))"
  by (simp add: row_friend_def Let_def)

lemma has_friend_rows:
  "has_friend b (map (row_friend a) (filter (row_mentions a) rels)) \<longleftrightarrow>
     (\<exists>r\<in>set rels. getInt32 (r 0) = a \<and> getInt32 (r 1) = b \<or> getInt32 (r 0) = b \<and> getInt32 (r 1) = a)"
proof -
  have "has_friend b (map (row_friend a) (filter (row_mentions a) rels)) \<longleftrightarrow>
      (\<exists>r\<in>set rels. row_mentions a r \<and> friendid (row_friend a r) = b)"
    by (auto simp: has_friend_def)
  also have "\<dots> \<longleftrightarrow> (\<exists>r\<in>set rels. getInt32 (r 0) = a \<and> getInt32 (r 1) = b \<or>
      getInt32 (r 0) = b \<and> getInt32 (r 1) = a)"
    by (rule bex_cong) (auto simp: friendid_row_friend row_mentions_def)
  finally show ?thesis .
qed

section \<open>Contract for the clients that register users\<close>

text \<open>
  What a directory of named users promises to the registration logic: adding a user makes
  the name known with a non-zero id and the given data, changes no other name, and a failed
  attempt changes no name at all.
\<close>

locale user_directory =
  fixes inv :: "'s \<Rightarrow> bool"
    and room :: "'s \<Rightarrow> bool"
    and find_user :: "string \<Rightarrow> 's \<Rightarrow> user option"
    and add :: "user \<Rightarrow> 's \<Rightarrow> bool \<times> 's"
  assumes add_inv: "inv s \<Longrightarrow> room s \<Longrightarrow> inv (snd (add u s))"
    and known_id: "inv s \<Longrightarrow> find_user n s = Some c \<Longrightarrow> userid c \<noteq> 0"
    and add_known: "inv s \<Longrightarrow> room s \<Longrightarrow> add u s = (True, s') \<Longrightarrow> find_user (username u) s = None \<Longrightarrow>
      \<exists>c. find_user (username u) s' = Some c \<and> password c = password u \<and> nickname c = nickname u"
    and add_other: "add u s = (ok, s') \<Longrightarrow> n \<noteq> username u \<or> \<not> ok \<Longrightarrow> find_user n s' = find_user n s"
begin

text \<open>Registration as the client performs it: the code it answers, and the new state.\<close>

definition signup :: "user \<Rightarrow> 's \<Rightarrow> nat \<times> 's" where
  "signup u s =
     (if (case find_user (username u) s of None \<Rightarrow> 0 | Some c \<Rightarrow> userid c) \<noteq> 0 then (101, s)
      else case add u s of (ok, s') \<Rightarrow> (if ok then 0 else 100, s'))"

lemma signup_known:
  assumes "inv s" and "find_user (username u) s = Some c"
  shows "signup u s = (101, s)"
  using assms known_id [OF assms] by (simp add: signup_def)

lemma signup_new:
  assumes "inv s" and "find_user (username u) s = None"
  shows "signup u s = (case add u s of (ok, s') \<Rightarrow> (if ok then 0 else 100, s'))"
  using assms by (simp add: signup_def)

lemma signup_inv: "inv s \<Longrightarrow> room s \<Longrightarrow> inv (snd (signup u s))"
  using add_inv [of s u] by (simp add: signup_def case_prod_beta)

lemma signup_ok:
  assumes "inv s" and "room s" and "signup u s = (0, s')"
  shows "\<exists>c. find_user (username u) s' = Some c \<and> password c = password u \<and> nickname c = nickname u"
proof (cases "find_user (username u) s")
  case None
  then have "add u s = (True, s')"
    using assms signup_new [OF assms(1) None] by (auto split: prod.splits if_splits)
  then show ?thesis using add_known [OF assms(1,2) _ None] by blast
next
  case (Some c)
  then show ?thesis using assms(3) signup_known [OF assms(1) Some] by simp
qed

theorem signup_once:
  assumes "inv s" and "room s" and "signup u s = (0, s')" and "username v = username u"
  shows "signup v s' = (101, s')"
proof -
  have "inv s'" using signup_inv [OF assms(1,2), of u] assms(3) by simp
  moreover obtain c where "find_user (username v) s' = Some c"
    using signup_ok [OF assms(1-3)] assms(4) by auto
  ultimately show ?thesis by (rule signup_known)
qed

lemma signup_frame:
  assumes "signup u s = (code, s')" and "code \<noteq> 0 \<or> n \<noteq> username u"
  shows "find_user n s' = find_user n s"
  using assms add_other [of u s _ s' n]
  by (auto simp: signup_def split: if_splits option.splits prod.splits)

end

definition directory_inv :: "user_manager \<times> 'd \<Rightarrow> bool" where
  "directory_inv s \<longleftrightarrow> um_wf (fst s) \<and> 0 \<notin> set (ids (fst s))"

definition directory_room :: "user_manager \<times> 'd \<Rightarrow> bool" where
  "directory_room s \<longleftrightarrow> base_user_id (fst s) + 1 < GROUPID_BOUBDARY"

definition directory_add :: "'d database \<Rightarrow> user \<Rightarrow> user_manager \<times> 'd \<Rightarrow> bool \<times> user_manager \<times> 'd" where
  "directory_add db u s = (case addUser db u (fst s) (snd s) of (ok, u', m', d') \<Rightarrow> (ok, m', d'))"

lemma find_append: "find P (xs @ ys) = (case find P xs of None \<Rightarrow> find P ys | Some x \<Rightarrow> Some x)"
  by (induction xs) auto

lemma directory_add_inv:
  assumes "directory_inv s" and "directory_room s"
  shows "directory_inv (snd (directory_add db u s))"
proof -
  obtain m d where s: "s = (m, d)" by fastforce
  have wf: "um_wf m" "base_user_id m + 1 < GROUPID_BOUBDARY" "0 \<notin> set (ids m)" "0 \<le> base_user_id m"
    using assms s by (auto simp: directory_inv_def directory_room_def um_wf_def)
  have "um_wf (fst (snd (snd (addUser db u m d))))"
    using addUser_wf [OF wf(1,2)] by (metis prod.collapse)
  moreover have "0 \<notin> set (ids (fst (snd (snd (addUser db u m d)))))"
    using addUser_cases [of db m d u] next_user_id(1) [OF wf(1,2)] wf(3,4) by cases auto
  ultimately show ?thesis by (simp add: directory_inv_def directory_add_def s case_prod_beta)
qed

lemma directory_add_known:
  assumes "directory_add db u s = (True, s')" and "getUserInfoByUsername (username u) (fst s) = None"
  shows "\<exists>c. getUserInfoByUsername (username u) (fst s') = Some c \<and>
    password c = password u \<and> nickname c = nickname u"
  using addUser_cases [of db "fst s" "snd s" u] assms
  by cases (auto simp: directory_add_def getUserInfoByUsername_def find_append)

lemma directory_add_other:
  assumes "directory_add db u s = (ok, s')" and "n \<noteq> username u \<or> \<not> ok"
  shows "getUserInfoByUsername n (fst s') = getUserInfoByUsername n (fst s)"
  using addUser_cases [of db "fst s" "snd s" u] assms
  by cases (auto simp: directory_add_def getUserInfoByUsername_def find_append split: option.split)

interpretation um: user_directory
  directory_inv directory_room "\<lambda>n s. getUserInfoByUsername n (fst s)" "directory_add db"
  for db :: "'d database"
proof
  fix s :: "user_manager \<times> 'd" and n c
  assume "directory_inv s" "getUserInfoByUsername n (fst s) = Some c"
  then show "userid c \<noteq> 0"
    by (auto simp: directory_inv_def getUserInfoByUsername_def find_Some_iff in_set_conv_nth)
      (metis image_eqI nth_mem)
qed (use directory_add_inv directory_add_known directory_add_other in blast)+

section \<open>Properties\<close>

text \<open>A database that accepts every statement and answers queries from two fixed tables.\<close>

definition table_db :: "row list \<Rightarrow> row list \<Rightarrow> string list database" where
  "table_db users rels =
     \<lparr>initialize = (\<lambda>_ _ _ _ d. (True, d)),
      query = (\<lambda>sql d. (Some (if sql = sql_load_users then users else rels), d)),
      execute = (\<lambda>sql d. (True, d @ [sql]))\<rparr>"

text \<open>
  C3: whatever operations run after \<^verbatim>\<open>init\<close>, the ids of the cached users and groups stay
  unique and the two counters stay at or above every id handed out on their side of
  \<^verbatim>\<open>GROUPID_BOUBDARY\<close>.
\<close>

theorem um_reachable_wf:
  assumes "unique_ids db" and "um_reachable db m"
  shows "um_wf m"
  using assms(2)
proof (induction rule: um_reachable.induct)
  case init
  then show ?case using um_init_wf [OF assms(1)] by blast
next
  case step
  then show ?case using um_step_wf by blast
qed

theorem um_reachable_wf_witness:
  "um_wf (fst (snd (um_init (table_db [] []) \<lparr>j_userid = 1, j_facetype = 2, j_gender = 3, j_birthday = 4,
     j_ownerid = 5\<rparr> ''h'' ''u'' None ''n'' UserManager [])))" (is "um_wf (fst (snd ?r))")
proof (rule um_reachable_wf)
  show "unique_ids (table_db [] [])" by (simp add: unique_ids_def table_db_def row_ids_ok_def)
  have "?r = (fst ?r, fst (snd ?r), snd (snd ?r))" by simp
  then show "um_reachable (table_db [] []) (fst (snd ?r))" by (rule um_reachable.init)
qed

text \<open>
  while user ids are left, \<^verbatim>\<open>addUser\<close> fails without touching the cache or appends
  one user under an id no cached user or group has, with the data given and the documented
  defaults; the counter moves on even when the database rejects the statement.
\<close>

theorem addUser_fresh:
  assumes "um_wf m" and "base_user_id m + 1 < GROUPID_BOUBDARY"
  shows "case addUser db u m d of (ok, u', m', d') \<Rightarrow>
    um_wf m' \<and> base_group_id m' = base_group_id m \<and>
    (if ok then all_cached_users m' = all_cached_users m @ [u'] \<and> userid u' = base_user_id m + 1 \<and>
        userid u' \<notin> set (ids m) \<and> username u' = username u \<and> password u' = password u \<and>
        nickname u' = nickname u \<and> birthday u' = 19900101 \<and> base_user_id m' = base_user_id m + 1
     else all_cached_users m' = all_cached_users m \<and> u' = u \<and>
        base_user_id m' \<in> {base_user_id m, base_user_id m + 1})"
proof -
  note n = next_user_id [OF assms]
  have wf: "um_wf (fst (snd (snd (addUser db u m d))))"
    using addUser_wf [OF assms] by (metis prod.collapse)
  show ?thesis using addUser_cases [of db m d u]
  proof cases
    case no_connection
    then show ?thesis using wf by simp
  next
    case rejected
    then show ?thesis using wf n by simp
  next
    case added
    then show ?thesis using wf n by simp
  qed
qed

theorem addUser_fresh_witness:
  "case addUser (table_db [] []) (new_user \<lparr>j_userid = 1, j_facetype = 2, j_gender = 3, j_birthday = 4,
      j_ownerid = 5\<rparr>) UserManager [] of (ok, u', m', d') \<Rightarrow>
    um_wf m' \<and> (if ok then all_cached_users m' = [u'] \<and> userid u' = 1 else all_cached_users m' = [])"
proof -
  have "base_user_id UserManager + 1 < GROUPID_BOUBDARY" "all_cached_users UserManager = []"
    "base_user_id UserManager = 0"
    by (simp_all add: UserManager_def GROUPID_BOUBDARY_def)
  then show ?thesis
    using addUser_fresh [OF UserManager_wf, where db = "table_db [] []" and d = "[]" and u = "new_user \<lparr>j_userid = 1, j_facetype = 2,
      j_gender = 3, j_birthday = 4, j_ownerid = 5\<rparr>"]
    by (auto split: prod.splits if_splits)
qed

text \<open>
  \<^verbatim>\<open>updateUserRelationshipInMemory\<close> with \<^verbatim>\<open>FRIEND_OPERATION_ADD\<close> succeeds exactly for
  two different cached users, makes them friends of each other and nobody else; deleting
  them again restores the manager; \<^verbatim>\<open>addFriendToUser\<close>, with its early return, does the same.
\<close>

theorem friendship_add_delete:
  assumes "um_wf m" and "u \<noteq> t" and "\<not> isFriend u t m" and "\<not> isFriend t u m"
    and "updateUserRelationshipInMemory u t FRIEND_OPERATION_ADD m = (ok, m')"
  shows "ok = (u \<in> set (ids m) \<and> t \<in> set (ids m)) \<and>
    (ok \<longrightarrow> (\<forall>a b. isFriend a b m' \<longleftrightarrow> isFriend a b m \<or> a = u \<and> b = t \<or> a = t \<and> b = u)) \<and>
    (ok \<longrightarrow> updateUserRelationshipInMemory u t FRIEND_OPERATION_DELETE m' = (True, m)) \<and>
    addFriendToUser u t m = (ok, m')"
proof -
  have m': "m' = m\<lparr>all_cached_users := map (link u t) (all_cached_users m)\<rparr>"
    and ok: "ok \<longleftrightarrow> u \<in> set (ids m) \<and> t \<in> set (ids m)"
    using assms(2,5) by (auto simp: add_relationship_eq)
  have fr: "isFriend a b m' \<longleftrightarrow> isFriend a b m \<or> a = u \<and> b = t \<or> a = t \<and> b = u" if ok for a b
    using that ok assms(2) unfolding m' isFriend_link by auto
  have "map (unlink u t \<circ> link u t) (all_cached_users m) = all_cached_users m"
    using unlink_link [OF _ assms(3,4,2)] by (intro map_idI) simp
  then have "updateUserRelationshipInMemory u t FRIEND_OPERATION_DELETE m' = (True, m)" if ok
    using fr [OF that] assms(2) by (simp add: delete_relationship_eq) (simp add: m')
  moreover have "addFriendToUser u t m = (ok, m')"
    using addFriendToUser_eq [of m u t] assms(1,2,5) by (simp add: um_wf_def)
  ultimately show ?thesis using ok fr by blast
qed

definition two_users :: user_manager where
  "two_users = UserManager\<lparr>base_user_id := 2, all_cached_users :=
     [(new_user \<lparr>j_userid = 1, j_facetype = 0, j_gender = 0, j_birthday = 0, j_ownerid = 0\<rparr>)\<lparr>username := ''a''\<rparr>,
      (new_user \<lparr>j_userid = 2, j_facetype = 0, j_gender = 0, j_birthday = 0, j_ownerid = 0\<rparr>)\<lparr>username := ''b''\<rparr>]\<rparr>"

lemma two_users_wf: "um_wf two_users"
  by (simp add: um_wf_def two_users_def UserManager_def new_user_def GROUPID_BOUBDARY_def)

theorem friendship_add_delete_witness:
  "\<exists>m'. updateUserRelationshipInMemory 1 2 FRIEND_OPERATION_ADD two_users = (True, m') \<and>
     isFriend 2 1 m' \<and> updateUserRelationshipInMemory 1 2 FRIEND_OPERATION_DELETE m' = (True, two_users)"
proof -
  have h: "\<not> isFriend 1 2 two_users" "\<not> isFriend 2 1 two_users"
    by (simp_all add: isFriend_def two_users_def new_user_def)
  obtain ok m' where a: "updateUserRelationshipInMemory 1 2 FRIEND_OPERATION_ADD two_users = (ok, m')"
    by fastforce
  moreover have "(1::int) \<in> set (ids two_users)" "(2::int) \<in> set (ids two_users)"
    by (simp_all add: two_users_def new_user_def)
  ultimately show ?thesis
    using friendship_add_delete [OF two_users_wf _ h a] by simp
qed

text \<open>
  deleting a friendship removes both directions and nothing else, and reports whether
  both were there, provided no list names a friend twice.
\<close>

theorem friendship_delete:
  assumes "friends_distinct m" and "u \<noteq> t"
    and "updateUserRelationshipInMemory u t FRIEND_OPERATION_DELETE m = (ok, m')"
  shows "ok = (isFriend u t m \<and> isFriend t u m) \<and>
    (\<forall>a b. isFriend a b m' \<longleftrightarrow> isFriend a b m \<and> \<not> (a = u \<and> b = t) \<and> \<not> (a = t \<and> b = u))"
  using assms(3) isFriend_unlink [OF assms(1,2)] delete_relationship_eq [OF assms(2), of m] by auto

theorem friendship_delete_witness:
  "\<exists>m'. updateUserRelationshipInMemory 1 2 FRIEND_OPERATION_DELETE two_users = (False, m') \<and> \<not> isFriend 1 2 m'"
proof -
  have h: "friends_distinct two_users"
    by (simp add: friends_distinct_def two_users_def new_user_def)
  obtain ok m' where a: "updateUserRelationshipInMemory 1 2 FRIEND_OPERATION_DELETE two_users = (ok, m')"
    by fastforce
  have "\<not> isFriend 1 2 two_users" by (simp add: isFriend_def two_users_def new_user_def)
  then show ?thesis using friendship_delete [OF h _ a] a by auto
qed

text \<open>
  \<^verbatim>\<open>releaseFriendRelationshipInDBAndMemory\<close> never changes the cached users, also when
  it reports success: two users stay friends in memory until the next start. The loop of
  \<^verbatim>\<open>deleteFriendToUser\<close> erases from copies.
\<close>

theorem release_keeps_memory:
  assumes "releaseFriendRelationshipInDBAndMemory db u t m d = (ok, m', d')"
  shows "m' = m \<and> (\<forall>a b. isFriend a b m' = isFriend a b m)"
  using assms
  by (auto simp: releaseFriendRelationshipInDBAndMemory_def deleteFriendToUser_def Let_def
      split: prod.splits bool.splits if_splits)

theorem release_keeps_memory_witness:
  "\<exists>m. fst (releaseFriendRelationshipInDBAndMemory (table_db [] []) 1 2 m []) \<and>
     isFriend 1 2 (fst (snd (releaseFriendRelationshipInDBAndMemory (table_db [] []) 1 2 m [])))"
proof -
  define m where "m = snd (updateUserRelationshipInMemory 1 2 FRIEND_OPERATION_ADD two_users)"
  obtain ok m' d' where r: "releaseFriendRelationshipInDBAndMemory (table_db [] []) 1 2 m [] = (ok, m', d')"
    by (metis prod_cases3)
  have "ok" using r
    by (simp add: releaseFriendRelationshipInDBAndMemory_def m_def add_relationship_eq connect_def table_db_def
        deleteFriendToUser_def two_users_def UserManager_def new_user_def link_def default_friend_def has_friend_def)
  moreover have "isFriend 1 2 m"
    by (simp add: m_def add_relationship_eq isFriend_link) (simp add: two_users_def new_user_def)
  ultimately show ?thesis using release_keeps_memory [OF r] r by (intro exI [of _ m]) simp
qed

text \<open>
  C32: when the database answers the relationship query of each user from one table, as the
  statement asks, the friend lists \<^verbatim>\<open>init\<close> builds are exactly the pairs of that table,
  read in both directions, so friendship among the cached users is symmetric.
\<close>

theorem init_friends_symmetric:
  assumes "\<And>a b c e d. fst (initialize db a b c e d)"
    and "\<And>uid d. fst (query db (sql_load_relationship uid) d) = Some (filter (row_mentions uid) rels)"
    and "um_init db j srv usr pw nm UserManager d = (True, m, d')"
  shows "(\<forall>a\<in>set (ids m). \<forall>b. isFriend a b m \<longleftrightarrow>
      (\<exists>r\<in>set rels. getInt32 (r 0) = a \<and> getInt32 (r 1) = b \<or> getInt32 (r 0) = b \<and> getInt32 (r 1) = a)) \<and>
    friends_sym m"
proof -
  define m1 where "m1 = UserManager\<lparr>db_server := srv, db_user_name := usr,
     db_password := (case pw of None \<Rightarrow> db_password UserManager | Some p \<Rightarrow> p), db_name := nm\<rparr>"
  obtain m2 d2 where l: "loadUsersFromDb db j m1 d = (True, m2, d2)"
    and m: "m = m2\<lparr>all_cached_users := fst (load_relationships db m2 (all_cached_users m2) d2)\<rparr>"
    using assms(3) by (auto simp: um_init_def m1_def [symmetric] Let_def split: prod.splits bool.splits)
  obtain rows where "m2 = fold (load_user j) rows m1"
    using l by (auto simp: loadUsersFromDb_def split: prod.splits bool.splits option.splits)
  then have nof: "friends u = []" if "u \<in> set (all_cached_users m2)" for u
    using that by (auto simp: load_users_cached m1_def UserManager_def)
  have us: "all_cached_users m = map (\<lambda>u. u\<lparr>friends := friends u @
      map (row_friend (userid u)) (filter (row_mentions (userid u)) rels)\<rparr>) (all_cached_users m2)"
    using load_relationships_map [of db m2 "\<lambda>uid. filter (row_mentions uid) rels"] assms(1,2)
    by (simp add: m connect_def)
  have fr: "isFriend a b m \<longleftrightarrow>
      (\<exists>r\<in>set rels. getInt32 (r 0) = a \<and> getInt32 (r 1) = b \<or> getInt32 (r 0) = b \<and> getInt32 (r 1) = a)"
    if "a \<in> set (ids m)" for a b
    using that nof by (auto simp: isFriend_iff us has_friend_rows)
  then have "friends_sym m" by (auto simp: friends_sym_def)
  then show ?thesis using fr by blast
qed

text \<open>A table of one user pair and a database that serves it.\<close>

definition int_row :: "int list \<Rightarrow> row" where
  "int_row xs = (\<lambda>k. \<lparr>getInt32 = (if k < length xs then xs ! k else 0), getString = [], getCppString = []\<rparr>)"

definition pair_db :: "string list database" where
  "pair_db =
     \<lparr>initialize = (\<lambda>_ _ _ _ d. (True, d)),
      query = (\<lambda>sql d.
        (Some (if sql = sql_load_users then [int_row [2], int_row [1]]
               else if sql \<in> {sql_load_relationship 1, sql_load_relationship 2} then [int_row [1, 2]] else []), d)),
      execute = (\<lambda>sql d. (True, d @ [sql]))\<rparr>"

lemma sql_load_relationship_inj:
  assumes "sql_load_relationship uid = sql_load_relationship (int n)" and "n < 10"
  shows "uid = int n"
proof -
  define P where "P = ''SELECT f_user_id1, f_user_id2, f_user1_markname, f_user2_markname, f_user1_teamname, f_user2_teamname FROM t_user_relationship WHERE f_user_id1 = ''"
  have lp: "length P < 200" by (simp add: P_def)
  have blank: "takeWhile (\<lambda>c. c \<noteq> CHR '' '') (drop (length P) (sql_load_relationship i)) =
      take (255 - length P) (dec_int i)" for i
  proof -
    have "drop (length P) (sql_load_relationship i) =
        take (255 - length P) (dec_int i @ CHR '' '' # (''OR f_user_id2 = '' @ dec_int i @ '' ''))"
      using lp unfolding sql_load_relationship_def P_def [symmetric] snprintf_def by (simp add: drop_take)
    moreover have "\<forall>c\<in>set (dec_int i). c \<noteq> CHR '' ''" using dec_int_no_blank by metis
    ultimately show ?thesis by (simp only: takeWhile_take) simp
  qed
  have d: "dec_int (int n) = [digit_char n]" using assms(2) by (simp add: dec_int_def dec_nat.simps)
  have "take (255 - length P) (dec_int uid) = dec_nat n"
    using blank [of uid] blank [of "int n"] assms d lp by (simp add: dec_nat.simps)
  moreover from this have "length (take (255 - length P) (dec_int uid)) = 1"
    using assms(2) by (simp add: dec_nat.simps)
  then have "length (dec_int uid) \<le> 255 - length P" using lp by (simp add: min_def split: if_splits)
  ultimately have "dec_int uid = dec_nat n" by simp
  then show ?thesis by (rule dec_int_nonneg_inj)
qed

theorem init_friends_symmetric_witness:
  "\<exists>m d'. um_init pair_db \<lparr>j_userid = 0, j_facetype = 0, j_gender = 0, j_birthday = 0, j_ownerid = 0\<rparr>
      ''h'' ''u'' None ''n'' UserManager [] = (True, m, d') \<and> friends_sym m \<and> isFriend 2 1 m"
proof -
  let ?j = "\<lparr>j_userid = 0, j_facetype = 0, j_gender = 0, j_birthday = 0, j_ownerid = 0\<rparr>"
  have i: "fst (initialize pair_db a b c e d)" for a b c e d by (simp add: pair_db_def)
  have nu: "sql_load_relationship uid \<noteq> sql_load_users" for uid
    by (simp add: sql_load_relationship_def sql_load_users_def snprintf_def)
  have q: "fst (query pair_db (sql_load_relationship uid) d) = Some (filter (row_mentions uid) [int_row [1, 2]])"
    for uid d
    using sql_load_relationship_inj [of uid 1] sql_load_relationship_inj [of uid 2] nu [of uid]
    by (auto simp: pair_db_def row_mentions_def int_row_def)
  obtain ok m d' where r: "um_init pair_db ?j ''h'' ''u'' None ''n'' UserManager [] = (ok, m, d')"
    by (metis prod_cases3)
  have "ok" using r by (simp add: um_init_def loadUsersFromDb_def connect_def pair_db_def Let_def case_prod_beta)
  then have r': "um_init pair_db ?j ''h'' ''u'' None ''n'' UserManager [] = (True, m, d')" using r by simp
  have "2 \<in> set (ids m)"
    using r' load_relationships_ids [of pair_db _ _ "[]"]
    by (auto simp: um_init_def loadUsersFromDb_def connect_def pair_db_def Let_def case_prod_beta
        load_users_cached int_row_def UserManager_def)
  then show ?thesis using init_friends_symmetric [OF i q r'] r' by (auto simp: int_row_def)
qed

text \<open>
  a markname that \<^verbatim>\<open>updateMarknameInDb\<close> stored is what
  \<^verbatim>\<open>getFriendMarknameByUserId\<close> returns for that pair; the marknames of all other pairs,
  the other direction of the friendship included, stay as they were.
\<close>

theorem markname_read_back:
  assumes "updateMarknameInDb db u f n m d = (ok, m', d')"
  shows "(ok \<longrightarrow> getFriendMarknameByUserId u f m' = Some n) \<and>
    (\<forall>a b. (a, b) \<noteq> (u, f) \<longrightarrow> getFriendMarknameByUserId a b m' = getFriendMarknameByUserId a b m)"
proof -
  have "\<not> ok \<and> m' = m \<or>
      ok = fst (markname_loop u f n (all_cached_users m)) \<and>
      m' = m\<lparr>all_cached_users := snd (markname_loop u f n (all_cached_users m))\<rparr>"
    using assms by (auto simp: updateMarknameInDb_def Let_def case_prod_beta split: prod.splits bool.splits)
  then show ?thesis
    using markname_loop_search [of u f n "all_cached_users m"]
      markname_loop_frame [of _ _ u f n "all_cached_users m"]
    by (auto simp: getFriendMarknameByUserId_def)
qed

theorem markname_read_back_witness:
  "getFriendMarknameByUserId 1 2 (fst (snd (updateMarknameInDb (table_db [] []) 1 2 ''bob''
     (snd (updateUserRelationshipInMemory 1 2 FRIEND_OPERATION_ADD two_users)) []))) = Some ''bob''"
proof -
  define m where "m = snd (updateUserRelationshipInMemory 1 2 FRIEND_OPERATION_ADD two_users)"
  obtain ok m' d' where r: "updateMarknameInDb (table_db [] []) 1 2 ''bob'' m [] = (ok, m', d')"
    by (metis prod_cases3)
  have "ok" using r
    by (simp add: updateMarknameInDb_def m_def add_relationship_eq run_sql_def connect_def table_db_def
        two_users_def UserManager_def new_user_def link_def default_friend_def)
  then show ?thesis using markname_read_back [OF r] r by (simp add: m_def)
qed

text \<open>
  \<^verbatim>\<open>deleteTeam\<close> on a known user sends two statements and then moves exactly the
  friends of that team to the default team: ids and marknames keep their order, no friend is
  left in the deleted team, every other user is untouched.
\<close>

theorem deleteTeam_moves:
  assumes "um_wf m" and "deleteTeam db uid team m d = (True, m', d')"
  shows "uid \<in> set (ids m) \<and> ids m' = ids m \<and>
    (\<forall>i<length (all_cached_users m).
       let u = all_cached_users m ! i; u' = all_cached_users m' ! i
       in if userid u = uid
          then u' = u\<lparr>friends := friends u'\<rparr> \<and> map friendid (friends u') = map friendid (friends u) \<and>
               map markname (friends u') = map markname (friends u) \<and>
               map teamname (friends u') =
                 map (\<lambda>t. if t = team then DEFAULT_TEAMNAME else t) (map teamname (friends u))
          else u' = u)"
proof -
  let ?f = "rename_team team DEFAULT_TEAMNAME" and ?us = "all_cached_users m"
  have r: "update_cached uid ?f m = (True, m')"
    using assms(2) by (auto simp: deleteTeam_def split: prod.splits bool.splits)
  have "uid \<in> set (ids m)"
    using r update_user_flag [of uid ?f ?us] by (auto simp: update_cached_def split: prod.splits)
  moreover have us: "all_cached_users m' = map (\<lambda>u. if userid u = uid then ?f u else u) ?us"
    using r update_user_map [of ?us uid ?f] assms(1)
    by (auto simp: update_cached_def um_wf_def split: prod.splits)
  moreover have "ids m' = ids m" by (simp add: us)
  ultimately show ?thesis by (simp add: rename_team_def Let_def)
qed

theorem deleteTeam_moves_witness:
  "\<exists>m'. ids m' = [1, 2] \<and> deleteTeam (table_db [] []) 1 ''x'' two_users [] =
     (True, m', [sql_rename_team 1 1 DEFAULT_TEAMNAME ''x'', sql_rename_team 2 1 DEFAULT_TEAMNAME ''x''])"
proof -
  have "\<exists>m'. deleteTeam (table_db [] []) 1 ''x'' two_users [] =
     (True, m', [sql_rename_team 1 1 DEFAULT_TEAMNAME ''x'', sql_rename_team 2 1 DEFAULT_TEAMNAME ''x''])"
    unfolding deleteTeam_def run_sql_def connect_def table_db_def update_cached_def
    using dec_int_no_nul [of 1] dec_int_no_nul [of 2]
    by (auto simp: c_str_def sql_rename_team_def DEFAULT_TEAMNAME_def two_users_def new_user_def quote_def
        takeWhile_eq_all_conv dec_int_def)
  then obtain m' where m': "deleteTeam (table_db [] []) 1 ''x'' two_users [] =
     (True, m', [sql_rename_team 1 1 DEFAULT_TEAMNAME ''x'', sql_rename_team 2 1 DEFAULT_TEAMNAME ''x''])" by blast
  then have "ids m' = ids two_users" using deleteTeam_moves [OF two_users_wf m'] by simp
  then show ?thesis using m' by (simp add: two_users_def new_user_def)
qed

end
