(* ===== verification/Bussiness_Logic.thy ===== *)
theory Bussiness_Logic
  imports User_Manager
begin

text \<open>
  \<^verbatim>\<open>BussinessLogic::register_user\<close> of \<^verbatim>\<open>service/bussiness_logic.cpp\<close>, a client of the
  user manager. The JSON library is the parameter \<open>js\<close>: parsing text, member access (which
  throws on a value that is no object, \<^const>\<open>None\<close>), and the two string accessors. The
  function returns \<^const>\<open>None\<close> when such an exception leaves it, and otherwise the text in
  \<^verbatim>\<open>retData\<close> with the manager and the database.
\<close>

record 'j json_api =
  json_parse :: "string \<Rightarrow> bool \<times> 'j \<times> string"
  json_member :: "'j \<Rightarrow> string \<Rightarrow> 'j option"
  json_isString :: "'j \<Rightarrow> bool"
  json_asString :: "'j \<Rightarrow> string"

definition dquote :: string where "dquote = [CHR 0x22]"

definition json_reply :: "string \<Rightarrow> string \<Rightarrow> string" where
  "json_reply code msg =
     ''{'' @ dquote @ ''code'' @ dquote @ '': '' @ code @ '', '' @ dquote @ ''msg'' @ dquote @ '': '' @
     dquote @ msg @ dquote @ ''}''"

text \<open>The three members the handler asks for; \<open>Some None\<close> is the early return on a non-string.\<close>

definition read_members :: "'j json_api \<Rightarrow> 'j \<Rightarrow> (string \<times> string \<times> string) option option" where
  "read_members js root =
     (case json_member js root ''username'' of
        None \<Rightarrow> None
      | Some a \<Rightarrow>
          if \<not> json_isString js a then Some None
          else case json_member js root ''nickname'' of
                 None \<Rightarrow> None
               | Some b \<Rightarrow>
                   if \<not> json_isString js b then Some None
                   else case json_member js root ''password'' of
                          None \<Rightarrow> None
                        | Some c \<Rightarrow>
                            if \<not> json_isString js c then Some None
                            else Some (Some (json_asString js a, json_asString js b, json_asString js c)))"

definition register_user ::
  "'d database \<Rightarrow> 'j json_api \<Rightarrow> junk \<Rightarrow> string \<Rightarrow> string \<Rightarrow> user_manager \<Rightarrow> 'd \<Rightarrow>
     (string \<times> user_manager \<times> 'd) option" where
  "register_user db js jk data retData m d =
     (case json_parse js data of
        (ok, jsonRoot, errs) \<Rightarrow>
          if \<not> ok \<or> errs \<noteq> [] then Some (retData, m, d)
          else case read_members js jsonRoot of
                 None \<Rightarrow> None
               | Some None \<Rightarrow> Some (retData, m, d)
               | Some (Some (name, nick, pass)) \<Rightarrow>
                   let u = (new_user jk)\<lparr>username := name, nickname := nick, password := pass\<rparr>;
                       cached_userid = (case getUserInfoByUsername name m of
                                          None \<Rightarrow> 0 | Some c \<Rightarrow> userid c)
                   in if cached_userid \<noteq> 0
                      then Some (json_reply ''101'' ''registered already'', m, d)
                      else case addUser db u m d of
                             (False, _, m1, d1) \<Rightarrow> Some (json_reply ''100'' ''register failed'', m1, d1)
                           | (True, _, m1, d1) \<Rightarrow> Some (json_reply ''0'' ''ok'', m1, d1))"

section \<open>Registration as the directory contract sees it\<close>

definition reply_of :: "nat \<Rightarrow> string" where
  "reply_of code =
     (if code = 101 then json_reply ''101'' ''registered already''
      else if code = 100 then json_reply ''100'' ''register failed'' else json_reply ''0'' ''ok'')"

text \<open>A request the JSON library accepts and that carries the three strings.\<close>

definition well_formed :: "'j json_api \<Rightarrow> string \<Rightarrow> string \<Rightarrow> string \<Rightarrow> string \<Rightarrow> bool" where
  "well_formed js data name nick pass \<longleftrightarrow>
     (case json_parse js data of
        (ok, root, errs) \<Rightarrow> ok \<and> errs = [] \<and> read_members js root = Some (Some (name, nick, pass)))"

definition request_user :: "junk \<Rightarrow> string \<Rightarrow> string \<Rightarrow> string \<Rightarrow> user" where
  "request_user jk name nick pass = (new_user jk)\<lparr>username := name, nickname := nick, password := pass\<rparr>"

lemma username_request [simp]:
  "username (request_user jk name nick pass) = name"
  "password (request_user jk name nick pass) = pass"
  "nickname (request_user jk name nick pass) = nick"
  by (simp_all add: request_user_def)

lemma register_user_signup:
  assumes "well_formed js data name nick pass"
  shows "register_user db js jk data ret m d =
    (case um.signup db (request_user jk name nick pass) (m, d) of (code, m', d') \<Rightarrow> Some (reply_of code, m', d'))"
proof -
  obtain root where r: "json_parse js data = (True, root, [])"
    "read_members js root = Some (Some (name, nick, pass))"
    using assms by (auto simp: well_formed_def)
  let ?id = "case getUserInfoByUsername name m of None \<Rightarrow> 0 | Some c \<Rightarrow> userid c"
  show ?thesis
  proof (cases "?id \<noteq> 0")
    case True
    then show ?thesis using r
      by (simp add: register_user_def um.signup_def request_user_def reply_of_def)
  next
    case False
    then show ?thesis using r
      by (cases "addUser db (request_user jk name nick pass) m d")
        (auto simp: register_user_def um.signup_def request_user_def reply_of_def directory_add_def
          split: bool.split)
  qed
qed

lemma reply_of_inj [simp]:
  "reply_of code = json_reply ''0'' ''ok'' \<longleftrightarrow> code \<noteq> 101 \<and> code \<noteq> 100"
  by (simp add: reply_of_def json_reply_def dquote_def)

lemma signup_code: "fst (um.signup db u s) \<in> {0, 100, 101}"
  by (auto simp: um.signup_def case_prod_beta)

lemma register_ok_signup:
  assumes "well_formed js data name nick pass"
    and "register_user db js jk data ret m d = Some (json_reply ''0'' ''ok'', m', d')"
  shows "um.signup db (request_user jk name nick pass) (m, d) = (0, m', d')"
proof -
  obtain code m1 d1 where s: "um.signup db (request_user jk name nick pass) (m, d) = (code, m1, d1)"
    by (metis prod_cases3)
  have "code \<in> {0, 100, 101}" using signup_code [of db "request_user jk name nick pass" "(m, d)"] s by simp
  then show ?thesis using assms(2) s register_user_signup [OF assms(1), of db jk ret m d] by auto
qed

lemma register_known:
  assumes "well_formed js data name nick pass" and "directory_inv (m, d)"
    and "getUserInfoByUsername name m = Some c"
  shows "register_user db js jk data ret m d = Some (json_reply ''101'' ''registered already'', m, d)"
  using register_user_signup [OF assms(1), of db jk ret m d]
    um.signup_known [OF assms(2), of "request_user jk name nick pass" c] assms(3)
  by (simp add: reply_of_def)

section \<open>Properties\<close>


text \<open>
  A reader for the witness: every text parses as an object whose members are the text itself.
\<close>

definition echo_json :: "string json_api" where
  "echo_json = \<lparr>json_parse = (\<lambda>s. (True, s, [])), json_member = (\<lambda>j k. Some j),
     json_isString = (\<lambda>_. True), json_asString = (\<lambda>j. j)\<rparr>"


text \<open>
  every answer of \<^verbatim>\<open>register_user\<close>: a request that does not parse or lacks a string
  member leaves the reply, the manager and the database alone; otherwise the reply is one of
  the three codes, and a user is cached exactly when the code is 0.
\<close>

theorem register_user_answers:
  assumes "register_user db js jk data ret m d = Some (ret', m', d')"
  shows "(if \<exists>name nick pass. well_formed js data name nick pass
    then (ret' \<in> {json_reply ''101'' ''registered already'', json_reply ''100'' ''register failed''} \<and>
            all_cached_users m' = all_cached_users m) \<or>
         (ret' = json_reply ''0'' ''ok'' \<and> (\<exists>u. all_cached_users m' = all_cached_users m @ [u] \<and>
            well_formed js data (username u) (nickname u) (password u)))
    else ret' = ret \<and> m' = m \<and> d' = d)"
proof (cases "\<exists>name nick pass. well_formed js data name nick pass")
  case True
  then obtain name nick pass where w: "well_formed js data name nick pass" by blast
  let ?u = "request_user jk name nick pass"
  obtain code where s: "um.signup db ?u (m, d) = (code, m', d')" and ret: "ret' = reply_of code"
    using assms register_user_signup [OF w, of db jk ret m d] by (auto split: prod.splits)
  consider "code = 101" "m' = m" | ok u' where "addUser db ?u m d = (ok, u', m', d')" "code = (if ok then 0 else 100)"
    using s by (cases "addUser db ?u m d") (auto simp: um.signup_def directory_add_def split: if_splits)
  then show ?thesis
  proof cases
    case 1
    then show ?thesis using True ret by (simp add: reply_of_def)
  next
    case 2
    show ?thesis
    proof (cases ok)
      case ok: True
      then have a: "addUser db ?u m d = (True, u', m', d')" using 2(1) by simp
      show ?thesis using True w ok 2(2) ret addUser_true [OF a] by (auto simp: reply_of_def)
    next
      case False
      then have "all_cached_users m' = all_cached_users m"
        using addUser_false 2(1) by simp
      then show ?thesis using True False 2(2) ret by (simp add: reply_of_def)
    qed
  qed
next
  case False
  then show ?thesis using assms
    by (auto simp: register_user_def well_formed_def Let_def split: prod.splits if_splits option.splits)
qed

theorem register_user_answers_witness:
  "\<exists>ret' m' d'. register_user (table_db [] []) echo_json \<lparr>j_userid = 0, j_facetype = 0, j_gender = 0, j_birthday = 0,
       j_ownerid = 0\<rparr> ''eve'' [] UserManager [] = Some (ret', m', d') \<and> length (all_cached_users m') \<le> 1"
proof -
  let ?j = "\<lparr>j_userid = 0, j_facetype = 0, j_gender = 0, j_birthday = 0, j_ownerid = 0\<rparr>"
  obtain ret' m' d' where r: "register_user (table_db [] []) echo_json ?j ''eve'' [] UserManager [] = Some (ret', m', d')"
    by (simp add: register_user_def echo_json_def read_members_def getUserInfoByUsername_def UserManager_def
        addUser_def connect_def table_db_def Let_def)
  have "all_cached_users UserManager = []" by (simp add: UserManager_def)
  then show ?thesis using register_user_answers [OF r] r by (auto split: if_splits)
qed

end
