(* ===== verification/Chat_Msg.thy ===== *)
theory Chat_Msg
  imports Tcp_Session Bussiness_Logic
begin

text \<open>
  The protocol constants of \<^verbatim>\<open>common/msg.h\<close>: the enumerations with their numbers, and what
  they give on the wire. The header of a package, \<^verbatim>\<open>chat_msg_header\<close>, is in \<open>Tcp_Session\<close>.
  An enumerator without a number is one more than its predecessor. The sources have no
  receiver yet; \<open>read_messages\<close> is the reference a receiver of a stream of packages has to
  meet: cut the stream at the sizes in the headers and read each package.
\<close>

section \<open>Enumerations\<close>

datatype package_flag =
  PACKAGE_UNCOMPRESSED
| PACKAGE_COMPRESSED

fun package_flag_num :: "package_flag \<Rightarrow> int" where
  "package_flag_num PACKAGE_UNCOMPRESSED = 0"
| "package_flag_num PACKAGE_COMPRESSED = 1"

datatype msg_type =
  msg_type_unknown
| msg_type_heartbeat
| msg_type_register
| msg_type_login
| msg_type_getofriendlist
| msg_type_finduser
| msg_type_operatefriend
| msg_type_userstatuschange
| msg_type_updateuserinfo
| msg_type_modifypassword
| msg_type_creategroup
| msg_type_getgroupmembers
| msg_type_chat
| msg_type_multichat
| msg_type_kickuser
| msg_type_remotedesktop
| msg_type_updateteaminfo
| msg_type_modifyfriendmarkname
| msg_type_movefriendtootherteam

fun msg_type_num :: "msg_type \<Rightarrow> int" where
  "msg_type_num msg_type_unknown = 0"
| "msg_type_num msg_type_heartbeat = 1000"
| "msg_type_num msg_type_register = 1001"
| "msg_type_num msg_type_login = 1002"
| "msg_type_num msg_type_getofriendlist = 1003"
| "msg_type_num msg_type_finduser = 1004"
| "msg_type_num msg_type_operatefriend = 1005"
| "msg_type_num msg_type_userstatuschange = 1006"
| "msg_type_num msg_type_updateuserinfo = 1007"
| "msg_type_num msg_type_modifypassword = 1008"
| "msg_type_num msg_type_creategroup = 1009"
| "msg_type_num msg_type_getgroupmembers = 1010"
| "msg_type_num msg_type_chat = 1100"
| "msg_type_num msg_type_multichat = 1101"
| "msg_type_num msg_type_kickuser = 1102"
| "msg_type_num msg_type_remotedesktop = 1103"
| "msg_type_num msg_type_updateteaminfo = 1104"
| "msg_type_num msg_type_modifyfriendmarkname = 1105"
| "msg_type_num msg_type_movefriendtootherteam = 1106"

datatype online_type =
  online_type_offline
| online_type_pc_online
| online_type_pc_invisible
| online_type_android_cellular
| online_type_android_wifi
| online_type_ios
| online_type_mac

fun online_type_num :: "online_type \<Rightarrow> int" where
  "online_type_num online_type_offline = 0"
| "online_type_num online_type_pc_online = 1"
| "online_type_num online_type_pc_invisible = 2"
| "online_type_num online_type_android_cellular = 3"
| "online_type_num online_type_android_wifi = 4"
| "online_type_num online_type_ios = 5"
| "online_type_num online_type_mac = 6"

datatype friend_operation_type =
  friend_operation_send_add_apply
| friend_operation_recv_add_apply
| friend_operation_reply_add_apply
| friend_operation_send_delete_apply
| friend_operation_recv_delete_apply

fun friend_operation_num :: "friend_operation_type \<Rightarrow> int" where
  "friend_operation_num friend_operation_send_add_apply = 1"
| "friend_operation_num friend_operation_recv_add_apply = 2"
| "friend_operation_num friend_operation_reply_add_apply = 3"
| "friend_operation_num friend_operation_send_delete_apply = 4"
| "friend_operation_num friend_operation_recv_delete_apply = 5"

datatype friend_operation_apply_type =
  friend_operation_apply_refuse
| friend_operation_apply_accept

fun friend_operation_apply_num :: "friend_operation_apply_type \<Rightarrow> int" where
  "friend_operation_apply_num friend_operation_apply_refuse = 0"
| "friend_operation_apply_num friend_operation_apply_accept = 1"

datatype updateteaminfo_operation_type =
  updateteaminfo_operation_add
| updateteaminfo_operation_delete
| updateteaminfo_operation_modify

fun updateteaminfo_operation_num :: "updateteaminfo_operation_type \<Rightarrow> int" where
  "updateteaminfo_operation_num updateteaminfo_operation_add = 0"
| "updateteaminfo_operation_num updateteaminfo_operation_delete = 1"
| "updateteaminfo_operation_num updateteaminfo_operation_modify = 2"

datatype error_code =
  error_code_ok
| error_code_unknown
| error_code_notlogin
| error_code_registerfail
| error_code_registeralready
| error_code_notregister
| error_code_invalidpassword
| error_code_updateuserinfofail
| error_code_modifypasswordfail
| error_code_creategroupfail
| error_code_toooldversion
| error_code_modifymarknamefail
| error_code_teamname_exist

fun error_code_num :: "error_code \<Rightarrow> int" where
  "error_code_num error_code_ok = 0"
| "error_code_num error_code_unknown = 1"
| "error_code_num error_code_notlogin = 2"
| "error_code_num error_code_registerfail = 100"
| "error_code_num error_code_registeralready = 101"
| "error_code_num error_code_notregister = 102"
| "error_code_num error_code_invalidpassword = 103"
| "error_code_num error_code_updateuserinfofail = 104"
| "error_code_num error_code_modifypasswordfail = 105"
| "error_code_num error_code_creategroupfail = 106"
| "error_code_num error_code_toooldversion = 107"
| "error_code_num error_code_modifymarknamefail = 108"
| "error_code_num error_code_teamname_exist = 109"

definition msg_types :: "msg_type list" where
  "msg_types =
     [msg_type_unknown, msg_type_heartbeat, msg_type_register, msg_type_login,
      msg_type_getofriendlist, msg_type_finduser, msg_type_operatefriend, msg_type_userstatuschange,
      msg_type_updateuserinfo, msg_type_modifypassword, msg_type_creategroup, msg_type_getgroupmembers,
      msg_type_chat, msg_type_multichat, msg_type_kickuser, msg_type_remotedesktop,
      msg_type_updateteaminfo, msg_type_modifyfriendmarkname, msg_type_movefriendtootherteam]"

text \<open>The command a number stands for.\<close>

definition msg_type_of :: "int \<Rightarrow> msg_type option" where
  "msg_type_of i = find (\<lambda>m. msg_type_num m = i) msg_types"

section \<open>Streams of packages\<close>

text \<open>One message: result of the write, command, sequence number and data.\<close>

type_synonym message = "(int \<times> int) \<times> msg_type \<times> i32 \<times> byte list"

fun send_message ::
  "'k epoll_ctl \<Rightarrow> zlib \<Rightarrow> byte list \<Rightarrow> byte list \<Rightarrow> message \<Rightarrow> 'k tcp_session \<Rightarrow> 'k tcp_session" where
  "send_message ctl z junk6 junk ((n, err), m, seq, data) s =
     send_command ctl z junk6 junk (True, n, err) (of_int (msg_type_num m)) seq data s"

function read_packages :: "zlib \<Rightarrow> byte list \<Rightarrow> byte list list option" where
  "read_packages z bs =
     (if bs = [] then Some []
      else let k = 25 + unat (of_le_bytes (segment 5 9 bs) :: i32)
           in if length bs < k then None
              else case read_package z (take k bs) of
                     None \<Rightarrow> None
                   | Some p \<Rightarrow> map_option ((#) p) (read_packages z (drop k bs)))"
  by auto
termination by (relation "measure (\<lambda>(z, bs). length bs)") auto

definition read_message :: "byte list \<Rightarrow> (msg_type \<times> i32 \<times> byte list) option" where
  "read_message p =
     (case read_command p of
        Some [PInt32 cmd, PInt32 seq, PString data] \<Rightarrow> map_option (\<lambda>m. (m, seq, data)) (msg_type_of (sint cmd))
      | _ \<Rightarrow> None)"

definition read_messages :: "zlib \<Rightarrow> byte list \<Rightarrow> (msg_type \<times> i32 \<times> byte list) option list option" where
  "read_messages z bs = map_option (map read_message) (read_packages z bs)"

text \<open>What zlib documents of sizes: the bound for ten megabytes is below four gigabytes, and is a bound.\<close>

definition zlib_sizes :: "zlib \<Rightarrow> bool" where
  "zlib_sizes z \<longleftrightarrow>
     (\<forall>n \<le> MAX_COMPRESS_BUF_SIZE. compressBound z n < 2 ^ 32) \<and>
     (\<forall>src n d. compress z src n = Some d \<longrightarrow> length d \<le> n)"

section \<open>Lemmas\<close>

lemma msg_type_of_num [simp]: "msg_type_of (msg_type_num m) = Some m"
  by (cases m) (simp_all add: msg_type_of_def msg_types_def)

lemma msg_type_of_Some: "msg_type_of i = Some m \<Longrightarrow> msg_type_num m = i"
  by (auto simp: msg_type_of_def find_Some_iff)

lemma msg_type_num_range: "0 \<le> msg_type_num m \<and> msg_type_num m < 2 ^ 31"
  by (cases m) simp_all

lemma sint_msg_type: "sint (of_int (msg_type_num m) :: i32) = msg_type_num m"
  by (cases m) simp_all

lemma msg_type_num_eq [simp]: "msg_type_num x = msg_type_num y \<longleftrightarrow> x = y"
  by (metis msg_type_of_num option.inject)

lemma package_flag_num_eq [simp]: "package_flag_num x = package_flag_num y \<longleftrightarrow> x = y"
  by (cases x; cases y) simp_all

lemma online_type_num_eq [simp]: "online_type_num x = online_type_num y \<longleftrightarrow> x = y"
  by (cases x; cases y) simp_all

lemma friend_operation_num_eq [simp]: "friend_operation_num x = friend_operation_num y \<longleftrightarrow> x = y"
  by (cases x; cases y) simp_all

lemma friend_operation_apply_num_eq [simp]: "friend_operation_apply_num x = friend_operation_apply_num y \<longleftrightarrow> x = y"
  by (cases x; cases y) simp_all

lemma updateteaminfo_operation_num_eq [simp]: "updateteaminfo_operation_num x = updateteaminfo_operation_num y \<longleftrightarrow> x = y"
  by (cases x; cases y) simp_all

lemma error_code_num_eq [simp]: "error_code_num x = error_code_num y \<longleftrightarrow> x = y"
  by (cases x; cases y) simp_all

text \<open>The codes in the answers of \<^verbatim>\<open>register_user\<close> are those of the enumeration.\<close>

lemma reply_codes:
  "dec_int (error_code_num error_code_ok) = ''0''"
  "dec_int (error_code_num error_code_registerfail) = ''100''"
  "dec_int (error_code_num error_code_registeralready) = ''101''"
  by code_simp+

text \<open>The package of a command, and its place in a stream.\<close>

definition command_package :: "zlib \<Rightarrow> byte list \<Rightarrow> byte list \<Rightarrow> i32 \<Rightarrow> i32 \<Rightarrow> byte list \<Rightarrow> byte list" where
  "command_package z junk6 junk cmd seq data =
     (let p = command_stream junk6 cmd seq data; d = snd (compressBuf z p [])
      in header_bytes \<lparr>compressflag = 1, originsize = of_nat (length p), compresssize = of_nat (length d),
           reserved = junk\<rparr> @ d)"

lemma command_stream_size:
  assumes "length junk6 = 6" and "length data < 10000000"
  shows "command_stream junk6 cmd seq data \<noteq> [] \<and> length (command_stream junk6 cmd seq data) \<le> MAX_COMPRESS_BUF_SIZE"
proof -
  have "length data < 2 ^ 32" using assms(2) by simp
  then obtain h6 where "length h6 = 6"
    "command_stream junk6 cmd seq data = h6 @ concat (map pfield_bytes [PInt32 cmd, PInt32 seq, PString data])"
    using command_stream_eq [OF assms(1), of data cmd seq] by blast
  moreover have "length (enc7 (length data)) \<le> 10" using length_enc7 [of 10 "length data"] assms(2) by simp
  ultimately show ?thesis using assms(2) by (auto simp: MAX_COMPRESS_BUF_SIZE_def)
qed

lemma command_package_facts:
  assumes "zlib_law z" and "zlib_sizes z" and "length junk6 = 6" and "length junk = 16" and "length data < 10000000"
    and pkg_def: "pkg = command_package z junk6 junk cmd seq data"
  shows "send_command ctl z junk6 junk (True, n, err) cmd seq data (TcpSession (Some c)) =
      TcpSession (Some (send ctl True n err pkg c))" (is ?sent)
    and "\<exists>p. read_package z pkg = Some p \<and> read_command p = Some [PInt32 cmd, PInt32 seq, PString data]" (is ?read)
    and "25 + unat (of_le_bytes (segment 5 9 (pkg @ rest)) :: i32) = length pkg" (is ?cut)
    and "25 \<le> length pkg" and "length pkg < 2 ^ 64"
proof -
  let ?p = "command_stream junk6 cmd seq data"
  note size = command_stream_size [OF assms(3,5), of cmd seq]
  obtain d where d: "compressBuf z ?p [] = (True, d)" "uncompress z d (length ?p) = Some ?p"
    using compressBuf_ok [OF assms(1), of ?p "[]"] size by auto
  then have "compress z ?p (compressBound z (length ?p)) = Some d"
    using size by (auto simp: compressBuf_def Let_def split: if_splits option.splits)
  moreover have "compressBound z (length ?p) < 2 ^ 32" using assms(2) size by (simp add: zlib_sizes_def)
  moreover have "compress z ?p (compressBound z (length ?p)) = Some d \<Longrightarrow> length d \<le> compressBound z (length ?p)"
    using assms(2) unfolding zlib_sizes_def by blast
  ultimately have ld: "length d < 2 ^ 32" by simp
  let ?h = "\<lparr>compressflag = 1, originsize = of_nat (length ?p), compresssize = of_nat (length d), reserved = junk\<rparr>"
  have pkg: "pkg = header_bytes ?h @ d" by (simp add: pkg_def command_package_def d(1) Let_def)
  have len: "length (header_bytes ?h) = 25" using assms(4) by (simp add: length_header_bytes)
  show ?sent by (simp add: send_command_def send_pkg_def d(1) TcpSession_def Let_def pkg)
  have "length ?p < 2 ^ 32" using size by (simp add: MAX_COMPRESS_BUF_SIZE_def)
  then have "read_package z pkg = Some ?p"
    unfolding pkg using read_package_header [OF d(2) _ ld, of junk] assms(4) by simp
  moreover have "length data < 2 ^ 32" using assms(5) by simp
  ultimately show ?read using read_command_stream [OF assms(3), of data cmd seq] by blast
  have "segment 5 9 (pkg @ rest) = le_bytes 4 (compresssize ?h)"
    unfolding pkg by (simp add: header_bytes_def segment_def)
  then show ?cut using ld len by (simp add: unat_of_nat pkg)
  show "25 \<le> length pkg" "length pkg < 2 ^ 64" using ld len by (simp_all add: pkg)
qed

lemma read_packages_cons:
  assumes "read_package z pkg = Some p" and "25 + unat (of_le_bytes (segment 5 9 (pkg @ rest)) :: i32) = length pkg"
  shows "read_packages z (pkg @ rest) = map_option ((#) p) (read_packages z rest)"
proof -
  have "pkg @ rest \<noteq> []" using assms(2) by auto
  then show ?thesis using assms by (subst read_packages.simps) (simp add: Let_def)
qed

text \<open>What the socket reports of a write: a count between nothing and the whole package.\<close>

fun sendable :: "zlib \<Rightarrow> byte list \<Rightarrow> byte list \<Rightarrow> message \<Rightarrow> bool" where
  "sendable z junk6 junk ((n, err), m, seq, data) \<longleftrightarrow> length data < 10000000 \<and>
     0 \<le> n \<and> n \<le> int (length (command_package z junk6 junk (of_int (msg_type_num m)) seq data))"

lemma send_messages:
  assumes "zlib_law z" and "zlib_sizes z" and "length junk6 = 6" and "length junk = 16"
    and "list_all (sendable z junk6 junk) msgs" and "stream_inv (c, acc)" and "state c = kConnected"
  shows "\<exists>c' bs. fold (send_message ctl z junk6 junk) msgs (TcpSession (Some c)) = TcpSession (Some c') \<and>
    stream_inv (c', acc @ bs) \<and> state c' = kConnected \<and>
    read_messages z bs = Some (map (\<lambda>(_, msg). Some msg) msgs)"
  using assms(5-7)
proof (induction msgs arbitrary: c acc)
  case Nil
  have "read_packages z [] = Some []" by (subst read_packages.simps) simp
  then show ?case using Nil by (intro exI [of _ c] exI [of _ "[]"]) (simp add: read_messages_def)
next
  case (Cons msg msgs)
  obtain n err m seq data where msg: "msg = ((n, err), m, seq, data)" by (metis prod.collapse)
  let ?pkg = "command_package z junk6 junk (of_int (msg_type_num m)) seq data" and ?cmd = "of_int (msg_type_num m) :: i32"
  have s: "length data < 10000000" "0 \<le> n" "n \<le> int (length ?pkg)" using Cons.prems(1) msg by simp_all
  note f = command_package_facts [OF assms(1-4) s(1) refl, where cmd = ?cmd and seq = seq]
  let ?c = "send ctl True n err ?pkg c"
  have "accepts n err c" using Cons.prems(3) s(2) by (simp add: accepts_def)
  then have "stream_inv (?c, acc @ ?pkg)" "state ?c = kConnected"
    using send_in_loop_inv [OF Cons.prems(2) s(3) f(5), of ctl err] Cons.prems(3) by (simp_all add: send_def)
  then obtain c' bs where r: "fold (send_message ctl z junk6 junk) msgs (TcpSession (Some ?c)) = TcpSession (Some c')"
    "stream_inv (c', (acc @ ?pkg) @ bs)" "state c' = kConnected"
    "read_messages z bs = Some (map (\<lambda>(_, msg). Some msg) msgs)"
    using Cons.IH [of ?c "acc @ ?pkg"] Cons.prems(1) by auto
  obtain p where p: "read_package z ?pkg = Some p" "read_command p = Some [PInt32 ?cmd, PInt32 seq, PString data]"
    using f(2) by blast
  have "read_messages z (?pkg @ bs) = Some (map (\<lambda>(_, msg). Some msg) (msg # msgs))"
    using r(4) read_packages_cons [OF p(1) f(3)] p(2)
    by (auto simp: read_messages_def read_message_def sint_msg_type msg)
  then show ?case using r(1-3) f(1) [of ctl n err c] by (intro exI [of _ c'] exI [of _ "?pkg @ bs"]) (simp add: msg)
qed

section \<open>Properties\<close>

text \<open>
  C12: a conversation keeps its order and its boundaries. Whatever the socket takes of each
  write, the commands sent one after the other through a session on an open connection make
  up, behind what the connection had accepted before, a byte stream from which the sizes in
  the package headers cut exactly those packages, and each package gives back its command
  of the protocol's enumeration, its sequence number and its data.
\<close>

theorem message_stream_round_trip:
  assumes "zlib_law z" and "zlib_sizes z" and "length junk6 = 6" and "length junk = 16"
    and "conn_reachable ctl (c, acc)" and "state c = kConnected" and "list_all (sendable z junk6 junk) msgs"
  shows "\<exists>c' bs. tmp_conn (fold (send_message ctl z junk6 junk) msgs (TcpSession (Some c))) = Some c' \<and>
    wire c' @ outgoing c' = acc @ bs \<and> read_messages z bs = Some (map (\<lambda>(_, msg). Some msg) msgs)"
proof -
  have "stream_inv (c, acc)" by (rule conn_reachable_stream [OF assms(5)])
  from send_messages [OF assms(1-4,7) this assms(6), of ctl] show ?thesis
    by (auto simp: stream_inv_def TcpSession_def)
qed

theorem message_stream_round_trip_witness:
  "\<exists>c' bs. tmp_conn (fold (send_message list_kernel stored (replicate 6 0) (replicate 16 0))
        [((3, 0), msg_type_heartbeat, 0, []), ((0, 0), msg_type_chat, 1, [72, 105])] (TcpSession (Some demo_conn))) = Some c' \<and>
     wire c' @ outgoing c' = bs \<and>
     read_messages stored bs = Some [Some (msg_type_heartbeat, 0, []), Some (msg_type_chat, 1, [72, 105])]"
proof -
  let ?msgs = "[((3, 0), msg_type_heartbeat, 0, []), ((0, 0), msg_type_chat, 1, [72, 105])] :: message list"
  have "zlib_sizes stored" by (auto simp: zlib_sizes_def stored_def MAX_COMPRESS_BUF_SIZE_def split: if_splits)
  moreover have "list_all (sendable stored (replicate 6 0) (replicate 16 0)) ?msgs"
    by (simp add: command_package_def Let_def header_bytes_def)
  ultimately show ?thesis
    using message_stream_round_trip [OF stored_law _ _ _ demo_conn_reachable demo_conn_state(1),
        of "replicate 6 0" "replicate 16 0" ?msgs] by auto
qed

end
