(* ===== verification/Chat_Directory.thy ===== *)
theory Chat_Directory
  imports User_Manager
begin

text \<open>
  What the user manager promises, without its lists, loops and statements: a directory that
  knows for each id a profile, and for each pair of ids the entries (remark and team) the
  first keeps for the second, oldest first. The operations of \<^verbatim>\<open>UserManager\<close> are shown to
  implement it: every call does to the abstract directory what \<open>dir_exec\<close> says and returns
  its flag, or is refused by the database and leaves the directory as it is. Two entries for
  one pair are possible, because the code that adds a friend does not look for one first.
\<close>

section \<open>The abstract directory\<close>

type_synonym entry = "string \<times> string"

record directory =
  profile :: "int \<Rightarrow> user option"
  contacts :: "int \<Rightarrow> int \<Rightarrow> entry list"

definition known :: "directory \<Rightarrow> int \<Rightarrow> bool" where
  "known D a \<longleftrightarrow> profile D a \<noteq> None"

definition on_contacts :: "int \<Rightarrow> (int \<Rightarrow> entry list \<Rightarrow> entry list) \<Rightarrow> directory \<Rightarrow> directory" where
  "on_contacts a g D = D\<lparr>contacts := (contacts D)(a := (\<lambda>b. g b (contacts D a b)))\<rparr>"

definition on_profile :: "int \<Rightarrow> (user \<Rightarrow> user) \<Rightarrow> directory \<Rightarrow> directory" where
  "on_profile a f D = D\<lparr>profile := (profile D)(a := map_option f (profile D a))\<rparr>"

definition add_entry :: "int \<Rightarrow> int \<Rightarrow> directory \<Rightarrow> directory" where
  "add_entry a b D =
     (if known D a then on_contacts a (\<lambda>c es. if c = b then es @ [([], DEFAULT_TEAMNAME)] else es) D else D)"

definition drop_entry :: "int \<Rightarrow> int \<Rightarrow> directory \<Rightarrow> directory" where
  "drop_entry a b D = on_contacts a (\<lambda>c es. if c = b then tl es else es) D"

definition set_first :: "int \<Rightarrow> int \<Rightarrow> (entry \<Rightarrow> entry) \<Rightarrow> directory \<Rightarrow> directory" where
  "set_first a b f D =
     on_contacts a (\<lambda>c es. if c = b then (case es of [] \<Rightarrow> [] | e # r \<Rightarrow> f e # r) else es) D"

definition move_team :: "int \<Rightarrow> string \<Rightarrow> string \<Rightarrow> directory \<Rightarrow> directory" where
  "move_team a old new D = on_contacts a (\<lambda>c. map (\<lambda>(k, t). (k, if t = old then new else t))) D"

definition friendly :: "directory \<Rightarrow> int \<Rightarrow> int \<Rightarrow> bool" where
  "friendly D a b \<longleftrightarrow> contacts D a b \<noteq> []"

section \<open>The commands\<close>

datatype um_command =
  AddUser user
| AddGroup junk string int
| MakeFriend int int
| ReleaseFriend int int
| Relationship int int FRIEND_OPERATION
| AddFriend int int
| DeleteFriend int int
| UpdateInfo int user
| ModifyPassword int string
| UpdateTeamInfo int string
| DeleteTeam int string
| ModifyTeamName int string string
| UpdateMarkname int int string
| MoveFriend int int string
| SaveChatMsg int int string

text \<open>A call of the corresponding member function, with its boolean result.\<close>

fun um_do :: "'d database \<Rightarrow> um_command \<Rightarrow> user_manager \<Rightarrow> 'd \<Rightarrow> 'd answer" where
  "um_do db (AddUser u) m d = (case addUser db u m d of (ok, _, m1, d1) \<Rightarrow> (ok, m1, d1))"
| "um_do db (AddGroup j g own) m d = (case addGroup db j g own m d of (ok, _, m1, d1) \<Rightarrow> (ok, m1, d1))"
| "um_do db (MakeFriend a b) m d = makeFriendRelationshipInDB db a b m d"
| "um_do db (ReleaseFriend a b) m d = releaseFriendRelationshipInDBAndMemory db a b m d"
| "um_do db (Relationship a b oper) m d = (case updateUserRelationshipInMemory a b oper m of (ok, m1) \<Rightarrow> (ok, m1, d))"
| "um_do db (AddFriend a b) m d = (case addFriendToUser a b m of (ok, m1) \<Rightarrow> (ok, m1, d))"
| "um_do db (DeleteFriend a b) m d = (case deleteFriendToUser a b m of (ok, m1) \<Rightarrow> (ok, m1, d))"
| "um_do db (UpdateInfo a n) m d = updateUserInfoInDb db a n m d"
| "um_do db (ModifyPassword a s) m d = modifyUserPassword db a s m d"
| "um_do db (UpdateTeamInfo a s) m d = updateUserTeamInfoInDbAndMemory db a s m d"
| "um_do db (DeleteTeam a s) m d = deleteTeam db a s m d"
| "um_do db (ModifyTeamName a new old) m d = modifyTeamName db a new old m d"
| "um_do db (UpdateMarkname a b s) m d = updateMarknameInDb db a b s m d"
| "um_do db (MoveFriend a b s) m d = moveFriendToOtherTeam db a b s m d"
| "um_do db (SaveChatMsg a b s) m d = saveChatMsgToDb db a b s m d"

text \<open>
  The specification of the commands that create nobody: their answer when the database takes
  their statements, and the directory afterwards. Deleting in memory while releasing a
  relationship has no effect, see \<open>release_keeps_memory\<close> of \<^verbatim>\<open>User_Manager\<close>.
\<close>

definition befriend :: "int \<Rightarrow> int \<Rightarrow> directory \<Rightarrow> bool \<times> directory" where
  "befriend a b D =
     (a \<noteq> b \<and> known D a \<and> known D b, if a = b then add_entry a a D else add_entry a b (add_entry b a D))"

fun dir_exec :: "um_command \<Rightarrow> directory \<Rightarrow> bool \<times> directory" where
  "dir_exec (MakeFriend a b) D = (a \<noteq> b, D)"
| "dir_exec (ReleaseFriend a b) D = (a \<noteq> b \<and> friendly D a b \<and> friendly D b a, D)"
| "dir_exec (Relationship a b FRIEND_OPERATION_ADD) D = befriend a b D"
| "dir_exec (Relationship a b FRIEND_OPERATION_DELETE) D =
     (a \<noteq> b \<and> friendly D a b \<and> friendly D b a,
      if a = b then drop_entry a a D else drop_entry a b (drop_entry b a D))"
| "dir_exec (AddFriend a b) D =
     (if a = b then (known D a, add_entry a a (add_entry a a D)) else befriend a b D)"
| "dir_exec (DeleteFriend a b) D = (a \<noteq> b \<and> friendly D a b \<and> friendly D b a, D)"
| "dir_exec (UpdateInfo a n) D =
     (known D a, on_profile a (\<lambda>u. u\<lparr>nickname := nickname n, facetype := facetype n,
        customface := customface n, gender := gender n, birthday := birthday n,
        signature := signature n, address := address n, phonenumber := phonenumber n, mail := mail n\<rparr>) D)"
| "dir_exec (ModifyPassword a s) D = (known D a, on_profile a (\<lambda>u. u\<lparr>password := s\<rparr>) D)"
| "dir_exec (UpdateTeamInfo a s) D = (known D a, on_profile a (\<lambda>u. u\<lparr>teaminfo := s\<rparr>) D)"
| "dir_exec (DeleteTeam a s) D = (known D a, move_team a s DEFAULT_TEAMNAME D)"
| "dir_exec (ModifyTeamName a new old) D = (True, move_team a old new D)"
| "dir_exec (UpdateMarkname a b s) D = (friendly D a b, set_first a b (\<lambda>(_, t). (s, t)) D)"
| "dir_exec (MoveFriend a b s) D = (friendly D a b, set_first a b (\<lambda>(k, _). (k, s)) D)"
| "dir_exec (SaveChatMsg a b s) D = (True, D)"
| "dir_exec (AddUser u) D = (False, D)"
| "dir_exec (AddGroup j g own) D = (False, D)"

fun in_memory :: "um_command \<Rightarrow> bool" where
  "in_memory (Relationship a b oper) = True"
| "in_memory (AddFriend a b) = True"
| "in_memory (DeleteFriend a b) = True"
| "in_memory c = False"

text \<open>The record a new user or group gets.\<close>

definition new_profile :: "int \<Rightarrow> user \<Rightarrow> user" where
  "new_profile i u = u\<lparr>userid := i, facetype := 0, birthday := 19900101, gender := 0, ownerid := 0, friends := []\<rparr>"

definition group_profile :: "int \<Rightarrow> junk \<Rightarrow> string \<Rightarrow> int \<Rightarrow> user" where
  "group_profile i j g own =
     (new_user j)\<lparr>userid := i, username := snprintf 12 (dec_int i), nickname := c_str g, ownerid := own\<rparr>"

definition entries :: "int \<Rightarrow> friend_info list \<Rightarrow> entry list" where
  "entries b fs = map (\<lambda>f. (markname f, teamname f)) (filter (\<lambda>f. friendid f = b) fs)"

inductive dir_step :: "directory \<Rightarrow> um_command \<times> bool \<Rightarrow> directory \<Rightarrow> bool" where
  performed: "(\<And>u. c \<noteq> AddUser u) \<Longrightarrow> (\<And>j g own. c \<noteq> AddGroup j g own) \<Longrightarrow>
    dir_exec c D = (ok, D') \<Longrightarrow> dir_step D (c, ok) D'"
| refused: "\<not> in_memory c \<Longrightarrow> dir_step D (c, False) D"
| registered: "0 < i \<Longrightarrow> i < GROUPID_BOUBDARY \<Longrightarrow> \<not> known D i \<Longrightarrow>
    dir_step D (AddUser u, True)
      (D\<lparr>profile := (profile D)(i \<mapsto> new_profile i u),
         contacts := (contacts D)(i := (\<lambda>b. entries b (friends u)))\<rparr>)"
| grouped: "GROUPID_BOUBDARY < i \<Longrightarrow> \<not> known D i \<Longrightarrow>
    dir_step D (AddGroup j g own, True)
      (D\<lparr>profile := (profile D)(i \<mapsto> group_profile i j g own), contacts := (contacts D)(i := (\<lambda>b. []))\<rparr>)"

inductive dir_run :: "directory \<Rightarrow> (um_command \<times> bool) list \<Rightarrow> directory \<Rightarrow> bool" where
  dir_nil: "dir_run D [] D"
| dir_cons: "dir_step D e D' \<Longrightarrow> dir_run D' es D'' \<Longrightarrow> dir_run D (e # es) D''"

section \<open>Abstraction\<close>

definition friends_of :: "user_manager \<Rightarrow> int \<Rightarrow> friend_info list" where
  "friends_of m a = (case getUserInfoByUserId a m of None \<Rightarrow> [] | Some u \<Rightarrow> friends u)"

definition abs_um :: "user_manager \<Rightarrow> directory" where
  "abs_um m =
     \<lparr>profile = (\<lambda>i. map_option (\<lambda>u. u\<lparr>friends := []\<rparr>) (getUserInfoByUserId i m)),
      contacts = (\<lambda>a b. entries b (friends_of m a))\<rparr>"

text \<open>
  Concrete runs: calls one after the other, each with its flag; the creating operations are
  called while an id of their kind is left.
\<close>

fun room_for :: "um_command \<Rightarrow> user_manager \<Rightarrow> bool" where
  "room_for (AddUser u) m \<longleftrightarrow> base_user_id m + 1 < GROUPID_BOUBDARY"
| "room_for (AddGroup j g own) m \<longleftrightarrow> base_group_id m + 1 < 2 ^ 31"
| "room_for c m \<longleftrightarrow> True"

inductive um_run ::
  "'d database \<Rightarrow> user_manager \<times> 'd \<Rightarrow> (um_command \<times> bool) list \<Rightarrow> user_manager \<times> 'd \<Rightarrow> bool" for db where
  run_nil: "um_run db s [] s"
| run_cons: "room_for c m \<Longrightarrow> um_do db c m d = (ok, m', d') \<Longrightarrow> um_run db (m', d') es s \<Longrightarrow>
    um_run db (m, d) ((c, ok) # es) s"

inductive_cases um_run_consE: "um_run db s (e # es) t"

section \<open>Lemmas\<close>

lemma entries_Nil [simp]: "entries b [] = []"
  by (simp add: entries_def)

lemma entries_default [simp]:
  "entries b (fs @ [default_friend c]) = entries b fs @ (if b = c then [([], DEFAULT_TEAMNAME)] else [])"
  by (simp add: entries_def default_friend_def)

lemma entries_erase: "entries b (erase_friend c fs) = (if b = c then tl (entries b fs) else entries b fs)"
  by (induction fs) (auto simp: entries_def)

lemma entries_none: "\<not> has_friend b fs \<longleftrightarrow> entries b fs = []"
  by (auto simp: entries_def has_friend_def filter_empty_conv)

lemma entries_update:
  assumes "\<And>f. friendid (g f) = friendid f" and "\<And>f. (markname (g f), teamname (g f)) = h (markname f, teamname f)"
  shows "entries b (snd (update_friend c g fs)) =
    (if b = c then (case entries b fs of [] \<Rightarrow> [] | e # r \<Rightarrow> h e # r) else entries b fs)"
  using assms by (induction fs) (auto simp: entries_def case_prod_beta split: if_splits)

lemma entries_rename:
  "entries b (friends (rename_team old new u)) =
     map (\<lambda>(k, t). (k, if t = old then new else t)) (entries b (friends u))"
  by (auto simp: entries_def rename_team_def filter_map o_def)

lemma update_friend_flag: "fst (update_friend c g fs) \<longleftrightarrow> entries c fs \<noteq> []"
  by (induction fs) (auto simp: entries_def case_prod_beta)

lemma update_friend_same: "\<not> fst (update_friend c g fs) \<Longrightarrow> snd (update_friend c g fs) = fs"
  by (induction fs) (auto simp: case_prod_beta)

lemma find_map: "(\<And>u. userid (f u) = userid u) \<Longrightarrow>
    find (\<lambda>u. userid u = i) (map f us) = map_option f (find (\<lambda>u. userid u = i) us)"
  by (induction us) auto

lemma find_user_id: "find (\<lambda>u. userid u = i) us = Some u \<Longrightarrow> userid u = i \<and> u \<in> set us"
  by (induction us) (auto split: if_splits)

lemma find_user_none: "find (\<lambda>u. userid u = i) us = None \<longleftrightarrow> i \<notin> userid ` set us"
  by (auto simp: find_None_iff)

lemma known_abs [simp]: "known (abs_um m) a \<longleftrightarrow> a \<in> set (ids m)"
  by (auto simp: known_def abs_um_def getUserInfoByUserId_def find_user_none)

text \<open>A pass over the cache, seen through the abstraction.\<close>

lemma abs_map:
  assumes "\<And>u. userid (f u) = userid u"
  shows "abs_um (m\<lparr>all_cached_users := map f (all_cached_users m)\<rparr>) =
    \<lparr>profile = (\<lambda>i. map_option (\<lambda>u. (f u)\<lparr>friends := []\<rparr>) (getUserInfoByUserId i m)),
     contacts = (\<lambda>a b. case getUserInfoByUserId a m of None \<Rightarrow> [] | Some u \<Rightarrow> entries b (friends (f u)))\<rparr>"
  by (auto simp: abs_um_def friends_of_def getUserInfoByUserId_def find_map [OF assms] option.map_comp o_def
      split: option.split)

lemma getUser_id: "getUserInfoByUserId i m = Some u \<Longrightarrow> userid u = i"
  using find_user_id by (auto simp: getUserInfoByUserId_def)

lemma find_user_distinct:
  "distinct (map userid us) \<Longrightarrow> u \<in> set us \<Longrightarrow> find (\<lambda>v. userid v = userid u) us = Some u"
  by (induction us) (auto simp: image_iff)

lemma friends_of_distinct:
  "um_wf m \<Longrightarrow> u \<in> set (all_cached_users m) \<Longrightarrow> friends_of m (userid u) = friends u"
  by (simp add: friends_of_def getUserInfoByUserId_def find_user_distinct um_wf_def)

lemma friendly_abs:
  assumes "um_wf m"
  shows "friendly (abs_um m) a b \<longleftrightarrow> isFriend a b m"
proof
  assume "friendly (abs_um m) a b"
  then have "entries b (friends_of m a) \<noteq> []" by (simp add: friendly_def abs_um_def)
  then obtain u where "find (\<lambda>v. userid v = a) (all_cached_users m) = Some u" "entries b (friends u) \<noteq> []"
    by (auto simp: friends_of_def getUserInfoByUserId_def split: option.splits)
  then show "isFriend a b m" unfolding isFriend_iff using find_user_id entries_none by blast
next
  assume "isFriend a b m"
  then obtain u where "u \<in> set (all_cached_users m)" "userid u = a" "has_friend b (friends u)"
    by (auto simp: isFriend_iff)
  then show "friendly (abs_um m) a b"
    using friends_of_distinct [OF assms] entries_none [of b "friends u"] by (auto simp: friendly_def abs_um_def)
qed

lemma update_cached_map:
  "um_wf m \<Longrightarrow> update_cached a f m =
     (a \<in> set (ids m), m\<lparr>all_cached_users := map (\<lambda>u. if userid u = a then f u else u) (all_cached_users m)\<rparr>)"
  using update_user_map [of "all_cached_users m" a f] update_user_flag [of a f "all_cached_users m"]
  by (simp add: update_cached_def um_wf_def case_prod_beta)

lemma directory_eqI:
  "(\<And>i. profile D i = profile D' i) \<Longrightarrow> (\<And>a b. contacts D a b = contacts D' a b) \<Longrightarrow> D = D'"
  for D D' :: directory
  by (intro directory.equality ext) simp_all

lemma dir_updates [simp]:
  "profile (on_contacts a g D) = profile D"
  "contacts (on_contacts a g D) x y = (if x = a then g y (contacts D x y) else contacts D x y)"
  "profile (on_profile a f D) i = (if i = a then map_option f (profile D i) else profile D i)"
  "contacts (on_profile a f D) = contacts D"
  "profile (add_entry a b D) = profile D"
  "contacts (add_entry a b D) x y =
     (if x = a \<and> y = b \<and> known D a then contacts D x y @ [([], DEFAULT_TEAMNAME)] else contacts D x y)"
  "profile (drop_entry a b D) = profile D"
  "contacts (drop_entry a b D) x y = (if x = a \<and> y = b then tl (contacts D x y) else contacts D x y)"
  "known (add_entry a b D) x = known D x"
  by (auto simp: on_contacts_def on_profile_def add_entry_def drop_entry_def known_def)

text \<open>The abstraction at one id, by whether the cache has it.\<close>

lemma abs_at:
  "getUserInfoByUserId i m = None \<Longrightarrow> profile (abs_um m) i = None \<and> contacts (abs_um m) i b = []"
  "getUserInfoByUserId i m = Some u \<Longrightarrow>
     profile (abs_um m) i = Some (u\<lparr>friends := []\<rparr>) \<and> contacts (abs_um m) i b = entries b (friends u)"
  by (simp_all add: abs_um_def friends_of_def)

lemma get_map:
  assumes "\<And>u. userid (f u) = userid u"
  shows "getUserInfoByUserId i (m\<lparr>all_cached_users := map f (all_cached_users m)\<rparr>) =
    map_option f (getUserInfoByUserId i m)"
  by (simp add: getUserInfoByUserId_def find_map [OF assms])

lemma abs_pass:
  assumes "\<And>u. userid (f u) = userid u"
    and "\<And>i. getUserInfoByUserId i m = None \<Longrightarrow> profile D i = None \<and> (\<forall>b. contacts D i b = [])"
    and "\<And>i u. getUserInfoByUserId i m = Some u \<Longrightarrow> userid u = i \<Longrightarrow>
      profile D i = Some ((f u)\<lparr>friends := []\<rparr>) \<and> (\<forall>b. contacts D i b = entries b (friends (f u)))"
  shows "abs_um (m\<lparr>all_cached_users := map f (all_cached_users m)\<rparr>) = D" (is "abs_um ?m = D")
proof -
  have "profile (abs_um ?m) i = profile D i \<and> (\<forall>b. contacts (abs_um ?m) i b = contacts D i b)" for i
  proof (cases "getUserInfoByUserId i m")
    case None
    then have "getUserInfoByUserId i ?m = None" by (simp add: get_map [OF assms(1)])
    then show ?thesis using abs_at(1) assms(2) [OF None] by simp
  next
    case (Some u)
    then have "getUserInfoByUserId i ?m = Some (f u)" by (simp add: get_map [OF assms(1)])
    then show ?thesis using abs_at(2) assms(3) [OF Some getUser_id [OF Some]] by simp
  qed
  then show ?thesis by (intro directory_eqI) simp_all
qed

lemma known_get: "getUserInfoByUserId i m = Some u \<Longrightarrow> i \<in> set (ids m)"
  using find_user_id by (fastforce simp: getUserInfoByUserId_def)

lemma abs_on_profile:
  assumes "\<And>u. userid (f u) = userid u" and "\<And>u. friends (f u) = friends u"
    and "\<And>u. (f u)\<lparr>friends := []\<rparr> = f (u\<lparr>friends := []\<rparr>)"
  shows "abs_um (m\<lparr>all_cached_users := map (\<lambda>u. if userid u = a then f u else u) (all_cached_users m)\<rparr>) =
    on_profile a f (abs_um m)"
  by (rule abs_pass) (auto simp: abs_at assms)

lemma abs_on_contacts:
  assumes "\<And>u. userid (f u) = userid u" and "\<And>u. (f u)\<lparr>friends := []\<rparr> = u\<lparr>friends := []\<rparr>"
    and "\<And>u b. entries b (friends (f u)) = g b (entries b (friends u))" and "\<And>b. g b [] = []"
  shows "abs_um (m\<lparr>all_cached_users := map (\<lambda>u. if userid u = a then f u else u) (all_cached_users m)\<rparr>) =
    on_contacts a g (abs_um m)"
  by (rule abs_pass) (auto simp: abs_at assms)

lemma abs_link:
  "abs_um (m\<lparr>all_cached_users := map (link a b) (all_cached_users m)\<rparr>) =
     (if a = b then add_entry a a (abs_um m) else add_entry a b (add_entry b a (abs_um m)))"
proof (rule abs_pass)
  fix i assume n: "getUserInfoByUserId i m = None"
  then have "i \<notin> set (ids m)" by (auto simp: getUserInfoByUserId_def find_user_none)
  then show "profile (if a = b then add_entry a a (abs_um m) else add_entry a b (add_entry b a (abs_um m))) i = None \<and>
      (\<forall>c. contacts (if a = b then add_entry a a (abs_um m) else add_entry a b (add_entry b a (abs_um m))) i c = [])"
    using abs_at(1) [OF n] by auto
next
  fix i u assume s: "getUserInfoByUserId i m = Some u" and i: "userid u = i"
  then show "profile (if a = b then add_entry a a (abs_um m) else add_entry a b (add_entry b a (abs_um m))) i =
        Some ((link a b u)\<lparr>friends := []\<rparr>) \<and>
      (\<forall>c. contacts (if a = b then add_entry a a (abs_um m) else add_entry a b (add_entry b a (abs_um m))) i c =
        entries c (friends (link a b u)))"
    using abs_at(2) [OF s] known_get [OF s] by (auto simp: link_def)
qed simp

lemma abs_unlink:
  "abs_um (m\<lparr>all_cached_users := map (unlink a b) (all_cached_users m)\<rparr>) =
     (if a = b then drop_entry a a (abs_um m) else drop_entry a b (drop_entry b a (abs_um m)))"
  by (rule abs_pass) (auto simp: abs_at unlink_def entries_erase)

section \<open>The loops in closed form\<close>

lemma relationship_delete_self:
  "relationship_delete a a f1 f2 us =
     (f1 \<or> (\<exists>u\<in>set us. userid u = a \<and> has_friend a (friends u)), f2, map (unlink a a) us)"
  by (induction us arbitrary: f1 f2) (auto simp: unlink_def Let_def erase_friend_id split: prod.split)

lemma delete_friend_flags:
  "delete_friend_loop a b f1 f2 us =
     (f1 \<or> (\<exists>u\<in>set us. userid u = a \<and> has_friend b (friends u)),
      f2 \<or> a \<noteq> b \<and> (\<exists>u\<in>set us. userid u = b \<and> has_friend a (friends u)))"
  by (induction us arbitrary: f1 f2) (auto simp: Let_def erase_friend_id)

lemma delete_friend_answer: "deleteFriendToUser a b m = (a \<noteq> b \<and> isFriend a b m \<and> isFriend b a m, m)"
  by (auto simp: deleteFriendToUser_def delete_friend_flags isFriend_iff)

lemma delete_relationship_answer:
  "updateUserRelationshipInMemory a b FRIEND_OPERATION_DELETE m =
     (a \<noteq> b \<and> isFriend a b m \<and> isFriend b a m,
      m\<lparr>all_cached_users := map (unlink a b) (all_cached_users m)\<rparr>)"
  using delete_relationship_eq [of a b m]
  by (cases "a = b") (simp_all add: updateUserRelationshipInMemory_def relationship_delete_self)

lemma add_self_loop:
  "distinct (map userid us) \<Longrightarrow>
   add_friend_loop a a False False us =
     (a \<in> userid ` set us, map (link a a) (map (link a a) us))"
proof (induction us)
  case (Cons u us)
  show ?case
  proof (cases "userid u = a")
    case True
    then have "a \<notin> userid ` set us" using Cons.prems by auto
    then have "map (link a a) (map (link a a) us) = us" by (simp add: link_fresh del: map_map)
    then show ?thesis using True by (simp add: Let_def)
  next
    case False
    then show ?thesis using Cons by (simp add: Let_def link_def case_prod_beta)
  qed
qed simp

lemma add_self: "um_wf m \<Longrightarrow> addFriendToUser a a m =
    (a \<in> set (ids m), m\<lparr>all_cached_users := map (link a a) (map (link a a) (all_cached_users m))\<rparr>)"
  using add_self_loop [of "all_cached_users m" a] by (simp add: addFriendToUser_def um_wf_def)

abbreviation entry_pass ::
  "int \<Rightarrow> int \<Rightarrow> (friend_info \<Rightarrow> friend_info) \<Rightarrow> user list \<Rightarrow> user list" where
  "entry_pass a b g us \<equiv>
     map (\<lambda>u. if userid u = a then u\<lparr>friends := snd (update_friend b g (friends u))\<rparr> else u) us"

lemma entry_pass_absent: "a \<notin> userid ` set us \<Longrightarrow> entry_pass a b g us = us"
  by (intro map_idI) auto

lemma markname_loop_pass:
  "distinct (map userid us) \<Longrightarrow> markname_loop a b n us =
     (\<exists>u\<in>set us. userid u = a \<and> has_friend b (friends u), entry_pass a b (\<lambda>f. f\<lparr>markname := n\<rparr>) us)"
proof (induction us)
  case (Cons u us)
  obtain ok fs where f: "update_friend b (\<lambda>f. f\<lparr>markname := n\<rparr>) (friends u) = (ok, fs)" by fastforce
  have ok: "ok \<longleftrightarrow> has_friend b (friends u)" and fs: "\<not> ok \<Longrightarrow> fs = friends u"
    using update_friend_flag [of b "\<lambda>f. f\<lparr>markname := n\<rparr>" "friends u"] update_friend_same f
      entries_none [of b "friends u"] by fastforce+
  show ?case
  proof (cases "userid u = a")
    case True
    then have a: "a \<notin> userid ` set us" using Cons.prems by auto
    then have "\<not> (\<exists>u\<in>set us. userid u = a \<and> has_friend b (friends u))" by auto
    then show ?thesis using Cons True f ok fs entry_pass_absent [OF a]
      by (cases ok) (simp_all add: case_prod_beta)
  next
    case False
    then show ?thesis using Cons by (simp add: case_prod_beta)
  qed
qed simp

lemma abs_entry_pass:
  assumes "\<And>f. friendid (g f) = friendid f" and "\<And>f. (markname (g f), teamname (g f)) = h (markname f, teamname f)"
  shows "abs_um (m\<lparr>all_cached_users := entry_pass a b g (all_cached_users m)\<rparr>) = set_first a b h (abs_um m)"
  unfolding set_first_def
proof (rule abs_on_contacts)
  show "entries c (friends (u\<lparr>friends := snd (update_friend b g (friends u))\<rparr>)) =
      (if c = b then (case entries c (friends u) of [] \<Rightarrow> [] | e # r \<Rightarrow> h e # r) else entries c (friends u))" for u c
    using entries_update [of g h c b "friends u"] assms by simp
qed simp_all

lemma move_pass:
  assumes "um_wf m" and "find (\<lambda>v. userid v = a) (all_cached_users m) = Some u"
  shows "snd (update_cached a (\<lambda>v. v\<lparr>friends := snd (update_friend b g (friends u))\<rparr>) m) =
    m\<lparr>all_cached_users := entry_pass a b g (all_cached_users m)\<rparr>"
proof -
  have u: "u \<in> set (all_cached_users m)" "userid u = a" using find_user_id [OF assms(2)] by auto
  have "v = u" if "v \<in> set (all_cached_users m)" "userid v = a" for v
    using assms(1) u that by (auto simp: um_wf_def distinct_map inj_on_def)
  then show ?thesis by (simp add: update_cached_map [OF assms(1)] cong: map_cong)
qed

section \<open>Every call implements its command\<close>

lemma sim_performed:
  assumes "dir_exec c (abs_um m) = (ok, abs_um m')"
    and "\<And>u. c \<noteq> AddUser u" and "\<And>j g own. c \<noteq> AddGroup j g own"
  shows "dir_step (abs_um m) (c, ok) (abs_um m')"
  using assms by (intro performed) auto

text \<open>The calls that run one statement and then change one cached user.\<close>

lemma sim_update:
  assumes "(case run_sql db sql m d of (False, d1) \<Rightarrow> (False, m, d1)
      | (True, d1) \<Rightarrow> (case update_cached a f m of (ok, m1) \<Rightarrow> (ok, m1, d1))) = (ok, m', d')"
    and "um_wf m" and "\<And>u. userid (f u) = userid u" and "\<And>u. friends (f u) = friends u"
    and "\<And>u. (f u)\<lparr>friends := []\<rparr> = f (u\<lparr>friends := []\<rparr>)"
    and "dir_exec c (abs_um m) = (known (abs_um m) a, on_profile a f (abs_um m))" and "\<not> in_memory c"
    and "\<And>u. c \<noteq> AddUser u" and "\<And>j g own. c \<noteq> AddGroup j g own"
  shows "dir_step (abs_um m) (c, ok) (abs_um m')"
proof (cases "fst (run_sql db sql m d)")
  case True
  then have "ok = (a \<in> set (ids m))"
    "m' = m\<lparr>all_cached_users := map (\<lambda>u. if userid u = a then f u else u) (all_cached_users m)\<rparr>"
    using assms(1) update_cached_map [OF assms(2), of a f] by (auto split: prod.splits)
  then show ?thesis using abs_on_profile [of f a m] assms(3-9) by (intro sim_performed) auto
next
  case False
  then have "m' = m" "\<not> ok" using assms(1) by (auto split: prod.splits bool.splits)
  then show ?thesis using assms(7) refused by simp
qed

lemma abs_team:
  "um_wf m \<Longrightarrow> abs_um (snd (update_cached a (rename_team old new) m)) = move_team a old new (abs_um m)"
  unfolding move_team_def
  by (simp add: update_cached_map, rule abs_on_contacts) (simp_all add: entries_rename, simp add: rename_team_def)

lemma sim_teams:
  assumes "um_wf m"
  shows "deleteTeam db a s m d = (ok, m', d') \<Longrightarrow> dir_step (abs_um m) (DeleteTeam a s, ok) (abs_um m')"
    and "modifyTeamName db a new old m d = (ok, m', d') \<Longrightarrow>
      dir_step (abs_um m) (ModifyTeamName a new old, ok) (abs_um m')"
proof -
  assume "deleteTeam db a s m d = (ok, m', d')"
  then consider "m' = m" "\<not> ok" |
    "(ok, m') = update_cached a (rename_team s DEFAULT_TEAMNAME) m"
    by (auto simp: deleteTeam_def split: prod.splits bool.splits)
  then consider "m' = m" "\<not> ok" |
    "ok = (a \<in> set (ids m))" "m' = snd (update_cached a (rename_team s DEFAULT_TEAMNAME) m)"
    by cases (blast, simp add: update_cached_map [OF assms])
  then show "dir_step (abs_um m) (DeleteTeam a s, ok) (abs_um m')"
    by cases (simp add: refused, rule sim_performed, simp_all add: abs_team [OF assms])
next
  assume "modifyTeamName db a new old m d = (ok, m', d')"
  then consider "m' = m" "\<not> ok" | "ok" "m' = snd (update_cached a (rename_team old new) m)"
    by (auto simp: modifyTeamName_def split: prod.splits bool.splits)
  then show "dir_step (abs_um m) (ModifyTeamName a new old, ok) (abs_um m')"
    by cases (simp add: refused, rule sim_performed, simp_all add: abs_team [OF assms])
qed

lemma statement_then_found:
  assumes "(case run_sql db sql m d of (False, d1) \<Rightarrow> (False, m, d1)
      | (True, d1) \<Rightarrow> (case X of None \<Rightarrow> (False, m, d1)
          | Some u \<Rightarrow> (case F u of (k, fs) \<Rightarrow> (k, G fs, d1)))) = (ok, m', d')"
  shows "m' = m \<and> \<not> ok \<or> (\<exists>u. X = Some u \<and> ok = fst (F u) \<and> m' = G (snd (F u)))"
  using assms by (auto split: prod.splits bool.splits option.splits)

lemma sim_entries:
  assumes "um_wf m"
  shows "updateMarknameInDb db a b s m d = (ok, m', d') \<Longrightarrow>
      dir_step (abs_um m) (UpdateMarkname a b s, ok) (abs_um m')"
    and "moveFriendToOtherTeam db a b s m d = (ok, m', d') \<Longrightarrow>
      dir_step (abs_um m) (MoveFriend a b s, ok) (abs_um m')"
proof -
  have d: "distinct (map userid (all_cached_users m))" using assms by (simp add: um_wf_def)
  assume "updateMarknameInDb db a b s m d = (ok, m', d')"
  then consider "m' = m" "\<not> ok" |
    "ok = isFriend a b m" "m' = m\<lparr>all_cached_users := entry_pass a b (\<lambda>f. f\<lparr>markname := s\<rparr>) (all_cached_users m)\<rparr>"
    unfolding updateMarknameInDb_def Let_def isFriend_iff markname_loop_pass [OF d]
    by (auto split: prod.splits bool.splits)
  then show "dir_step (abs_um m) (UpdateMarkname a b s, ok) (abs_um m')"
    by cases (simp add: refused, rule sim_performed,
      simp_all add: friendly_abs [OF assms] abs_entry_pass [where h = "\<lambda>(_, t). (s, t)"])
next
  let ?g = "\<lambda>f. f\<lparr>teamname := s\<rparr>"
  assume "moveFriendToOtherTeam db a b s m d = (ok, m', d')"
  then have "m' = m \<and> \<not> ok \<or> (\<exists>u. find (\<lambda>v. userid v = a) (all_cached_users m) = Some u \<and>
      ok = fst (update_friend b ?g (friends u)) \<and>
      m' = snd (update_cached a (\<lambda>v. v\<lparr>friends := snd (update_friend b ?g (friends u))\<rparr>) m))"
    unfolding moveFriendToOtherTeam_def Let_def by (rule statement_then_found)
  then consider "m' = m" "\<not> ok" |
    u where "find (\<lambda>v. userid v = a) (all_cached_users m) = Some u"
      "ok = fst (update_friend b ?g (friends u))"
      "m' = snd (update_cached a (\<lambda>v. v\<lparr>friends := snd (update_friend b ?g (friends u))\<rparr>) m)"
    by blast
  then show "dir_step (abs_um m) (MoveFriend a b s, ok) (abs_um m')"
  proof cases
    case 1
    then show ?thesis by (simp add: refused)
  next
    case (2 u)
    then have "friendly (abs_um m) a b = ok"
      by (simp add: friendly_def abs_um_def friends_of_def getUserInfoByUserId_def update_friend_flag)
    then show ?thesis unfolding 2(3) move_pass [OF assms 2(1)]
      by (intro sim_performed) (simp_all add: abs_entry_pass [where h = "\<lambda>(k, _). (k, s)"])
  qed
qed

lemma sim_friends:
  assumes "um_wf m"
  shows "updateUserRelationshipInMemory a b oper m = (ok, m') \<Longrightarrow>
      dir_step (abs_um m) (Relationship a b oper, ok) (abs_um m')"
    and "addFriendToUser a b m = (ok, m') \<Longrightarrow> dir_step (abs_um m) (AddFriend a b, ok) (abs_um m')"
    and "deleteFriendToUser a b m = (ok, m') \<Longrightarrow> dir_step (abs_um m) (DeleteFriend a b, ok) (abs_um m')"
proof -
  have be: "befriend a b (abs_um m) =
      (fst (updateUserRelationshipInMemory a b FRIEND_OPERATION_ADD m),
       abs_um (snd (updateUserRelationshipInMemory a b FRIEND_OPERATION_ADD m)))" for a b
    by (auto simp: befriend_def add_relationship_eq abs_link)
  show "updateUserRelationshipInMemory a b oper m = (ok, m') \<Longrightarrow>
      dir_step (abs_um m) (Relationship a b oper, ok) (abs_um m')"
    using be [of a b]
    by (intro sim_performed; cases oper) (auto simp: delete_relationship_answer abs_unlink friendly_abs [OF assms])
  show "deleteFriendToUser a b m = (ok, m') \<Longrightarrow> dir_step (abs_um m) (DeleteFriend a b, ok) (abs_um m')"
    by (rule sim_performed) (auto simp: delete_friend_answer simp flip: friendly_abs [OF assms])
  assume r: "addFriendToUser a b m = (ok, m')"
  show "dir_step (abs_um m) (AddFriend a b, ok) (abs_um m')"
  proof (cases "a = b")
    case True
    let ?m1 = "m\<lparr>all_cached_users := map (link a a) (all_cached_users m)\<rparr>"
    have "ok = (a \<in> set (ids m))"
      and "m' = ?m1\<lparr>all_cached_users := map (link a a) (all_cached_users ?m1)\<rparr>"
      using r True add_self [OF assms, of a] by auto
    then have "abs_um m' = add_entry a a (add_entry a a (abs_um m))"
      using abs_link [where m = ?m1 and a = a and b = a] abs_link [where m = m and a = a and b = a] by simp
    then show ?thesis using True \<open>ok = _\<close> by (intro sim_performed) simp_all
  next
    case False
    then have "addFriendToUser a b m = updateUserRelationshipInMemory a b FRIEND_OPERATION_ADD m"
      using assms by (intro addFriendToUser_eq) (simp_all add: um_wf_def)
    then have "updateUserRelationshipInMemory a b FRIEND_OPERATION_ADD m = (ok, m')" using r by simp
    then show ?thesis using be [of a b] False by (intro sim_performed) simp_all
  qed
qed

lemma sim_database_only:
  assumes "um_wf m"
  shows "makeFriendRelationshipInDB db a b m d = (ok, m', d') \<Longrightarrow>
      dir_step (abs_um m) (MakeFriend a b, ok) (abs_um m')"
    and "releaseFriendRelationshipInDBAndMemory db a b m d = (ok, m', d') \<Longrightarrow>
      dir_step (abs_um m) (ReleaseFriend a b, ok) (abs_um m')"
    and "saveChatMsgToDb db a b s m d = (ok, m', d') \<Longrightarrow>
      dir_step (abs_um m) (SaveChatMsg a b s, ok) (abs_um m')"
proof -
  assume "makeFriendRelationshipInDB db a b m d = (ok, m', d')"
  then have "m' = m" "ok \<Longrightarrow> a \<noteq> b"
    by (auto simp: makeFriendRelationshipInDB_def Let_def split: prod.splits bool.splits if_splits)
  then show "dir_step (abs_um m) (MakeFriend a b, ok) (abs_um m')"
    by (cases ok) (rule sim_performed, simp_all add: refused)
next
  assume "releaseFriendRelationshipInDBAndMemory db a b m d = (ok, m', d')"
  then have "m' = m" "ok \<Longrightarrow> a \<noteq> b \<and> isFriend a b m \<and> isFriend b a m"
    by (auto simp: releaseFriendRelationshipInDBAndMemory_def delete_friend_answer Let_def
        split: prod.splits bool.splits if_splits)
  then show "dir_step (abs_um m) (ReleaseFriend a b, ok) (abs_um m')"
    by (cases ok) (rule sim_performed, simp_all add: refused friendly_abs [OF assms])
next
  assume "saveChatMsgToDb db a b s m d = (ok, m', d')"
  then have "m' = m" by (auto simp: saveChatMsgToDb_def split: prod.splits)
  then show "dir_step (abs_um m) (SaveChatMsg a b s, ok) (abs_um m')"
    by (cases ok) (rule sim_performed, simp_all add: refused)
qed

lemma abs_append:
  assumes "userid u \<notin> set (ids m)"
  shows "abs_um (m'\<lparr>all_cached_users := all_cached_users m @ [u]\<rparr>) =
    (abs_um m)\<lparr>profile := (profile (abs_um m))(userid u \<mapsto> u\<lparr>friends := []\<rparr>),
       contacts := (contacts (abs_um m))(userid u := (\<lambda>b. entries b (friends u)))\<rparr>" (is "abs_um ?m = ?D")
proof -
  have new: "getUserInfoByUserId i ?m = (if i = userid u then Some u else getUserInfoByUserId i m)" for i
  proof (cases "getUserInfoByUserId i m")
    case None
    then show ?thesis by (simp add: getUserInfoByUserId_def find_append)
  next
    case (Some v)
    then have "i \<noteq> userid u" using known_get [OF Some] assms by blast
    then show ?thesis using Some by (simp add: getUserInfoByUserId_def find_append)
  qed
  show ?thesis by (rule directory_eqI) (simp_all add: abs_um_def friends_of_def new)
qed

lemma abs_counters [simp]: "abs_um (m\<lparr>base_user_id := i\<rparr>) = abs_um m" "abs_um (m\<lparr>base_group_id := i\<rparr>) = abs_um m"
  by (simp_all add: abs_um_def friends_of_def getUserInfoByUserId_def)

lemma sim_addUser:
  assumes "um_wf m" and "base_user_id m + 1 < GROUPID_BOUBDARY" and "addUser db u m d = (ok, u', m', d')"
  shows "dir_step (abs_um m) (AddUser u, ok) (abs_um m')"
  using addUser_cases [of db m d u]
proof cases
  case no_connection
  then show ?thesis using assms(3) by (simp add: refused)
next
  case rejected
  then show ?thesis using assms(3) by (auto simp: refused)
next
  case (added d1 d2 u1)
  let ?i = "base_user_id m + 1"
  note i = next_user_id [OF assms(1,2)]
  have "0 \<le> base_user_id m" using assms(1) by (simp add: um_wf_def)
  then have "dir_step (abs_um m) (AddUser u, True)
      ((abs_um m)\<lparr>profile := (profile (abs_um m))(?i \<mapsto> new_profile ?i u),
         contacts := (contacts (abs_um m))(?i := (\<lambda>b. entries b (friends u)))\<rparr>)"
    using assms(2) i(2) by (intro registered) auto
  moreover have "ok" "m' = m\<lparr>base_user_id := ?i, all_cached_users := all_cached_users m @ [u1]\<rparr>"
    "userid u1 = ?i" "u1\<lparr>friends := []\<rparr> = new_profile ?i u" "friends u1 = friends u"
    using added assms(3) i(1) by (auto simp: new_profile_def)
  ultimately show ?thesis
    using abs_append [of u1 m "m\<lparr>base_user_id := ?i\<rparr>"] i(2) by simp
qed

lemma sim_addGroup:
  assumes "um_wf m" and "base_group_id m + 1 < 2 ^ 31" and "addGroup db j g own m d = (ok, r, m', d')"
  shows "dir_step (abs_um m) (AddGroup j g own, ok) (abs_um m')"
proof -
  let ?i = "base_group_id m + 1"
  let ?u = "group_profile ?i j g own"
  note i = next_group_id [OF assms(1,2)]
  have "GROUPID_BOUBDARY \<le> base_group_id m" using assms(1) by (simp add: um_wf_def)
  then have step: "dir_step (abs_um m) (AddGroup j g own, True)
      ((abs_um m)\<lparr>profile := (profile (abs_um m))(?i \<mapsto> ?u), contacts := (contacts (abs_um m))(?i := (\<lambda>b. []))\<rparr>)"
    using i(2) by (intro grouped) auto
  have u: "userid ?u = ?i" "?u\<lparr>friends := []\<rparr> = ?u" "friends ?u = []" by (simp_all add: group_profile_def new_user_def)
  have "m' = m \<and> \<not> ok \<or> m' = m\<lparr>base_group_id := ?i\<rparr> \<and> \<not> ok \<or>
      m' = m\<lparr>base_group_id := ?i, all_cached_users := all_cached_users m @ [?u]\<rparr> \<and> ok"
    using assms(3) unfolding addGroup_def Let_def
    by (auto simp: i(1) group_profile_def split: prod.splits bool.splits)
  then show ?thesis
    using step abs_append [of ?u m "m\<lparr>base_group_id := ?i\<rparr>"] i(2) u by (auto simp: refused)
qed

lemma um_do_sim:
  assumes "um_wf m" and "room_for c m" and "um_do db c m d = (ok, m', d')"
  shows "dir_step (abs_um m) (c, ok) (abs_um m')"
proof (cases c)
  case (AddUser u)
  then show ?thesis using assms sim_addUser by (auto split: prod.splits)
next
  case (AddGroup j g own)
  then show ?thesis using assms sim_addGroup by (auto split: prod.splits)
next
  case (UpdateInfo a n)
  then show ?thesis using assms(3) unfolding UpdateInfo um_do.simps updateUserInfoInDb_def
    by (elim sim_update [OF _ assms(1)]) simp_all
next
  case (ModifyPassword a s)
  then show ?thesis using assms(3) unfolding ModifyPassword um_do.simps modifyUserPassword_def
    by (elim sim_update [OF _ assms(1)]) simp_all
next
  case (UpdateTeamInfo a s)
  then show ?thesis using assms(3) unfolding UpdateTeamInfo um_do.simps updateUserTeamInfoInDbAndMemory_def
    by (elim sim_update [OF _ assms(1)]) simp_all
qed (use assms in \<open>auto dest: sim_friends sim_teams sim_entries sim_database_only split: prod.splits\<close>)

lemma um_do_wf:
  assumes "um_wf m" and "room_for c m" and "um_do db c m d = (ok, m', d')"
  shows "um_wf m'"
proof -
  have "um_step db m m' \<or> m' = m"
  proof (cases c)
    case (DeleteFriend a b)
    then show ?thesis using assms(3) by (auto simp: deleteFriendToUser_def split: prod.splits)
  qed (use assms(2,3) in \<open>auto split: prod.splits intro: um_step.intros\<close>)
  then show ?thesis using um_step_wf assms(1) by blast
qed

lemma um_run_sim:
  "um_run db s es t \<Longrightarrow> um_wf (fst s) \<Longrightarrow> um_wf (fst t) \<and> dir_run (abs_um (fst s)) es (abs_um (fst t))"
proof (induction rule: um_run.induct)
  case (run_cons c m d ok m' d' es s)
  then have "um_wf m'" "dir_step (abs_um m) (c, ok) (abs_um m')" using um_do_wf um_do_sim by auto
  then show ?case using run_cons by (auto intro: dir_cons)
qed (auto intro: dir_nil)

text \<open>What the look-ups of the manager return, read off the directory.\<close>

lemma find_entries:
  "map_option markname (find (\<lambda>f. friendid f = b) fs) = (case entries b fs of [] \<Rightarrow> None | (k, t) # r \<Rightarrow> Some k)"
  by (induction fs) (auto simp: entries_def)

lemma markname_search_find:
  "distinct (map userid us) \<Longrightarrow> markname_search a b us = (case find (\<lambda>v. userid v = a) us of None \<Rightarrow> None
     | Some u \<Rightarrow> map_option markname (find (\<lambda>f. friendid f = b) (friends u)))"
proof (induction us)
  case (Cons u us)
  have "find (\<lambda>v. userid v = a) us = None" if "userid u = a"
    using Cons.prems that by (auto simp: find_user_none)
  then show ?case using Cons by (auto split: option.split)
qed simp

lemma friend_info_ids:
  "userid ` set (List.map_filter (\<lambda>f. find (\<lambda>v. userid v = friendid f) us) fs) =
     {b. entries b fs \<noteq> [] \<and> b \<in> userid ` set us}"
proof (induction fs)
  case (Cons f fs)
  have *: "{b. entries b (f # fs) \<noteq> [] \<and> b \<in> userid ` set us} =
      (if friendid f \<in> userid ` set us then {friendid f} else {}) \<union> {b. entries b fs \<noteq> [] \<and> b \<in> userid ` set us}"
    by (auto simp: entries_def)
  show ?case
  proof (cases "find (\<lambda>v. userid v = friendid f) us")
    case None
    then have "friendid f \<notin> userid ` set us" using find_user_none [of "friendid f" us] by blast
    then show ?thesis unfolding * Cons.IH [symmetric] using None by (simp add: map_filter_simps)
  next
    case (Some v)
    then have "friendid f \<in> userid ` set us" "userid v = friendid f" using find_user_id [OF Some] by force+
    then show ?thesis unfolding * Cons.IH [symmetric] using Some by (simp add: map_filter_simps)
  qed
qed (simp add: map_filter_simps)

lemma abs_observers:
  assumes "um_wf m"
  shows "isFriend a b m \<longleftrightarrow> contacts (abs_um m) a b \<noteq> []"
    and "getFriendMarknameByUserId a b m =
      (case contacts (abs_um m) a b of [] \<Rightarrow> None | (k, t) # r \<Rightarrow> Some k)"
    and "getTeamInfoByUserId a m = map_option teaminfo (profile (abs_um m) a)"
    and "set (map userid (getFriendInfoByUserId a m)) = {b. contacts (abs_um m) a b \<noteq> [] \<and> known (abs_um m) b}"
    and "map_option (\<lambda>u. u\<lparr>friends := []\<rparr>) (getUserInfoByUserId a m) = profile (abs_um m) a"
proof -
  show "isFriend a b m \<longleftrightarrow> contacts (abs_um m) a b \<noteq> []"
    using friendly_abs [OF assms] by (simp add: friendly_def)
  show "map_option (\<lambda>u. u\<lparr>friends := []\<rparr>) (getUserInfoByUserId a m) = profile (abs_um m) a"
    by (simp add: abs_um_def)
  show "getTeamInfoByUserId a m = map_option teaminfo (profile (abs_um m) a)"
    by (simp add: abs_um_def getTeamInfoByUserId_def getUserInfoByUserId_def option.map_comp o_def)
  have "distinct (ids m)" using assms by (simp add: um_wf_def)
  then show "getFriendMarknameByUserId a b m =
      (case contacts (abs_um m) a b of [] \<Rightarrow> None | (k, t) # r \<Rightarrow> Some k)"
    by (simp add: getFriendMarknameByUserId_def abs_um_def friends_of_def getUserInfoByUserId_def
        markname_search_find find_entries split: option.split)
  show "set (map userid (getFriendInfoByUserId a m)) =
      {b. contacts (abs_um m) a b \<noteq> [] \<and> known (abs_um m) b}"
    using friend_info_ids [of "all_cached_users m"] known_abs [of m]
    by (simp add: getFriendInfoByUserId_def abs_um_def friends_of_def getUserInfoByUserId_def
        split: option.split)
qed

section \<open>Properties\<close>

text \<open>
  C5: the user manager implements the directory. For every sequence of calls, whatever the
  database answers, the calls and their flags are a run of the abstract directory between
  the abstractions of the two states; only calls that need the database can be refused, and
  a refused call changes nothing. After it the look-ups answer as the directory: friendship
  is having an entry, the remark is the one of the oldest entry, the friends reported are
  the known ids with an entry, and profiles and team information are those of the directory.
\<close>

theorem user_manager_refines_directory:
  assumes "um_wf m" and "um_run db (m, d) calls (m', d')"
  shows "um_wf m' \<and> dir_run (abs_um m) calls (abs_um m') \<and>
    (\<forall>a b. (isFriend a b m' \<longleftrightarrow> contacts (abs_um m') a b \<noteq> []) \<and>
       getFriendMarknameByUserId a b m' =
         (case contacts (abs_um m') a b of [] \<Rightarrow> None | (k, t) # r \<Rightarrow> Some k) \<and>
       set (map userid (getFriendInfoByUserId a m')) =
         {b. contacts (abs_um m') a b \<noteq> [] \<and> known (abs_um m') b} \<and>
       map_option (\<lambda>u. u\<lparr>friends := []\<rparr>) (getUserInfoByUserId a m') = profile (abs_um m') a \<and>
       getTeamInfoByUserId a m' = map_option teaminfo (profile (abs_um m') a))"
proof -
  have wf: "um_wf m'" and run: "dir_run (abs_um m) calls (abs_um m')"
    using um_run_sim [OF assms(2)] assms(1) by simp_all
  show ?thesis using run abs_observers [OF wf] wf by blast
qed

text \<open>Two users become friends, one gives the other a remark, and a statement is refused.\<close>

definition demo_befriended :: user_manager where
  "demo_befriended = snd (updateUserRelationshipInMemory 1 2 FRIEND_OPERATION_ADD two_users)"

definition demo_marked :: user_manager where
  "demo_marked = fst (snd (updateMarknameInDb (table_db [] []) 1 2 ''Bob'' demo_befriended []))"

lemmas demo_simps = demo_marked_def demo_befriended_def two_users_def new_user_def UserManager_def
  updateUserRelationshipInMemory_def default_friend_def

lemma demo_statement: "run_sql (table_db [] []) sql m d = (True, d @ [c_str sql])"
  by (simp add: run_sql_def connect_def table_db_def)

lemma demo_calls:
  "um_do (table_db [] []) (Relationship 1 2 FRIEND_OPERATION_ADD) two_users d = (True, demo_befriended, d)"
  "\<exists>d'. um_do (table_db [] []) (UpdateMarkname 1 2 ''Bob'') demo_befriended d = (True, demo_marked, d')"
  "\<exists>d'. um_do (table_db [] []) (UpdateMarkname 1 3 ''Eve'') demo_marked d = (False, demo_marked, d')"
  by (simp_all add: demo_simps updateMarknameInDb_def demo_statement Let_def)

lemma demo_run:
  "\<exists>d. um_run (table_db [] []) (two_users, [])
     [(Relationship 1 2 FRIEND_OPERATION_ADD, True), (UpdateMarkname 1 2 ''Bob'', True),
      (UpdateMarkname 1 3 ''Eve'', False)] (demo_marked, d)"
  using demo_calls by (metis run_cons run_nil room_for.simps(5,13))

theorem user_manager_refines_directory_witness:
  "dir_run (abs_um two_users)
     [(Relationship 1 2 FRIEND_OPERATION_ADD, True), (UpdateMarkname 1 2 ''Bob'', True),
      (UpdateMarkname 1 3 ''Eve'', False)] (abs_um demo_marked) \<and>
   contacts (abs_um demo_marked) 1 2 \<noteq> []"
proof -
  obtain d where r: "um_run (table_db [] []) (two_users, [])
     [(Relationship 1 2 FRIEND_OPERATION_ADD, True), (UpdateMarkname 1 2 ''Bob'', True),
      (UpdateMarkname 1 3 ''Eve'', False)] (demo_marked, d)" using demo_run by blast
  have "isFriend 1 2 demo_marked"
    by (simp add: isFriend_def demo_simps updateMarknameInDb_def demo_statement Let_def)
  then show ?thesis using user_manager_refines_directory [OF two_users_wf r] by blast
qed

end
