(* ===== verification/String_Util.thy ===== *)
theory String_Util
  imports Talko_Prelude
begin

text \<open>
  The string helpers of \<^verbatim>\<open>common/stringutil.cpp\<close>. The loops of \<^verbatim>\<open>split\<close> and
  \<^verbatim>\<open>replace\<close> are partial functions, \<^const>\<open>None\<close> standing for a loop that never returns;
  \<^verbatim>\<open>trimRight\<close> returns \<^const>\<open>None\<close> where the code reads \<^verbatim>\<open>tmp[i]\<close> outside the string,
  because its \<^verbatim>\<open>size_t\<close> counter passed below zero.

  The reference definition is \<open>pieces d s\<close>, the parts of \<open>s\<close> between the occurrences of
  \<open>d\<close> found from left to right: \<^verbatim>\<open>split\<close> keeps the non-empty pieces, \<^verbatim>\<open>replace\<close> glues
  the pieces with the new text.
\<close>

section \<open>Definitions\<close>

text \<open>
  The body of the loop of \<^verbatim>\<open>split\<close>. A NULL delimiter is \<^const>\<open>None\<close> in \<open>split\<close>.
\<close>

partial_function (option) split_loop ::
  "string \<Rightarrow> string \<Rightarrow> string list \<Rightarrow> string list option" where
  "split_loop delimiter buf v =
     (case find_sub delimiter buf of
        Some pos \<Rightarrow>
          let substr = take pos buf;
              v1 = (if substr \<noteq> [] then v @ [substr] else v)
          in split_loop delimiter (drop (pos + length delimiter) buf) v1
      | None \<Rightarrow> Some (if buf \<noteq> [] then v @ [buf] else v))"

definition split :: "string \<Rightarrow> string list \<Rightarrow> string option \<Rightarrow> string list option" where
  "split str v delimiter =
     (case delimiter of
        None \<Rightarrow> Some v
      | Some d \<Rightarrow> if str = [] then Some v else split_loop d str v)"

definition cut :: "string \<Rightarrow> string list \<Rightarrow> string option \<Rightarrow> string list" where
  "cut str v delimiter =
     (case delimiter of
        None \<Rightarrow> v
      | Some d \<Rightarrow>
          if str = [] then v
          else case find_sub d str of
                 None \<Rightarrow> v
               | Some pos \<Rightarrow>
                   let substr1 = take pos str;
                       substr2 = drop (pos + length d) str;
                       v1 = (if substr1 \<noteq> [] then v @ [substr1] else v)
                   in if substr2 \<noteq> [] then v1 @ [substr2] else v1)"

text \<open>\<^verbatim>\<open>std::string::find(pat, pos)\<close>.\<close>

definition find_from :: "string \<Rightarrow> string \<Rightarrow> nat \<Rightarrow> nat option" where
  "find_from pat str pos =
     (if pos \<le> length str then map_option (\<lambda>i. pos + i) (find_sub pat (drop pos str)) else None)"

partial_function (option) replace_loop ::
  "string \<Rightarrow> nat \<Rightarrow> string \<Rightarrow> string \<Rightarrow> string option" where
  "replace_loop str pos toReplaced newStr =
     (case find_from toReplaced str pos of
        Some p \<Rightarrow>
          replace_loop (take p str @ newStr @ drop (p + length toReplaced) str)
            (p + length newStr) toReplaced newStr
      | None \<Rightarrow> Some str)"

definition replace :: "string \<Rightarrow> string \<Rightarrow> string \<Rightarrow> string option" where
  "replace str toReplaced newStr =
     (if toReplaced = [] \<or> newStr = [] then Some str else replace_loop str 0 toReplaced newStr)"

fun trimLeft_loop :: "string \<Rightarrow> string \<Rightarrow> char \<Rightarrow> string" where
  "trimLeft_loop str [] trimmed = str"
| "trimLeft_loop str (c # rest) trimmed =
     (if c \<noteq> trimmed then c # rest else trimLeft_loop str rest trimmed)"

definition trimLeft :: "string \<Rightarrow> char \<Rightarrow> string" where
  "trimLeft str trimmed = trimLeft_loop str str trimmed"

text \<open>\<open>trimRight_loop tmp trimmed i\<close> is the loop entered with the counter at \<open>i - 1\<close>.\<close>

fun trimRight_loop :: "string \<Rightarrow> char \<Rightarrow> nat \<Rightarrow> string option" where
  "trimRight_loop tmp trimmed 0 = None"
| "trimRight_loop tmp trimmed (Suc i) =
     (if tmp ! i \<noteq> trimmed then Some (take (i + 1) tmp) else trimRight_loop tmp trimmed i)"

definition trimRight :: "string \<Rightarrow> char \<Rightarrow> string option" where
  "trimRight str trimmed = trimRight_loop str trimmed (length str)"

definition trim :: "string \<Rightarrow> char \<Rightarrow> string option" where
  "trim str trimmed = trimRight (trimLeft str trimmed) trimmed"

section \<open>Reference definitions\<close>

function pieces :: "string \<Rightarrow> string \<Rightarrow> string list" where
  "pieces d s =
     (if d = [] then [s]
      else case find_sub d s of
             None \<Rightarrow> [s]
           | Some i \<Rightarrow> take i s # pieces d (drop (i + length d) s))"
  by pat_completeness auto

termination pieces
proof (relation "measure (\<lambda>(_, s). length s)")
  fix d s :: string and i
  assume "d \<noteq> []" "find_sub d s = Some i"
  then have "i + length d \<le> length s" "0 < length d" using find_sub_bound by auto
  then have "length s - (i + length d) < length s" by arith
  then show "((d, drop (i + length d) s), d, s) \<in> measure (\<lambda>(_, s). length s)" by simp
qed simp

declare pieces.simps [simp del]

fun join :: "string \<Rightarrow> string list \<Rightarrow> string" where
  "join d [] = []"
| "join d [p] = p"
| "join d (p # q # ps) = p @ d @ join d (q # ps)"

section \<open>Lemmas\<close>

lemma pieces_nonempty [simp]: "pieces d s \<noteq> []"
  by (subst pieces.simps) (simp split: option.split)

lemma join_Cons: "ps \<noteq> [] \<Longrightarrow> join d (p # ps) = p @ d @ join d ps"
  by (cases ps) auto

lemma take_no_occurrence:
  assumes "find_sub d s = Some i" and "d \<noteq> []"
  shows "find_sub d (take i s) = None"
proof (rule ccontr)
  assume "find_sub d (take i s) \<noteq> None"
  then obtain j where j: "find_sub d (take i s) = Some j" by auto
  then obtain pre post where "take i s = pre @ d @ post" "length pre = j"
    using find_sub_Some by blast
  have "j + length d \<le> i" using find_sub_bound [OF j] by simp
  then have "j < i" using assms(2) by (cases d) auto
  have "s = pre @ d @ (post @ drop i s)"
    using \<open>take i s = pre @ d @ post\<close> append_take_drop_id [of i s] by simp
  then have "drop j s = d @ (post @ drop i s)"
    using \<open>length pre = j\<close> by (metis append_eq_conv_conj)
  then have "is_prefix d (drop j s)" unfolding is_prefix_iff by blast
  then show False using find_sub_first [OF assms(1) \<open>j < i\<close>] by blast
qed

lemma find_sub_split:
  assumes "find_sub d s = Some i"
  shows "s = take i s @ d @ drop (i + length d) s"
proof -
  obtain pre post where "s = pre @ d @ post" "length pre = i"
    using find_sub_Some [OF assms] by blast
  then show ?thesis by auto
qed

lemma pieces_join: "join d (pieces d s) = s"
proof (induction d s rule: pieces.induct)
  case (1 d s)
  show ?case
  proof (cases "d = [] \<or> find_sub d s = None")
    case True
    then show ?thesis by (subst pieces.simps) auto
  next
    case False
    then obtain i where i: "d \<noteq> []" "find_sub d s = Some i" by auto
    then show ?thesis using "1.IH" [OF i] find_sub_split [OF i(2)]
      by (subst pieces.simps) (simp add: join_Cons)
  qed
qed

lemma pieces_no_delimiter: "d \<noteq> [] \<Longrightarrow> p \<in> set (pieces d s) \<Longrightarrow> find_sub d p = None"
proof (induction d s rule: pieces.induct)
  case (1 d s)
  show ?case
  proof (cases "find_sub d s")
    case None
    then show ?thesis using 1 by (subst (asm) (2) pieces.simps) simp
  next
    case (Some i)
    then have "p = take i s \<or> p \<in> set (pieces d (drop (i + length d) s))"
      using 1(2,3) by (subst (asm) pieces.simps) simp
    then show ?thesis using "1.IH" [OF 1(2) Some 1(2)] take_no_occurrence [OF Some 1(2)] by auto
  qed
qed

lemma split_loop_pieces:
  "d \<noteq> [] \<Longrightarrow> split_loop d s v = Some (v @ filter (\<lambda>p. p \<noteq> []) (pieces d s))"
proof (induction d s arbitrary: v rule: pieces.induct)
  case (1 d s)
  show ?case
  proof (cases "find_sub d s")
    case None
    then show ?thesis using 1(2) by (subst split_loop.simps, subst pieces.simps) simp
  next
    case (Some i)
    then show ?thesis using 1(2) "1.IH" [OF 1(2) Some 1(2)]
      by (subst split_loop.simps, subst pieces.simps) (simp add: Let_def)
  qed
qed

lemma split_loop_empty_delimiter: "split_loop [] s v = None"
proof -
  have "split_loop d s v = Some r \<Longrightarrow> d \<noteq> []" for d s v r
  proof (erule split_loop.raw_induct [where P = "\<lambda>d s v r. d \<noteq> []", rotated])
    fix rec :: "string \<Rightarrow> string \<Rightarrow> string list \<Rightarrow> string list option" and d s v r
    assume "\<And>d s v r. rec d s v = Some r \<Longrightarrow> d \<noteq> []"
      and "(case find_sub d s of
          None \<Rightarrow> Some (if s \<noteq> [] then v @ [s] else v)
        | Some pos \<Rightarrow>
            let substr = take pos s; v1 = if substr \<noteq> [] then v @ [substr] else v
            in rec d (drop (pos + length d) s) v1) = Some r"
    then show "d \<noteq> []" by (cases "find_sub d s"; cases s) (auto simp: Let_def)
  qed
  then show ?thesis by (cases "split_loop [] s v") auto
qed

lemma find_from_append [simp]:
  "find_from d (done @ s) (length done) = map_option (\<lambda>i. length done + i) (find_sub d s)"
  by (simp add: find_from_def)

lemma replace_loop_pieces:
  "d \<noteq> [] \<Longrightarrow> replace_loop (done @ s) (length done) d new = Some (done @ join new (pieces d s))"
proof (induction d s arbitrary: "done" rule: pieces.induct)
  case (1 d s)
  show ?case
  proof (cases "find_sub d s")
    case None
    then show ?thesis using 1(2) by (subst replace_loop.simps, subst pieces.simps) simp
  next
    case (Some i)
    then have "i \<le> length s" using find_sub_bound by fastforce
    then show ?thesis using 1(2) Some "1.IH" [OF 1(2) Some 1(2), of "done @ take i s @ new"]
      by (subst replace_loop.simps, subst pieces.simps) (simp add: join_Cons add.assoc)
  qed
qed

lemma trimLeft_loop_drop:
  "\<exists>c\<in>set s. c \<noteq> t \<Longrightarrow> trimLeft_loop str s t = dropWhile (\<lambda>c. c = t) s"
  by (induction s) auto

lemma trimLeft_loop_all: "\<forall>c\<in>set s. c = t \<Longrightarrow> trimLeft_loop str s t = str"
  by (induction s) auto

lemma trimRight_loop_all: "\<forall>j<i. s ! j = t \<Longrightarrow> trimRight_loop s t i = None"
  by (induction i) auto

lemma trimRight_loop_some:
  "i \<le> length s \<Longrightarrow> \<exists>j<i. s ! j \<noteq> t \<Longrightarrow>
    \<exists>k<i. trimRight_loop s t i = Some (take (k + 1) s) \<and> s ! k \<noteq> t \<and> (\<forall>j. k < j \<and> j < i \<longrightarrow> s ! j = t)"
proof (induction i)
  case (Suc i)
  show ?case
  proof (cases "s ! i \<noteq> t")
    case True
    then show ?thesis by (intro exI [of _ i]) auto
  next
    case False
    then have "\<exists>j<i. s ! j \<noteq> t" using Suc.prems(2) less_antisym by blast
    then obtain k where k: "k < i" "trimRight_loop s t i = Some (take (k + 1) s)" "s ! k \<noteq> t"
      "\<forall>j. k < j \<and> j < i \<longrightarrow> s ! j = t" using Suc by auto
    then show ?thesis using False by (intro exI [of _ k]) (auto simp: less_Suc_eq)
  qed
qed simp

lemma trimRight_core:
  assumes "\<exists>c\<in>set s. c \<noteq> t"
  shows "\<exists>r b. trimRight s t = Some r \<and> s = r @ b \<and> set b \<subseteq> {t} \<and> r \<noteq> [] \<and> last r \<noteq> t"
proof -
  have "\<exists>j<length s. s ! j \<noteq> t" using assms by (auto simp: in_set_conv_nth)
  then obtain k where k: "k < length s" "trimRight s t = Some (take (k + 1) s)" "s ! k \<noteq> t"
    "\<forall>j. k < j \<and> j < length s \<longrightarrow> s ! j = t"
    using trimRight_loop_some [of "length s" s t] by (auto simp: trimRight_def)
  have "set (drop (k + 1) s) \<subseteq> {t}" using k(4) by (auto simp: in_set_conv_nth)
  moreover have "last (take (k + 1) s) = s ! k" using k(1) by (simp add: take_Suc_conv_app_nth)
  moreover have "take (k + 1) s \<noteq> []" using k(1) by auto
  ultimately show ?thesis using k(2,3) append_take_drop_id [of "k + 1" s] by metis
qed

section \<open>Properties\<close>

text \<open>
  with a non-empty delimiter \<^verbatim>\<open>split\<close> returns, and appends to the result exactly the
  non-empty parts of the string between the delimiters; the parts contain no delimiter and
  joined by it give the string back. With an empty delimiter its loop never returns.
\<close>

theorem split_correct:
  assumes "str \<noteq> []"
  shows "(d \<noteq> [] \<longrightarrow>
           split str v (Some d) = Some (v @ filter (\<lambda>p. p \<noteq> []) (pieces d str)) \<and>
           join d (pieces d str) = str \<and> (\<forall>p \<in> set (pieces d str). find_sub d p = None)) \<and>
         split str v (Some []) = None"
  using assms
  by (simp add: split_def split_loop_pieces split_loop_empty_delimiter pieces_join pieces_no_delimiter)

theorem split_correct_witness:
  "split ''a||bc|'' [] (Some ''|'') = Some [''a'', ''bc''] \<and> split ''a'' [] (Some []) = None"
proof -
  have "filter (\<lambda>p. p \<noteq> []) (pieces ''|'' ''a||bc|'') = [''a'', ''bc'']" by code_simp
  then show ?thesis
    using split_correct [of "''a||bc|''" "''|''" "[]"] split_correct [of "''a''" "''|''" "[]"] by simp
qed

text \<open>
  \<^verbatim>\<open>replace\<close> always returns; it substitutes every occurrence found from left to right
  and never rescans the inserted text, and it does nothing when either argument is empty.
\<close>

theorem replace_correct:
  "replace str toReplaced newStr =
     Some (if toReplaced = [] \<or> newStr = [] then str else join newStr (pieces toReplaced str))"
  using replace_loop_pieces [of toReplaced "[]" str newStr] by (simp add: replace_def)

text \<open>
  \<^verbatim>\<open>trim\<close> returns exactly when the string has a character to keep, and then removes
  the longest run of trimmed characters at each end; on every other string, the empty one
  included, it runs off the front of the string.
\<close>

theorem trim_correct:
  "(if \<exists>c\<in>set s. c \<noteq> t
    then \<exists>a r b. trim s t = Some r \<and> s = a @ r @ b \<and> set a \<subseteq> {t} \<and> set b \<subseteq> {t} \<and>
           r \<noteq> [] \<and> hd r \<noteq> t \<and> last r \<noteq> t
    else trim s t = None)"
proof (cases "\<exists>c\<in>set s. c \<noteq> t")
  case True
  let ?m = "dropWhile (\<lambda>c. c = t) s"
  have m: "trimLeft s t = ?m" using True by (simp add: trimLeft_def trimLeft_loop_drop)
  have hm: "?m \<noteq> []" "hd ?m \<noteq> t" using True hd_dropWhile [of "\<lambda>c. c = t" s] by auto
  then have "\<exists>c\<in>set ?m. c \<noteq> t" using hd_in_set by blast
  then obtain r b where r: "trimRight ?m t = Some r" "?m = r @ b" "set b \<subseteq> {t}" "r \<noteq> []" "last r \<noteq> t"
    using trimRight_core by blast
  have "set (takeWhile (\<lambda>c. c = t) s) \<subseteq> {t}" by (auto dest: set_takeWhileD)
  moreover have "s = takeWhile (\<lambda>c. c = t) s @ r @ b" using r(2) by (metis takeWhile_dropWhile_id)
  moreover have "hd r \<noteq> t" using hm(2) r(2,4) by simp
  ultimately show ?thesis using True r m unfolding trim_def by auto
next
  case False
  then have "\<forall>j<length s. s ! j = t" by simp
  then show ?thesis using False
    by (simp add: trim_def trimLeft_def trimLeft_loop_all trimRight_def trimRight_loop_all)
qed

end
