(* ===== verification/Http_Session.thy ===== *)
theory Http_Session
  imports Byte_Buffer String_Util Bussiness_Logic "HOL-Library.Monad_Syntax"
begin

text \<open>
  \<^verbatim>\<open>HttpSession\<close> of \<^verbatim>\<open>service/chat/http_session.cpp\<close>: the read callback of a short HTTP
  connection. It looks at the bytes received so far, answers a complete request and closes
  the connection. The calls on the connection (\<^verbatim>\<open>send\<close>, \<^verbatim>\<open>force_close\<close>) are collected
  in order as \<open>http_action\<close>s; \<^verbatim>\<open>URLEncodeUtil::decode\<close>, whose source file is empty, is the
  parameter \<open>decode\<close>. \<^const>\<open>None\<close> stands for an exception that leaves the callback.
\<close>

section \<open>Definitions\<close>

definition MAX_URL_LENGTH :: nat where "MAX_URL_LENGTH = 2048"

datatype http_action = Send string | ForceClose

definition crlf :: string where "crlf = [CHR 0x0D, CHR 0x0A]"

definition makeup_response :: "string \<Rightarrow> string" where
  "makeup_response input =
     ''HTTP/1.1 200 OK'' @ crlf @ ''Content-Type: text/html'' @ crlf @ ''Content-Length:'' @
     dec_nat (length input) @ crlf @ crlf @ input"

definition on_register_response ::
  "'d database \<Rightarrow> 'j json_api \<Rightarrow> junk \<Rightarrow> (string \<Rightarrow> string) \<Rightarrow> string \<Rightarrow> user_manager \<Rightarrow> 'd \<Rightarrow>
     (http_action list \<times> user_manager \<times> 'd) option" where
  "on_register_response db js jk decode data m d =
     do {
       (retData, m1, d1) \<leftarrow> register_user db js jk (decode data) [] m d;
       Some (if retData \<noteq> [] then [Send (makeup_response retData)] else [], m1, d1)
     }"

definition http_process ::
  "'d database \<Rightarrow> 'j json_api \<Rightarrow> junk \<Rightarrow> (string \<Rightarrow> string) \<Rightarrow> string \<Rightarrow> string \<Rightarrow> user_manager \<Rightarrow> 'd \<Rightarrow>
     (bool \<times> http_action list \<times> user_manager \<times> 'd) option" where
  "http_process db js jk decode url param m d =
     (if url = [] then Some (False, [], m, d)
      else if url = ''/register.do'' then
        do {
          (acts, m1, d1) \<leftarrow> on_register_response db js jk decode param m d;
          Some (True, acts, m1, d1)
        }
      else if url = ''/login.do'' \<or> url = ''/getfriendlist.do'' \<or> url = ''/getgroupmembers.do''
      then Some (True, [], m, d)
      else Some (False, [], m, d))"

text \<open>\<^verbatim>\<open>std::string::substr(pos)\<close> throws when \<open>pos\<close> is beyond the end.\<close>

definition substr_from :: "string \<Rightarrow> nat \<Rightarrow> string option" where
  "substr_from s pos = (if pos > length s then None else Some (drop pos s))"

definition http_on_read ::
  "'d database \<Rightarrow> 'j json_api \<Rightarrow> junk \<Rightarrow> (string \<Rightarrow> string) \<Rightarrow> byte_buffer \<Rightarrow> user_manager \<Rightarrow> 'd \<Rightarrow>
     (http_action list \<times> byte_buffer \<times> user_manager \<times> 'd) option" where
  "http_on_read db js jk decode pBuffer m d =
     (let inbuf = string_of_bytes (segment (bb_peek pBuffer) (bb_peek pBuffer + bb_bytes_readable pBuffer) (buffer pBuffer))
      in if length inbuf \<le> 4 then Some ([], pBuffer, m, d)
         else if drop (length inbuf - 4) inbuf \<noteq> crlf @ crlf then Some ([], pBuffer, m, d)
         else if length inbuf \<ge> MAX_URL_LENGTH then Some ([ForceClose], pBuffer, m, d)
         else do {
           lines \<leftarrow> split inbuf [] (Some crlf);
           if length lines < 1 \<or> lines ! 0 = [] then Some ([ForceClose], pBuffer, m, d)
           else do {
             chunk \<leftarrow> split (lines ! 0) [] (Some '' '');
             if length chunk < 3 then Some ([ForceClose], pBuffer, m, d)
             else do {
               part \<leftarrow> split (chunk ! 1) [] (Some ''?'');
               if length part < 2 then Some ([ForceClose], pBuffer, m, d)
               else do {
                 param \<leftarrow> substr_from (part ! 1) 2;
                 (handled, acts, m1, d1) \<leftarrow> http_process db js jk decode (part ! 0) param m d;
                 Some (acts @ [ForceClose],
                       if handled then pBuffer else fst (bb_retrieve_all_as_string pBuffer), m1, d1)
               }
             }
           }
         })"

section \<open>Lemmas\<close>

lemma find_sub_char:
  "c \<notin> set a \<Longrightarrow> find_sub (c # d) (a @ (c # d) @ b) = Some (length a)"
proof (induction a)
  case Nil
  then show ?case by (simp add: is_prefix_iff)
next
  case (Cons x a)
  then show ?case by simp
qed

lemma find_sub_absent: "c \<notin> set a \<Longrightarrow> find_sub (c # d) a = None"
  by (induction a) auto

lemma pieces_char: "c \<notin> set a \<Longrightarrow> pieces (c # d) (a @ c # d @ b) = a # pieces (c # d) b"
  using find_sub_char [of c a d b] by (subst pieces.simps) simp

lemma pieces_absent: "c \<notin> set a \<Longrightarrow> pieces (c # d) a = [a]"
  using find_sub_absent [of c a d] by (subst pieces.simps) simp

lemma split_pieces:
  assumes "str \<noteq> []" and "d \<noteq> []"
  shows "split str [] (Some d) = Some (filter (\<lambda>p. p \<noteq> []) (pieces d str))"
  using assms by (simp add: split_def split_loop_pieces)

text \<open>The request line of a GET request for an address with one parameter string.\<close>

definition request_line :: "string \<Rightarrow> string \<Rightarrow> string" where
  "request_line url qry = ''GET '' @ url @ ''?'' @ qry @ '' HTTP/1.1''"

lemma split_request_line:
  assumes "CHR '' '' \<notin> set url" and "CHR '' '' \<notin> set qry"
  shows "split (request_line url qry) [] (Some '' '') = Some [''GET'', url @ ''?'' @ qry, ''HTTP/1.1'']"
proof -
  let ?R = "(url @ ''?'' @ qry) @ CHR '' '' # [] @ ''HTTP/1.1''"
  have "pieces '' '' (''GET'' @ CHR '' '' # [] @ ?R) = ''GET'' # pieces '' '' ?R"
    by (rule pieces_char) simp
  moreover have "pieces '' '' ?R = (url @ ''?'' @ qry) # pieces '' '' ''HTTP/1.1''"
    using assms by (intro pieces_char) simp
  moreover have "pieces '' '' ''HTTP/1.1'' = [''HTTP/1.1'']" by (rule pieces_absent) simp
  moreover have "request_line url qry = ''GET'' @ CHR '' '' # [] @ ?R" by (simp add: request_line_def)
  ultimately have "pieces '' '' (request_line url qry) = [''GET'', url @ ''?'' @ qry, ''HTTP/1.1'']"
    by metis
  then show ?thesis by (subst split_pieces) (simp_all add: request_line_def)
qed

lemma split_url:
  assumes "CHR ''?'' \<notin> set url" and "CHR ''?'' \<notin> set qry" and "url \<noteq> []" and "qry \<noteq> []"
  shows "split (url @ ''?'' @ qry) [] (Some ''?'') = Some [url, qry]"
proof -
  have "pieces ''?'' (url @ ''?'' @ qry) = [url, qry]"
    using pieces_char [OF assms(1), of "[]" qry] pieces_absent [OF assms(2)] by simp
  then show ?thesis using assms by (simp add: split_pieces)
qed

lemma split_head:
  assumes "CHR 0x0D \<notin> set first" and "first \<noteq> []"
  shows "\<exists>ls. split (first @ crlf @ rest) [] (Some crlf) = Some (first # ls)"
  using pieces_char [OF assms(1), of "[CHR 0x0A]" rest] assms(2) by (simp add: split_pieces crlf_def)

lemma crlf_not_digit: "CHR 0x0D \<notin> set (dec_nat n)"
proof
  assume "CHR 0x0D \<in> set (dec_nat n)"
  then obtain d where "d < 10" "CHR 0x0D = digit_char d" using dec_nat_chars by blast
  then have "of_char (CHR 0x0D) = 48 + d" using of_digit_char by simp
  then show False by simp
qed

lemma makeup_response_inj:
  assumes "makeup_response a = makeup_response b"
  shows "a = b"
proof -
  have e: "dec_nat (length a) @ CHR 0x0D # (CHR 0x0A # crlf @ a) = dec_nat (length b) @ CHR 0x0D # (CHR 0x0A # crlf @ b)"
    using assms by (simp add: makeup_response_def crlf_def)
  have "takeWhile (\<lambda>c. c \<noteq> CHR 0x0D) (dec_nat n @ CHR 0x0D # xs) = dec_nat n" for n xs
    using crlf_not_digit [of n] by (subst takeWhile_append2) auto
  then show ?thesis using e by (simp add: crlf_def) (metis append_eq_append_conv list.inject)
qed

lemma http_dispatch:
  assumes "bb_content b = bytes_of_string (request_line url qry @ crlf @ headers @ crlf @ crlf)"
    and "bb_wf b"
    and "length (request_line url qry @ crlf @ headers @ crlf @ crlf) < MAX_URL_LENGTH"
    and "{CHR '' '', CHR ''?'', CHR 0x0D} \<inter> (set url \<union> set qry) = {}"
    and "url \<noteq> []" and "2 \<le> length qry"
  shows "http_on_read db js jk decode b m d =
    (case http_process db js jk decode url (drop 2 qry) m d of
       None \<Rightarrow> None
     | Some (handled, acts, m1, d1) \<Rightarrow>
         Some (acts @ [ForceClose], if handled then b else fst (bb_retrieve_all_as_string b), m1, d1))"
proof -
  let ?req = "request_line url qry @ crlf @ headers @ crlf @ crlf"
  have inbuf: "string_of_bytes (segment (bb_peek b) (bb_peek b + bb_bytes_readable b) (buffer b)) = ?req"
    using assms(1,2)
    by (simp add: bb_content_def bb_peek_def bb_bytes_readable_def bb_wf_def del: bytes_of_string_append)
  have "drop (length ?req - 4) ?req = crlf @ crlf" by (simp add: crlf_def)
  moreover have "4 < length ?req" by (simp add: request_line_def)
  moreover obtain ls where "split ?req [] (Some crlf) = Some (request_line url qry # ls)"
    using split_head [of "request_line url qry" "headers @ crlf @ crlf"] assms(4)
    by (auto simp: request_line_def)
  moreover have "split (request_line url qry) [] (Some '' '') = Some [''GET'', url @ ''?'' @ qry, ''HTTP/1.1'']"
    using assms(4) by (intro split_request_line) auto
  moreover have "split (url @ ''?'' @ qry) [] (Some ''?'') = Some [url, qry]"
    using assms(4-6) by (intro split_url) auto
  moreover have "substr_from qry 2 = Some (drop 2 qry)" using assms(6) by (simp add: substr_from_def)
  moreover have "request_line url qry \<noteq> []" by (simp add: request_line_def)
  ultimately show ?thesis using assms(3)
    unfolding http_on_read_def Let_def inbuf by (auto split: option.split prod.split)
qed

section \<open>Properties\<close>

text \<open>
  C14: a complete GET request below the size limit, whose address and parameter contain no
  blank, question mark or carriage return, is taken apart as intended: whatever header lines
  follow, \<^verbatim>\<open>_process\<close> runs once on the address and the parameter without its first two
  characters, its output is sent, and the connection is closed afterwards.
\<close>

theorem http_request_dispatched:
  assumes "bb_content b = bytes_of_string (request_line url qry @ crlf @ headers @ crlf @ crlf)"
    and "bb_wf b"
    and "length (request_line url qry @ crlf @ headers @ crlf @ crlf) < MAX_URL_LENGTH"
    and "{CHR '' '', CHR ''?'', CHR 0x0D} \<inter> (set url \<union> set qry) = {}"
    and "url \<noteq> []" and "2 \<le> length qry"
  shows "http_on_read db js jk decode b m d =
    (case http_process db js jk decode url (drop 2 qry) m d of
       None \<Rightarrow> None
     | Some (handled, acts, m1, d1) \<Rightarrow>
         Some (acts @ [ForceClose], if handled then b else fst (bb_retrieve_all_as_string b), m1, d1))"
  by (rule http_dispatch [OF assms])

text \<open>A buffer that received a whole text.\<close>

definition received :: "string \<Rightarrow> byte_buffer" where
  "received s = bb_append (ByteBuffer 0) (bytes_of_string s)"

lemma received_content: "bb_content (received s) = bytes_of_string s" and received_wf: "bb_wf (received s)"
  using bb_append_correct [of "ByteBuffer 0" "bytes_of_string s"] by (simp_all add: received_def)

theorem http_request_dispatched_witness:
  "\<exists>b. http_on_read (table_db [] []) echo_json \<lparr>j_userid = 0, j_facetype = 0, j_gender = 0, j_birthday = 0,
     j_ownerid = 0\<rparr> (\<lambda>x. x) (received (request_line ''/login.do'' ''p=a'' @ crlf @ ''Host: h'' @ crlf @ crlf))
     UserManager [] = Some ([ForceClose], b, UserManager, [])"
proof -
  let ?j = "\<lparr>j_userid = 0, j_facetype = 0, j_gender = 0, j_birthday = 0, j_ownerid = 0\<rparr>"
  have "length (request_line ''/login.do'' ''p=a'' @ crlf @ ''Host: h'' @ crlf @ crlf) < MAX_URL_LENGTH"
    by (simp add: request_line_def crlf_def MAX_URL_LENGTH_def)
  then show ?thesis
    using http_request_dispatched [OF received_content received_wf, where db = "table_db [] []" and js = echo_json
        and jk = ?j and decode = "\<lambda>x. x" and m = UserManager and d = "[]"
        and url = "''/login.do''" and qry = "''p=a''" and headers = "''Host: h''"]
    by (simp add: http_process_def)
qed

text \<open>
  bytes that do not end in an empty line are left in the buffer and answered by
  nothing, whatever their number: the limit of 2048 bytes applies only to complete
  requests, the unfinished ones it is meant for are kept without bound.
\<close>

theorem http_unfinished_kept:
  assumes "bb_wf b" and "bb_content b = bytes_of_string s" and "drop (length s - 4) s \<noteq> crlf @ crlf"
  shows "http_on_read db js jk decode b m d = Some ([], b, m, d)"
proof -
  have "string_of_bytes (segment (bb_peek b) (bb_peek b + bb_bytes_readable b) (buffer b)) = s"
    using assms(1,2) by (simp add: bb_content_def bb_peek_def bb_bytes_readable_def bb_wf_def)
  then show ?thesis using assms(3) by (simp add: http_on_read_def Let_def)
qed

theorem http_unfinished_kept_witness:
  "http_on_read (table_db [] []) echo_json \<lparr>j_userid = 0, j_facetype = 0, j_gender = 0, j_birthday = 0,
     j_ownerid = 0\<rparr> (\<lambda>x. x) (received (replicate 5000 (CHR ''x''))) UserManager [] =
   Some ([], received (replicate 5000 (CHR ''x'')), UserManager, [])"
  by (rule http_unfinished_kept [OF received_wf received_content]) (simp add: crlf_def drop_replicate numeral_eq_Suc)

text \<open>
  two complete HTTP registrations of one name: the first, when it is answered with code
  0, leaves the name registered, and the second is answered with code 101; each answer is
  one response with the length of its body, followed by closing the connection.
\<close>

theorem http_register_twice:
  assumes "um_wf m" and "0 \<notin> set (ids m)" and "base_user_id m + 1 < GROUPID_BOUBDARY"
    and "well_formed js (decode q1) name nick pass" and "well_formed js (decode q2) name nick2 pass2"
    and "on_register_response db js jk decode q1 m d =
           Some ([Send (makeup_response (json_reply ''0'' ''ok''))], m', d')"
  shows "on_register_response db js jk decode q2 m' d' =
      Some ([Send (makeup_response (json_reply ''101'' ''registered already''))], m', d') \<and>
    (\<exists>c. getUserInfoByUsername name m' = Some c \<and> password c = pass \<and> nickname c = nick)"
proof -
  obtain ret where r: "register_user db js jk (decode q1) [] m d = Some (ret, m', d')"
    and resp: "makeup_response ret = makeup_response (json_reply ''0'' ''ok'')"
    using assms(6) by (auto simp: on_register_response_def split: if_splits bind_splits)
  have ok: "register_user db js jk (decode q1) [] m d = Some (json_reply ''0'' ''ok'', m', d')"
    using r makeup_response_inj [OF resp] by simp
  have inv: "directory_inv (m, d)" "directory_room (m, d)"
    using assms(1-3) by (simp_all add: directory_inv_def directory_room_def)
  note s0 = register_ok_signup [OF assms(4) ok]
  obtain c where c: "getUserInfoByUsername name m' = Some c" "password c = pass" "nickname c = nick"
    using um.signup_ok [OF inv s0] by auto
  have inv': "directory_inv (m', d')"
    using um.signup_inv [OF inv, of db "request_user jk name nick pass"] s0 by simp
  have "json_reply ''101'' ''registered already'' \<noteq> []" by (simp add: json_reply_def)
  then show ?thesis using c register_known [OF assms(5) inv' c(1), of db jk "[]"]
    by (simp add: on_register_response_def)
qed

theorem http_register_twice_witness:
  "\<exists>m' d'. on_register_response (table_db [] []) echo_json \<lparr>j_userid = 0, j_facetype = 0, j_gender = 0, j_birthday = 0,
       j_ownerid = 0\<rparr> (\<lambda>x. x) ''eve'' m' d' =
     Some ([Send (makeup_response (json_reply ''101'' ''registered already''))], m', d')"
proof -
  let ?j = "\<lparr>j_userid = 0, j_facetype = 0, j_gender = 0, j_birthday = 0, j_ownerid = 0\<rparr>"
  have w: "well_formed echo_json ((\<lambda>x. x) ''eve'') ''eve'' ''eve'' ''eve''"
    by (simp add: well_formed_def echo_json_def read_members_def)
  have h: "(0::int) \<notin> set (ids UserManager)" "base_user_id UserManager + 1 < GROUPID_BOUBDARY"
    by (simp_all add: UserManager_def GROUPID_BOUBDARY_def)
  obtain m' d' where r: "on_register_response (table_db [] []) echo_json ?j (\<lambda>x. x) ''eve'' UserManager [] =
      Some ([Send (makeup_response (json_reply ''0'' ''ok''))], m', d')"
    by (simp add: on_register_response_def register_user_def echo_json_def read_members_def
        getUserInfoByUsername_def UserManager_def addUser_def connect_def table_db_def Let_def json_reply_def)
  show ?thesis using http_register_twice [OF UserManager_wf h w w r] by blast
qed

end
