(* ===== verification/Http_Connection.thy ===== *)
theory Http_Connection
  imports Http_Session Tcp_Connection
begin

text \<open>
  An \<^verbatim>\<open>HttpSession\<close> on its connection: what the calls of the session do to the
  \<^verbatim>\<open>TcpConnection\<close> they are made on, and requests that arrive in pieces. The session runs in
  the read callback, in the thread of the loop, so its \<^verbatim>\<open>send\<close> writes at once; \<open>n\<close> and \<open>err\<close>
  are the result of that write. The functor queued by \<^verbatim>\<open>force_close\<close> runs with the other
  functors at the end of the same turn of the loop.
\<close>

section \<open>Definitions\<close>

text \<open>The session keeps a weak pointer to its connection; \<^const>\<open>None\<close> is an expired one.\<close>

record 'k http_session =
  http_tmp_conn :: "'k tcp_connection option"

definition HttpSession :: "'k tcp_connection \<Rightarrow> 'k http_session" where
  "HttpSession conn = \<lparr>http_tmp_conn = Some conn\<rparr>"

definition http_get_conn_ptr :: "'k http_session \<Rightarrow> 'k tcp_connection option" where
  "http_get_conn_ptr s = (case http_tmp_conn s of None \<Rightarrow> None | Some c \<Rightarrow> Some c)"

definition http_send ::
  "'k epoll_ctl \<Rightarrow> bool \<Rightarrow> int \<Rightarrow> int \<Rightarrow> byte list \<Rightarrow> 'k http_session \<Rightarrow> 'k http_session" where
  "http_send ctl in_loop n err data s =
     (case http_tmp_conn s of None \<Rightarrow> s | Some conn \<Rightarrow> s\<lparr>http_tmp_conn := Some (send ctl in_loop n err data conn)\<rparr>)"

text \<open>The calls the session makes on the connection, carried out.\<close>

fun run_action :: "'k epoll_ctl \<Rightarrow> int \<Rightarrow> int \<Rightarrow> http_action \<Rightarrow> 'k tcp_connection \<Rightarrow> 'k tcp_connection" where
  "run_action ctl n err (Send s) c = send ctl True n err (bytes_of_string s) c"
| "run_action ctl n err ForceClose c = force_close c"

definition http_conn_read ::
  "'d database \<Rightarrow> 'j json_api \<Rightarrow> junk \<Rightarrow> (string \<Rightarrow> string) \<Rightarrow> 'k epoll_ctl \<Rightarrow> int \<Rightarrow> int \<Rightarrow>
     'k tcp_connection \<Rightarrow> user_manager \<Rightarrow> 'd \<Rightarrow> ('k tcp_connection \<times> user_manager \<times> 'd) option" where
  "http_conn_read db js jk decode ctl n err c m d =
     (case http_on_read db js jk decode (input_buffer c) m d of
        None \<Rightarrow> None
      | Some (acts, b, m1, d1) \<Rightarrow> Some (fold (run_action ctl n err) acts (c\<lparr>input_buffer := b\<rparr>), m1, d1))"

text \<open>The functors of a connection, run by the loop: it takes the whole list and calls each.\<close>

definition run_queued :: "'k epoll_ctl \<Rightarrow> int \<Rightarrow> int \<Rightarrow> 'k tcp_connection \<Rightarrow> 'k tcp_connection" where
  "run_queued ctl n err c = fold (run_task ctl n err) (queued c) (c\<lparr>queued := []\<rparr>)"

text \<open>
  Bytes that arrive in pieces: each piece is appended to the input buffer and the callback
  runs, until it makes a call on the connection. The bytes enter the buffer with \<^const>\<open>bb_append\<close>, the
  way \<^verbatim>\<open>bb_read_fd\<close> is meant to put them there; that its Linux branch leaves small reads out of the
  buffer is the theorem \<open>bb_read_fd_ignores_received_bytes\<close> of \<open>Byte_Buffer\<close>.
\<close>

fun http_feed ::
  "'d database \<Rightarrow> 'j json_api \<Rightarrow> junk \<Rightarrow> (string \<Rightarrow> string) \<Rightarrow> string list \<Rightarrow> byte_buffer \<Rightarrow> user_manager \<Rightarrow> 'd \<Rightarrow>
     (http_action list \<times> byte_buffer \<times> user_manager \<times> 'd) option" where
  "http_feed db js jk decode [] b m d = Some ([], b, m, d)"
| "http_feed db js jk decode (s # ss) b m d =
     (case http_on_read db js jk decode (bb_append b (bytes_of_string s)) m d of
        None \<Rightarrow> None
      | Some (acts, b1, m1, d1) \<Rightarrow>
          if acts \<noteq> [] then Some (acts, b1, m1, d1) else http_feed db js jk decode ss b1 m1 d1)"

section \<open>Lemmas\<close>

definition complete :: "string \<Rightarrow> bool" where
  "complete s \<longleftrightarrow> 4 < length s \<and> drop (length s - 4) s = crlf @ crlf"

lemma on_read_unfinished:
  assumes "bb_wf b" and "bb_content b = bytes_of_string s" and "\<not> complete s"
  shows "http_on_read db js jk decode b m d = Some ([], b, m, d)"
proof -
  have "string_of_bytes (segment (bb_peek b) (bb_peek b + bb_bytes_readable b) (buffer b)) = s"
    using assms(1,2) by (simp add: bb_content_def bb_peek_def bb_bytes_readable_def bb_wf_def)
  then show ?thesis using assms(3) by (simp add: http_on_read_def Let_def complete_def)
qed

text \<open>The callback looks at the content only.\<close>

abbreviation outcome ::
  "(http_action list \<times> byte_buffer \<times> user_manager \<times> 'd) option \<Rightarrow> (http_action list \<times> user_manager \<times> 'd) option" where
  "outcome r \<equiv> map_option (\<lambda>(acts, b, m, d). (acts, m, d)) r"

lemma on_read_content:
  assumes "bb_wf b" and "bb_wf b'" and "bb_content b = bb_content b'"
  shows "outcome (http_on_read db js jk decode b m d) = outcome (http_on_read db js jk decode b' m d)"
proof -
  have "segment (bb_peek b) (bb_peek b + bb_bytes_readable b) (buffer b) =
      segment (bb_peek b') (bb_peek b' + bb_bytes_readable b') (buffer b')"
    using peeked_content [OF assms(1)] peeked_content [OF assms(2)] assms(3) by simp
  then show ?thesis
    by (auto simp: http_on_read_def Let_def split: bind_splits)
qed

text \<open>The request is complete only once all of it is there.\<close>

definition ends_once :: "string \<Rightarrow> bool" where
  "ends_once req \<longleftrightarrow> (\<forall>k<length req. \<not> complete (take k req))"

lemma feed_content:
  assumes "bb_wf b" and "bb_content b = bytes_of_string p" and "ends_once (p @ concat ss)"
    and "ss \<noteq> []" and "[] \<notin> set ss" and "bb_wf B" and "bb_content B = bytes_of_string (p @ concat ss)"
  shows "outcome (http_feed db js jk decode ss b m d) = outcome (http_on_read db js jk decode B m d)"
  using assms(1-5,7)
proof (induction ss arbitrary: b p)
  case (Cons s ss)
  let ?b = "bb_append b (bytes_of_string s)"
  have b: "bb_wf ?b" "bb_content ?b = bytes_of_string (p @ s)"
    using bb_append_correct [OF Cons.prems(1), of "bytes_of_string s"] Cons.prems(2) by simp_all
  show ?case
  proof (cases "ss = []")
    case True
    have "outcome (http_on_read db js jk decode ?b m d) = outcome (http_on_read db js jk decode B m d)"
      using on_read_content [OF b(1) assms(6)] b(2) Cons.prems(6) True by simp
    moreover have "outcome (http_feed db js jk decode [s] b m d) = outcome (http_on_read db js jk decode ?b m d)"
      by (simp split: option.split)
    ultimately show ?thesis using True by simp
  next
    case False
    then have "concat ss \<noteq> []" using Cons.prems(5) by (cases ss) auto
    then have "length (p @ s) < length (p @ concat (s # ss))" by simp
    then have "\<not> complete (take (length (p @ s)) (p @ concat (s # ss)))"
      using Cons.prems(3) unfolding ends_once_def by blast
    then have "\<not> complete (p @ s)" by simp
    then have "http_on_read db js jk decode ?b m d = Some ([], ?b, m, d)"
      by (rule on_read_unfinished [OF b])
    then show ?thesis using Cons.IH [OF b(1), of "p @ s"] b(2) Cons.prems False by simp
  qed
qed simp

lemma bb_content_empty: "bb_content (ByteBuffer k) = bytes_of_string []"
  by (simp add: ByteBuffer_def bb_content_def bytes_of_string_def)

lemma feed_unfinished:
  assumes "bb_wf b" and "bb_content b = bytes_of_string p"
    and "\<And>k. k \<le> length (p @ concat ss) \<Longrightarrow> \<not> complete (take k (p @ concat ss))"
  shows "\<exists>b'. http_feed db js jk decode ss b m d = Some ([], b', m, d)"
  using assms
proof (induction ss arbitrary: b p)
  case (Cons s ss)
  let ?b = "bb_append b (bytes_of_string s)"
  have b: "bb_wf ?b" "bb_content ?b = bytes_of_string (p @ s)"
    using bb_append_correct [OF Cons.prems(1), of "bytes_of_string s"] Cons.prems(2) by simp_all
  have "\<not> complete (p @ s)" using Cons.prems(3) [of "length (p @ s)"] by simp
  then have "http_on_read db js jk decode ?b m d = Some ([], ?b, m, d)"
    by (rule on_read_unfinished [OF b])
  then show ?case using Cons.IH [OF b] Cons.prems(3) by simp
qed simp

section \<open>After the close\<close>

definition silent :: "'k tcp_connection \<Rightarrow> bool" where
  "silent c \<longleftrightarrow> state c = kDisconnected \<and> \<not> writing c"

lemma conn_step_silent:
  assumes "conn_step ctl s s'" and "silent (fst s)"
  shows "silent (fst s') \<and> wire (fst s') = wire (fst s)"
  using assms
proof (induction rule: conn_step.induct)
  case (task c t ts c0 n acc err)
  then have "silent c0" "wire c0 = wire c" by (simp_all add: silent_def)
  then show ?case
    by (cases t) (auto simp: silent_def send_in_loop_def shutdown_in_loop_def force_close_in_loop_def)
next
  case (destroyed c acc)
  then show ?case using conn_destroyed_frame [where ctl = ctl and c = c] by (simp add: silent_def)
next
  case (loop_goes_on p c ev acc)
  then show ?case using writing_loop_goes_on [OF loop_goes_on.hyps] by (simp add: silent_def)
qed (auto simp: silent_def conn_established_def send_def handle_write_def handle_read_def handle_error_def
    handle_close_def shutdown_def force_close_def Let_def case_prod_beta)

lemma conn_steps_silent:
  "(conn_step ctl)\<^sup>*\<^sup>* s s' \<Longrightarrow> silent (fst s) \<Longrightarrow> silent (fst s') \<and> wire (fst s') = wire (fst s)"
proof (induction rule: rtranclp_induct)
  case (step t u)
  then show ?case using conn_step_silent [OF step.hyps(2)] by simp
qed simp

text \<open>One write on an idle connection: what it puts on the wire and the functors it queues.\<close>

fun notice :: "conn_task \<Rightarrow> bool" where
  "notice WriteCompleteTask = True"
| "notice (HighWaterTask k) = True"
| "notice t = False"

lemma run_notices: "list_all notice ts \<Longrightarrow> fold (run_task ctl n err) ts c = c"
proof (induction ts arbitrary: c)
  case (Cons t ts)
  then show ?case by (cases t) simp_all
qed simp

lemma send_idle:
  assumes "state c = kConnected" and "outgoing c = []" and "\<not> writing c" and "bb_wf (output_buffer c)"
    and "n \<le> int (length data)" and "length data < 2 ^ 64" and "list_all notice (queued c)"
    and c'_def: "c' = send ctl True n err data c"
  shows "wire c' = wire c @ take (nat n) data \<and> state c' = kConnected \<and> calls c' = calls c \<and>
    list_all notice (queued c')"
proof -
  obtain nw rem fault c1 where t: "try_write n err data c = (nw, rem, fault, c1)" by (metis prod_cases4)
  note tw = try_write_cases [OF assms(4-6) t]
  have r: "bb_bytes_readable (output_buffer c) = 0"
    using readable_content [OF assms(4)] assms(2) by (simp add: outgoing_def)
  have nw: "take nw data = take (nat n) data" and q: "list_all notice (queued c1)"
    using t assms(3,7) r by (auto simp: try_write_def Let_def split: if_splits)
  have "wire c' = wire c1 \<and> state c' = state c1 \<and> calls c' = calls c1 \<and> (list_all notice (queued c1) \<longrightarrow> list_all notice (queued c'))"
    using assms(1) t by (simp add: c'_def send_def send_in_loop_def Let_def)
  then show ?thesis using tw(3,5,6) nw q assms(1) by simp
qed

lemma http_answer:
  assumes "state c = kConnected" and "outgoing c = []" and "\<not> writing c" and "bb_wf (output_buffer c)"
    and "queued c = []" and "n \<le> int (length resp)" and "length resp < 2 ^ 64"
    and "c1 = fold (run_action ctl n err) [Send resp, ForceClose] c" and "c2 = run_queued ctl n' err' c1"
  shows "wire c2 = wire c @ take (nat n) (bytes_of_string resp) \<and> silent c2 \<and>
    calls c2 = calls c @ [CallConn, CallClose]"
proof -
  let ?s = "send ctl True n err (bytes_of_string resp) c"
  have s: "wire ?s = wire c @ take (nat n) (bytes_of_string resp)" "state ?s = kConnected"
    "calls ?s = calls c" "list_all notice (queued ?s)"
    using send_idle [OF assms(1-4) _ _ _ refl, of n "bytes_of_string resp" ctl err] assms(5-7) by simp_all
  let ?q = "?s\<lparr>state := kDisconnecting, queued := []\<rparr>"
  have "c1 = ?s\<lparr>state := kDisconnecting, queued := queued ?s @ [ForceCloseTask]\<rparr>"
    using s(2) by (simp add: assms(8) force_close_def queue_task_def)
  then have "c2 = run_task ctl n' err' ForceCloseTask (fold (run_task ctl n' err') (queued ?s) ?q)"
    by (simp add: assms(9) run_queued_def)
  then have "c2 = handle_close ctl ?q" by (simp add: run_notices [OF s(4)] force_close_in_loop_def)
  then show ?thesis using s by (simp add: handle_close_frame silent_def)
     (simp add: handle_close_def Let_def channel_writing)
qed

section \<open>Properties\<close>


definition demo_junk :: junk where
  "demo_junk = \<lparr>j_userid = 0, j_facetype = 0, j_gender = 0, j_birthday = 0, j_ownerid = 0\<rparr>"


text \<open>
  C30: a registration over HTTP on an idle connection. The complete request makes one call of
  \<^verbatim>\<open>register_user\<close>; of its response exactly the bytes the socket takes at the first write
  reach the wire, then the connection is closed and reports it once, and nothing the loop
  does with the connection afterwards sends another byte. So the client sees the whole
  response exactly when one write takes it; the rest of a longer one is lost.
\<close>

theorem http_response_single_write:
  assumes "bb_wf (input_buffer c)" and "bb_content (input_buffer c) =
      bytes_of_string (request_line ''/register.do'' qry @ crlf @ headers @ crlf @ crlf)"
    and "length (request_line ''/register.do'' qry @ crlf @ headers @ crlf @ crlf) < MAX_URL_LENGTH"
    and "{CHR '' '', CHR ''?'', CHR 0x0D} \<inter> set qry = {}" and "2 \<le> length qry"
    and "register_user db js jk (decode (drop 2 qry)) [] m d = Some (ret, m', d')" and "ret \<noteq> []"
    and "state c = kConnected" and "outgoing c = []" and "\<not> writing c" and "bb_wf (output_buffer c)"
    and "queued c = []" and "n \<le> int (length (makeup_response ret))" and "length (makeup_response ret) < 2 ^ 64"
  shows "\<exists>c1 c2. http_conn_read db js jk decode ctl n err c m d = Some (c1, m', d') \<and>
    c2 = run_queued ctl n' err' c1 \<and> state c2 = kDisconnected \<and>
    wire c2 = wire c @ take (nat n) (bytes_of_string (makeup_response ret)) \<and>
    calls c2 = calls c @ [CallConn, CallClose] \<and>
    (\<forall>acc s. (conn_step ctl)\<^sup>*\<^sup>* (c2, acc) s \<longrightarrow> wire (fst s) = wire c2)"
proof -
  have "{CHR '' '', CHR ''?'', CHR 0x0D} \<inter> (set ''/register.do'' \<union> set qry) = {}" using assms(4) by auto
  then have r: "http_on_read db js jk decode (input_buffer c) m d =
      Some ([Send (makeup_response ret), ForceClose], input_buffer c, m', d')"
    using http_dispatch [OF assms(2,1,3) _ _ assms(5), of db js jk decode m d] assms(6,7)
    by (simp add: http_process_def on_register_response_def)
  let ?c1 = "fold (run_action ctl n err) [Send (makeup_response ret), ForceClose] c"
  let ?c2 = "run_queued ctl n' err' ?c1"
  have "wire ?c2 = wire c @ take (nat n) (bytes_of_string (makeup_response ret))" and s: "silent ?c2"
    and "calls ?c2 = calls c @ [CallConn, CallClose]"
    using http_answer [OF assms(8-14) refl refl, where ctl = ctl and err = err and n' = n' and err' = err'] by simp_all
  moreover have "http_conn_read db js jk decode ctl n err c m d = Some (?c1, m', d')"
    by (simp add: http_conn_read_def r)
  moreover have "wire (fst t) = wire ?c2" if "(conn_step ctl)\<^sup>*\<^sup>* (?c2, acc) t" for acc t
    using conn_steps_silent [OF that] s by simp
  ultimately show ?thesis using s silent_def by blast
qed

text \<open>A request for the name eve on the established connection, of whose answer five bytes are taken.\<close>

definition demo_request :: string where
  "demo_request = request_line ''/register.do'' ''p=eve'' @ crlf @ ''Host: h'' @ crlf @ crlf"

definition demo_http_conn :: "(int \<rightharpoonup> mask \<times> caddr) tcp_connection" where
  "demo_http_conn = demo_conn\<lparr>input_buffer := received demo_request\<rparr>"

theorem http_response_single_write_witness:
  "\<exists>c1 c2 m' d'. http_conn_read (table_db [] []) echo_json demo_junk (\<lambda>x. x) list_kernel 5 0 demo_http_conn UserManager [] =
      Some (c1, m', d') \<and> c2 = run_queued list_kernel 0 0 c1 \<and> state c2 = kDisconnected \<and>
    wire c2 = wire demo_http_conn @ take 5 (bytes_of_string (makeup_response (json_reply ''0'' ''ok'')))"
proof -
  obtain m' d' where r: "register_user (table_db [] []) echo_json demo_junk ((\<lambda>x. x) (drop 2 ''p=eve'')) [] UserManager [] =
      Some (json_reply ''0'' ''ok'', m', d')"
    by (simp add: register_user_def echo_json_def read_members_def
        getUserInfoByUsername_def UserManager_def addUser_def connect_def table_db_def Let_def)
  have ret: "json_reply ''0'' ''ok'' \<noteq> []" by (simp add: json_reply_def)
  have len: "length (makeup_response (json_reply ''0'' ''ok'')) = 87" by code_simp
  have c: "bb_wf (input_buffer demo_http_conn)" "bb_content (input_buffer demo_http_conn) =
      bytes_of_string (request_line ''/register.do'' ''p=eve'' @ crlf @ ''Host: h'' @ crlf @ crlf)"
    "state demo_http_conn = kConnected" "outgoing demo_http_conn = []" "\<not> writing demo_http_conn"
    "bb_wf (output_buffer demo_http_conn)" "queued demo_http_conn = []"
    using conn_reachable_stream [OF demo_conn_reachable] demo_conn_state received_wf received_content
    by (simp_all add: demo_http_conn_def demo_request_def outgoing_def stream_inv_def)
  have l: "length (request_line ''/register.do'' ''p=eve'' @ crlf @ ''Host: h'' @ crlf @ crlf) < MAX_URL_LENGTH"
    by (simp add: request_line_def crlf_def MAX_URL_LENGTH_def)
  have q: "{CHR '' '', CHR ''?'', CHR 0x0D} \<inter> set ''p=eve'' = {}" "2 \<le> length ''p=eve''" by simp_all
  show ?thesis
    using http_response_single_write [where decode = "\<lambda>x. x" and n = 5 and err = 0 and n' = 0 and err' = 0
        and ctl = list_kernel, OF c(1,2) l q r ret c(3-7)] len by fastforce
qed

end
