(* ===== verification/Loop_Thread_Pool.thy ===== *)
theory Loop_Thread_Pool
  imports Talko_Prelude
begin

text \<open>
  The threads that run event loops: \<^verbatim>\<open>EventLoopThread\<close> of
  \<^verbatim>\<open>network/event_loop_thread.{h,cpp}\<close> and \<^verbatim>\<open>EventLoopThreadPool\<close> of
  \<^verbatim>\<open>network/event_loop_threadpool.{h,cpp}\<close>. A loop is named by its address.

  One \<^verbatim>\<open>EventLoopThread\<close> is a step relation over the positions of its two threads: the
  owner, in \<^verbatim>\<open>start_loop\<close> and \<^verbatim>\<open>stop_loop\<close>, and the new thread in \<^verbatim>\<open>_thread_func\<close>. Of
  the loop itself only the flag \<^verbatim>\<open>quit_\<close> matters, which \<^verbatim>\<open>EventLoop::loop\<close> clears on
  entry.

  The pool's operations are functions; the loops that \<^verbatim>\<open>start_loop\<close> returns are an
  argument. The result \<open>None\<close> stands for a call through a null pointer.
\<close>

section \<open>One thread with its loop\<close>

type_synonym loop_id = nat

datatype owner_pc = Idle | Waiting | Woken | Returned "loop_id option" | Joining | Joined

datatype thread_pc = Unborn | Initialising | Publishing | Entering | Looping | Leaving | Ended

record loop_thread =
  own_loop :: loop_id
  loop_ptr :: "loop_id option"
  has_callback :: bool
  owner :: owner_pc
  thread :: thread_pc
  quit_flag :: bool
  init_calls :: "loop_id list"

definition EventLoopThread :: "loop_id \<Rightarrow> bool \<Rightarrow> loop_thread" where
  "EventLoopThread l cb =
     \<lparr>own_loop = l, loop_ptr = None, has_callback = cb, owner = Idle, thread = Unborn,
      quit_flag = False, init_calls = []\<rparr>"

text \<open>
  \<open>inner_quit\<close> is a functor of the loop, or the initial callback, that calls
  \<^verbatim>\<open>quit()\<close> on it. A wait on the condition variable is a \<open>wake\<close> step that is not
  possible yet: the test is repeated after every notification.
\<close>

inductive thread_step :: "loop_thread \<Rightarrow> loop_thread \<Rightarrow> bool" where
  start: "owner s = Idle \<Longrightarrow> thread_step s (s\<lparr>owner := Waiting, thread := Initialising\<rparr>)"
| init_call: "thread s = Initialising \<Longrightarrow>
    thread_step s (s\<lparr>init_calls := (if has_callback s then [own_loop s] else []), thread := Publishing\<rparr>)"
| publish: "thread s = Publishing \<Longrightarrow> thread_step s (s\<lparr>loop_ptr := Some (own_loop s), thread := Entering\<rparr>)"
| enter: "thread s = Entering \<Longrightarrow> thread_step s (s\<lparr>quit_flag := False, thread := Looping\<rparr>)"
| leave: "thread s = Looping \<Longrightarrow> quit_flag s \<Longrightarrow> thread_step s (s\<lparr>thread := Leaving\<rparr>)"
| clear: "thread s = Leaving \<Longrightarrow> thread_step s (s\<lparr>loop_ptr := None, thread := Ended\<rparr>)"
| wake: "owner s = Waiting \<Longrightarrow> loop_ptr s \<noteq> None \<Longrightarrow> thread_step s (s\<lparr>owner := Woken\<rparr>)"
| return: "owner s = Woken \<Longrightarrow> thread_step s (s\<lparr>owner := Returned (loop_ptr s)\<rparr>)"
| stop_loop: "owner s = Returned r \<Longrightarrow>
    thread_step s (s\<lparr>quit_flag := quit_flag s \<or> loop_ptr s \<noteq> None, owner := Joining\<rparr>)"
| join: "owner s = Joining \<Longrightarrow> thread s = Ended \<Longrightarrow> thread_step s (s\<lparr>owner := Joined\<rparr>)"
| inner_quit: "thread s \<in> {Initialising, Looping} \<Longrightarrow> thread_step s (s\<lparr>quit_flag := True\<rparr>)"

inductive thread_reachable :: "loop_id \<Rightarrow> bool \<Rightarrow> loop_thread \<Rightarrow> bool" for l cb where
  new: "thread_reachable l cb (EventLoopThread l cb)"
| step: "thread_reachable l cb s \<Longrightarrow> thread_step s s' \<Longrightarrow> thread_reachable l cb s'"

inductive_cases thread_stepE: "thread_step s s'"

definition thread_inv :: "loop_id \<Rightarrow> bool \<Rightarrow> loop_thread \<Rightarrow> bool" where
  "thread_inv l cb s \<longleftrightarrow>
     own_loop s = l \<and> has_callback s = cb \<and>
     (loop_ptr s = (if thread s \<in> {Entering, Looping, Leaving} then Some l else None)) \<and>
     (init_calls s = (if thread s \<in> {Unborn, Initialising} \<or> \<not> cb then [] else [l])) \<and>
     (owner s = Idle \<longleftrightarrow> thread s = Unborn) \<and>
     (owner s \<notin> {Idle, Waiting} \<longrightarrow> thread s \<in> {Entering, Looping, Leaving, Ended}) \<and>
     (\<forall>r. owner s = Returned r \<longrightarrow> r = Some l \<or> r = None \<and> thread s = Ended)"

lemma thread_step_inv: "thread_step s s' \<Longrightarrow> thread_inv l cb s \<Longrightarrow> thread_inv l cb s'"
  by (induction rule: thread_step.induct) (auto simp: thread_inv_def split: if_splits)

lemma thread_reachable_inv: "thread_reachable l cb s \<Longrightarrow> thread_inv l cb s"
proof (induction rule: thread_reachable.induct)
  case new
  then show ?case by (simp add: thread_inv_def EventLoopThread_def)
next
  case step
  then show ?case using thread_step_inv by blast
qed

text \<open>A thread whose loop runs and has not been asked to quit only stops for a functor of its own.\<close>

definition stuck_join :: "loop_thread \<Rightarrow> bool" where
  "stuck_join s \<longleftrightarrow> owner s = Joining \<and> thread s = Looping \<and> \<not> quit_flag s"

lemma stuck_join_step: "stuck_join s \<Longrightarrow> thread_step s s' \<Longrightarrow> s' = s\<lparr>quit_flag := True\<rparr>"
  by (auto simp: stuck_join_def elim: thread_stepE)

text \<open>
  The destructor: a loop that is still there is told to quit and joined. Otherwise the thread
  is not joined, and destroying a thread object that is joinable ends the process.
\<close>

datatype thread_end = JoinsAfterQuit loop_thread | ThreadGone | Terminates

definition EventLoopThread_destroy :: "loop_thread \<Rightarrow> thread_end" where
  "EventLoopThread_destroy s =
     (if loop_ptr s \<noteq> None then JoinsAfterQuit (s\<lparr>quit_flag := True, owner := Joining\<rparr>)
      else if thread s = Unborn \<or> owner s = Joined then ThreadGone
      else Terminates)"

lemma left_loop_terminates:
  assumes "thread_reachable l cb s" and "owner s = Returned r" and "thread s = Ended"
  shows "EventLoopThread_destroy s = Terminates"
  using thread_reachable_inv [OF assms(1)] assms(2,3) by (simp add: thread_inv_def EventLoopThread_destroy_def)

section \<open>The pool\<close>

record loop_pool =
  base_loop :: "loop_id option"
  pool_name :: string
  started :: bool
  num_threads :: int
  next_index :: nat
  threads :: "string list"
  loops :: "loop_id list"

definition EventLoopThreadPool :: loop_pool where
  "EventLoopThreadPool =
     \<lparr>base_loop = None, pool_name = [], started = False, num_threads = 0, next_index = 0, threads = [], loops = []\<rparr>"

definition pool_init :: "loop_id \<Rightarrow> int \<Rightarrow> loop_pool \<Rightarrow> loop_pool" where
  "pool_init base_loop_arg threads_num p = p\<lparr>num_threads := threads_num, base_loop := Some base_loop_arg\<rparr>"

text \<open>
  \<open>fresh i\<close> is the loop that the \<open>i\<close>-th thread's \<^verbatim>\<open>start_loop\<close> returns; the list is that
  of the loops handed to the callback. The threads are known by their names.
\<close>

definition pool_start :: "(nat \<Rightarrow> loop_id) \<Rightarrow> bool \<Rightarrow> loop_pool \<Rightarrow> loop_pool \<times> loop_id list" where
  "pool_start fresh cb p =
     (case base_loop p of
        None \<Rightarrow> (p, [])
      | Some b \<Rightarrow>
          if started p then (p, [])
          else let is = [0..<nat (num_threads p)];
                   p1 = p\<lparr>started := True,
                          threads := threads p @ map (\<lambda>i. snprintf 128 (c_str (pool_name p) @ dec_int (int i))) is,
                          loops := loops p @ map fresh is\<rparr>
               in (p1, if cb then map fresh is @ (if num_threads p = 0 then [b] else []) else []))"

definition pool_stop :: "loop_pool \<Rightarrow> string list" where
  "pool_stop p = threads p"

definition get_next_loop :: "loop_pool \<Rightarrow> (loop_id option \<times> loop_pool) option" where
  "get_next_loop p =
     (case base_loop p of
        None \<Rightarrow> None
      | Some b \<Rightarrow>
          if \<not> started p then Some (None, p)
          else if loops p \<noteq> [] then
            let loop = loops p ! next_index p;
                n = next_index p + 1
            in Some (Some loop, p\<lparr>next_index := (if n \<ge> length (loops p) then 0 else n)\<rparr>)
          else Some (Some b, p))"

definition get_loop_for_hash :: "nat \<Rightarrow> loop_pool \<Rightarrow> loop_id option" where
  "get_loop_for_hash hashCode p =
     (case base_loop p of
        None \<Rightarrow> None
      | Some b \<Rightarrow> if loops p \<noteq> [] then Some (loops p ! (hashCode mod length (loops p))) else Some b)"

definition get_all_loops :: "loop_pool \<Rightarrow> loop_id list option" where
  "get_all_loops p =
     (case base_loop p of None \<Rightarrow> None | Some b \<Rightarrow> if loops p = [] then Some [b] else Some (loops p))"

definition pool_info :: "(loop_id \<Rightarrow> string) \<Rightarrow> loop_pool \<Rightarrow> string" where
  "pool_info get_thread_id p =
     ''print threads id info '' @ [CHR 0x0A] @
     concat (map (\<lambda>i. dec_int (int i) @ '': id = '' @ get_thread_id (loops p ! i) @ [CHR 0x0A]) [0..<length (loops p)])"

section \<open>Taking turns\<close>

text \<open>
  The contract of a dispatcher that takes turns: it has a nonempty list of workers, a position
  in it, and every request answers the worker at the position and moves on by one, around the
  end.
\<close>

locale round_robin =
  fixes ready :: "'s \<Rightarrow> bool"
    and workers :: "'s \<Rightarrow> 'w list"
    and pos :: "'s \<Rightarrow> nat"
    and serve :: "'s \<Rightarrow> ('w \<times> 's) option"
  assumes ready_pos: "ready s \<Longrightarrow> pos s < length (workers s)"
    and serves: "ready s \<Longrightarrow> \<exists>s'. serve s = Some (workers s ! pos s, s') \<and> ready s' \<and>
      workers s' = workers s \<and> pos s' = (pos s + 1) mod length (workers s)"
begin

fun serve_many :: "nat \<Rightarrow> 's \<Rightarrow> ('w list \<times> 's) option" where
  "serve_many 0 s = Some ([], s)"
| "serve_many (Suc n) s =
     (case serve s of
        None \<Rightarrow> None
      | Some (w, s') \<Rightarrow> map_option (\<lambda>(ws, s''). (w # ws, s'')) (serve_many n s'))"

lemma serve_many_turns:
  "ready s \<Longrightarrow> \<exists>s'. serve_many n s =
      Some (map (\<lambda>k. workers s ! ((pos s + k) mod length (workers s))) [0..<n], s') \<and> ready s' \<and>
      workers s' = workers s \<and> pos s' = (pos s + n) mod length (workers s)"
proof (induction n arbitrary: s)
  case 0
  then show ?case using ready_pos by simp
next
  case (Suc n)
  obtain s1 where s1: "serve s = Some (workers s ! pos s, s1)" "ready s1" "workers s1 = workers s"
      "pos s1 = (pos s + 1) mod length (workers s)"
    using serves [OF Suc.prems] by blast
  obtain s2 where s2: "serve_many n s1 =
      Some (map (\<lambda>k. workers s1 ! ((pos s1 + k) mod length (workers s1))) [0..<n], s2)" "ready s2"
      "workers s2 = workers s1" "pos s2 = (pos s1 + n) mod length (workers s1)"
    using Suc.IH [OF s1(2)] by blast
  have "map (\<lambda>k. workers s ! ((pos s + k) mod length (workers s))) [0..<Suc n] =
      workers s ! pos s # map (\<lambda>k. workers s ! ((pos s + 1 + k) mod length (workers s))) [0..<n]"
    using ready_pos [OF Suc.prems] by (simp add: upt_conv_Cons map_Suc_upt [symmetric] comp_def del: upt_Suc)
  then show ?case using s1 s2 by (simp add: mod_simps)
qed

end

text \<open>How often position \<open>i\<close> comes up in \<open>n\<close> requests that start at position \<open>s\<close> of \<open>len\<close>.\<close>

definition turns :: "nat \<Rightarrow> nat \<Rightarrow> nat \<Rightarrow> nat \<Rightarrow> nat" where
  "turns len s n i = count_list (map (\<lambda>k. (s + k) mod len) [0..<n]) i"

lemma count_list_distinct: "distinct xs \<Longrightarrow> count_list xs x = (if x \<in> set xs then 1 else 0)"
  by (induction xs) auto

lemma turns_short: "n \<le> len \<Longrightarrow> turns len s n i \<le> 1" and turns_full: "i < len \<Longrightarrow> turns len s len i = 1"
proof -
  have r: "map (\<lambda>k. (s + k) mod len) [0..<n] = take n (rotate s [0..<len])" if "n \<le> len" for n
    using that by (intro nth_equalityI) (auto simp: nth_rotate)
  then show "n \<le> len \<Longrightarrow> turns len s n i \<le> 1" by (simp add: turns_def count_list_distinct)
  show "i < len \<Longrightarrow> turns len s len i = 1" using r [of len] by (simp add: turns_def count_list_distinct)
qed

lemma turns_add: "turns len s (m + n) i = turns len s m i + turns len (s + m) n i"
proof -
  have "[m..<m + n] = map (\<lambda>k. m + k) [0..<n]" by (intro nth_equalityI) auto
  then show ?thesis by (simp add: turns_def upt_add_eq_append [of 0 m n] comp_def add.assoc)
qed

lemma turns_even: "i < len \<Longrightarrow> turns len s n i = n div len \<or> turns len s n i = n div len + 1"
proof (induction n arbitrary: s rule: less_induct)
  case (less n)
  show ?case
  proof (cases "n < len")
    case True
    then show ?thesis using turns_short [of n len s i] by auto
  next
    case False
    then have "turns len s n i = 1 + turns len (s + len) (n - len) i"
      using turns_add [of len s len "n - len" i] turns_full [OF less.prems] by simp
    moreover have "n div len = Suc ((n - len) div len)" using False less.prems by (simp add: le_div_geq)
    ultimately show ?thesis using less.IH [of "n - len" "s + len"] less.prems False by fastforce
  qed
qed

lemma count_list_map_inj_on:
  "inj_on f (insert x (set xs)) \<Longrightarrow> count_list (map f xs) (f x) = count_list xs x"
  by (induction xs) (auto simp: inj_on_def)

section \<open>The pool takes turns\<close>

definition pool_ready :: "loop_pool \<Rightarrow> bool" where
  "pool_ready p \<longleftrightarrow> base_loop p \<noteq> None \<and> started p \<and> next_index p < length (loops p)"

interpretation pool: round_robin pool_ready "\<lambda>p. map Some (loops p)" next_index get_next_loop
proof unfold_locales
  fix p
  show "pool_ready p \<Longrightarrow> next_index p < length (map Some (loops p))" by (simp add: pool_ready_def)
  assume p: "pool_ready p"
  then obtain b where b: "base_loop p = Some b" "started p" "next_index p < length (loops p)" "loops p \<noteq> []"
    unfolding pool_ready_def by fastforce
  let ?n = "(next_index p + 1) mod length (loops p)"
  have "get_next_loop p = Some (Some (loops p ! next_index p), p\<lparr>next_index := ?n\<rparr>)"
    using b by (cases "next_index p + 1 = length (loops p)") (auto simp: get_next_loop_def Let_def)
  then show "\<exists>p'. get_next_loop p = Some (map Some (loops p) ! next_index p, p') \<and> pool_ready p' \<and>
      map Some (loops p') = map Some (loops p) \<and> next_index p' = (next_index p + 1) mod length (map Some (loops p))"
    using b by (intro exI [of _ "p\<lparr>next_index := ?n\<rparr>"]) (simp add: pool_ready_def)
qed

fun next_loops :: "nat \<Rightarrow> loop_pool \<Rightarrow> loop_id option list option" where
  "next_loops 0 p = Some []"
| "next_loops (Suc n) p =
     (case get_next_loop p of None \<Rightarrow> None | Some (l, p') \<Rightarrow> map_option (\<lambda>ls. l # ls) (next_loops n p'))"

lemma next_loops_serve_many: "next_loops n p = map_option fst (pool.serve_many n p)"
  by (induction n arbitrary: p) (auto split: option.splits simp: option.map_comp comp_def case_prod_beta)

lemma pool_start_ready:
  assumes "0 < n" and "p = fst (pool_start fresh cb (pool_init b n EventLoopThreadPool))"
  shows "pool_ready p \<and> loops p = map fresh [0..<nat n] \<and> next_index p = 0 \<and> base_loop p = Some b"
  using assms by (simp add: pool_start_def pool_init_def EventLoopThreadPool_def pool_ready_def Let_def)

section \<open>Properties\<close>

text \<open>
  the pool is fair: after a start with \<open>n\<close> threads, \<open>m\<close> calls of \<^verbatim>\<open>get_next_loop\<close>
  all succeed and hand out the loops in turn, so each of them is handed out \<open>m div n\<close> or
  \<open>m div n + 1\<close> times.
\<close>

theorem pool_balanced:
  assumes "0 < n" and "inj_on fresh {0..<nat n}" and "i < nat n"
    and "p = fst (pool_start fresh cb (pool_init b n EventLoopThreadPool))"
  shows "\<exists>ls. next_loops m p = Some ls \<and> ls = map (\<lambda>k. Some (fresh (k mod nat n))) [0..<m] \<and>
    count_list ls (Some (fresh i)) \<in> {m div nat n, m div nat n + 1}"
proof -
  let ?f = "\<lambda>i. Some (fresh i)" and ?ks = "map (\<lambda>k. (0 + k) mod nat n) [0..<m]"
  have ready: "pool_ready p" "loops p = map fresh [0..<nat n]" "next_index p = 0"
    using pool_start_ready [OF assms(1,4)] by auto
  have "next_loops m p = Some (map (\<lambda>k. map Some (loops p) ! (k mod nat n)) [0..<m])"
    using pool.serve_many_turns [OF ready(1), of m] ready(2,3) by (auto simp: next_loops_serve_many)
  also have "map (\<lambda>k. map Some (loops p) ! (k mod nat n)) [0..<m] = map ?f ?ks"
    using assms(1) by (simp add: ready(2) nat_less_iff)
  finally have "next_loops m p = Some (map ?f ?ks)" .
  moreover have "inj_on ?f (insert i (set ?ks))"
    using assms(1-3) by (auto simp: inj_on_def)
  then have "count_list (map ?f ?ks) (?f i) = turns (nat n) 0 m i"
    using count_list_map_inj_on [of ?f i ?ks] by (simp add: turns_def)
  ultimately show ?thesis using turns_even [OF assms(3), of 0 m] by (auto simp: comp_def)
qed

theorem pool_balanced_witness:
  "\<exists>ls. next_loops 5 (fst (pool_start (\<lambda>i. i + 7) False (pool_init 1 2 EventLoopThreadPool))) = Some ls \<and>
     count_list ls (Some 8) \<in> {2, 3}"
  using pool_balanced [of 2 "\<lambda>i. i + 7" 1 _ False 1 5] by (auto simp: inj_on_def)

text \<open>
  \<^verbatim>\<open>start_loop\<close> returns only after the new thread has run the initial callback, once and
  on its own loop, and returns that loop, or null when the loop has ended in the meantime;
  \<^verbatim>\<open>stop_loop\<close> returns only after the thread has left its loop.
\<close>

theorem start_loop_returns_ready_loop:
  assumes "thread_reachable l cb s"
  shows "(\<forall>r. owner s = Returned r \<longrightarrow> (r = Some l \<or> r = None \<and> thread s = Ended) \<and>
      init_calls s = (if cb then [l] else [])) \<and>
    (owner s = Joined \<longrightarrow> loop_ptr s = None \<and> thread s = Ended)"
proof -
  have "thread s' = Ended" if "owner s' = Joined" "thread_reachable l cb s'" for s'
    using that(2,1) by (induction rule: thread_reachable.induct)
      (auto simp: EventLoopThread_def elim!: thread_stepE)
  then show ?thesis using thread_reachable_inv [OF assms] assms unfolding thread_inv_def by auto
qed

text \<open>A complete run of one thread, stopped while its loop runs.\<close>

definition demo_thread :: "owner_pc \<Rightarrow> thread_pc \<Rightarrow> loop_id option \<Rightarrow> bool \<Rightarrow> loop_thread" where
  "demo_thread o_pc t_pc ptr q =
     \<lparr>own_loop = 3, loop_ptr = ptr, has_callback = True, owner = o_pc, thread = t_pc, quit_flag = q, init_calls = [3]\<rparr>"

lemma demo_thread_entering: "thread_reachable 3 True (demo_thread Waiting Entering (Some 3) False)"
proof -
  have "thread_reachable 3 True (EventLoopThread 3 True)" by (rule thread_reachable.new)
  from thread_reachable.step [OF this thread_step.start]
  have "thread_reachable 3 True ((EventLoopThread 3 True)\<lparr>owner := Waiting, thread := Initialising\<rparr>)"
    by (simp add: EventLoopThread_def)
  from thread_reachable.step [OF this thread_step.init_call]
  have "thread_reachable 3 True (demo_thread Waiting Publishing None False)"
    by (simp add: EventLoopThread_def demo_thread_def)
  from thread_reachable.step [OF this thread_step.publish] show ?thesis by (simp add: demo_thread_def)
qed

lemma demo_thread_returned: "thread_reachable 3 True (demo_thread (Returned (Some 3)) Entering (Some 3) False)"
proof -
  from thread_reachable.step [OF demo_thread_entering thread_step.wake]
  have "thread_reachable 3 True (demo_thread Woken Entering (Some 3) False)" by (simp add: demo_thread_def)
  from thread_reachable.step [OF this thread_step.return] show ?thesis by (simp add: demo_thread_def)
qed

theorem start_loop_returns_ready_loop_witness:
  "owner (demo_thread (Returned (Some 3)) Entering (Some 3) False) = Returned (Some 3) \<and>
   init_calls (demo_thread (Returned (Some 3)) Entering (Some 3) False) = [3]"
proof
  show o: "owner (demo_thread (Returned (Some 3)) Entering (Some 3) False) = Returned (Some 3)"
    by (simp add: demo_thread_def)
  show "init_calls (demo_thread (Returned (Some 3)) Entering (Some 3) False) = [3]"
    using start_loop_returns_ready_loop [OF demo_thread_returned] o by simp
qed

text \<open>
  a quit request can be lost: an owner that stops the loop between its publication and its
  entry into \<^verbatim>\<open>EventLoop::loop\<close>, which clears the request, comes to wait for a thread
  that runs on; no step of the two threads changes this, unless a functor of the loop asks
  for the end itself.
\<close>

theorem early_stop_hangs:
  "\<exists>s. thread_reachable 3 True s \<and> owner s = Joining \<and> thread s = Looping \<and>
    {s'. thread_step s s'} \<subseteq> {s\<lparr>quit_flag := True\<rparr>}"
proof -
  let ?s = "demo_thread Joining Looping (Some 3) False"
  from thread_reachable.step [OF demo_thread_returned thread_step.stop_loop]
  have "thread_reachable 3 True (demo_thread Joining Entering (Some 3) True)" by (simp add: demo_thread_def)
  from thread_reachable.step [OF this thread_step.enter]
  have "thread_reachable 3 True ?s" by (simp add: demo_thread_def)
  moreover have "stuck_join ?s" by (simp add: stuck_join_def demo_thread_def)
  ultimately show ?thesis using stuck_join_step [of ?s] by (intro exI [of _ ?s]) (auto simp: stuck_join_def)
qed

end
