(* ===== verification/Sockets.thy ===== *)
theory Sockets
  imports Inet_Endian
begin

text \<open>
  Socket addresses and sockets: \<^verbatim>\<open>InetAddress\<close> of \<^verbatim>\<open>network/inet_address.{h,cpp}\<close>, the class
  \<^verbatim>\<open>Socket\<close> and the functions of \<^verbatim>\<open>network/w_sockets.{h,cpp}\<close>, in their Linux branches.

  An address is the structure \<^verbatim>\<open>sockaddr_in\<close> with its fields in network byte order. The
  library functions \<^verbatim>\<open>inet_ntop\<close> and \<^verbatim>\<open>inet_pton\<close> are modelled for IPv4; a character
  array that a function fills is its contents as a C string. A socket is the state that the
  system calls set; the results of system calls are arguments.
\<close>

section \<open>Addresses as text\<close>

definition AF_INET :: int where "AF_INET = 2"

record sockaddr_in =
  sin_family :: int
  sin_port :: i16
  s_addr :: i32

text \<open>The four octets of an address are the bytes of the field in memory.\<close>

definition octets :: "i32 \<Rightarrow> nat list" where
  "octets a = map unat (le_bytes 4 a)"

definition of_octets :: "nat list \<Rightarrow> i32" where
  "of_octets ds = of_le_bytes (map of_nat ds)"

fun dotted :: "nat list \<Rightarrow> string" where
  "dotted [] = []"
| "dotted [d] = dec_nat d"
| "dotted (d # ds) = dec_nat d @ ''.'' @ dotted ds"

text \<open>\<^verbatim>\<open>inet_ntop\<close> leaves the array alone when the text with its terminator does not fit.\<close>

definition inet_ntop :: "i32 \<Rightarrow> string \<Rightarrow> nat \<Rightarrow> string" where
  "inet_ntop a buf n = (if length (dotted (octets a)) < n then dotted (octets a) else buf)"

text \<open>
  \<^verbatim>\<open>inet_pton\<close>: up to four groups of digits of value at most 255, without leading zeros,
  separated by dots. The complete octets are in \<open>ds\<close>, the one being read is \<open>cur\<close>.
\<close>

definition digit_value :: "char \<Rightarrow> nat option" where
  "digit_value c = (let n = of_char c :: nat in if 48 \<le> n \<and> n \<le> 57 then Some (n - 48) else None)"

fun pton_loop :: "string \<Rightarrow> nat list \<Rightarrow> nat \<Rightarrow> bool \<Rightarrow> nat list option" where
  "pton_loop [] ds cur saw_digit = (if length ds = 3 \<and> saw_digit then Some (ds @ [cur]) else None)"
| "pton_loop (ch # src) ds cur saw_digit =
     (case digit_value ch of
        Some d \<Rightarrow>
          let new = cur * 10 + d
          in if saw_digit \<and> cur = 0 then None
             else if new > 255 then None
             else if \<not> saw_digit \<and> length ds + 1 > 4 then None
             else pton_loop src ds new True
      | None \<Rightarrow>
          if ch = CHR ''.'' \<and> saw_digit then
            (if length ds + 1 = 4 then None else pton_loop src (ds @ [cur]) 0 False)
          else None)"

definition inet_pton :: "string \<Rightarrow> i32 option" where
  "inet_pton s = map_option of_octets (pton_loop s [] 0 False)"

section \<open>InetAddress\<close>

definition INADDR_ANY :: i32 where "INADDR_ANY = 0"
definition INADDR_LOOPBACK :: i32 where "INADDR_LOOPBACK = 0x7F000001"

definition socks_2_ipport :: "string \<Rightarrow> nat \<Rightarrow> sockaddr_in \<Rightarrow> string" where
  "socks_2_ipport buf n addr =
     (let buf1 = inet_ntop (s_addr addr) buf n;
          end_pos = length buf1;
          port = network_2_host16 (sin_port addr)
      in buf1 @ snprintf (n - end_pos) ('':'' @ dec_nat (unat port)))"

text \<open>\<^verbatim>\<open>sizeof(struct sockaddr_in)\<close> is 16.\<close>

definition socks_2_ip :: "string \<Rightarrow> nat \<Rightarrow> sockaddr_in \<Rightarrow> string" where
  "socks_2_ip buf n addr = (if n \<ge> 16 then buf else inet_ntop (s_addr addr) buf n)"

definition socks_from_ipport :: "string \<Rightarrow> i16 \<Rightarrow> sockaddr_in \<Rightarrow> sockaddr_in" where
  "socks_from_ipport ip port addr =
     (let addr1 = addr\<lparr>sin_family := AF_INET, sin_port := host_2_network16 port\<rparr>
      in case inet_pton ip of None \<Rightarrow> addr1 | Some a \<Rightarrow> addr1\<lparr>s_addr := a\<rparr>)"

definition zero_addr :: sockaddr_in where
  "zero_addr = \<lparr>sin_family = 0, sin_port = 0, s_addr = 0\<rparr>"

definition InetAddress_port :: "i16 \<Rightarrow> bool \<Rightarrow> sockaddr_in" where
  "InetAddress_port port loopbackOnly =
     zero_addr\<lparr>sin_family := AF_INET,
       s_addr := host_2_network32 (if loopbackOnly then INADDR_LOOPBACK else INADDR_ANY),
       sin_port := host_2_network16 port\<rparr>"

definition InetAddress_ip :: "string \<Rightarrow> i16 \<Rightarrow> sockaddr_in" where
  "InetAddress_ip ip port = socks_from_ipport (c_str ip) port zero_addr"

text \<open>\<open>junk\<close> is what the uninitialised array holds before its first zero byte.\<close>

definition inet_2_ipport :: "string \<Rightarrow> sockaddr_in \<Rightarrow> string" where
  "inet_2_ipport junk addr = socks_2_ipport junk 32 addr"

definition inet_2_ip :: "string \<Rightarrow> sockaddr_in \<Rightarrow> string" where
  "inet_2_ip junk addr = socks_2_ip junk 32 addr"

definition inet_2_port :: "sockaddr_in \<Rightarrow> i16" where
  "inet_2_port addr = network_2_host16 (sin_port addr)"

definition inet_ip_netendian :: "sockaddr_in \<Rightarrow> i32" where
  "inet_ip_netendian addr = s_addr addr"

definition inet_port_netendian :: "sockaddr_in \<Rightarrow> i16" where
  "inet_port_netendian addr = sin_port addr"

text \<open>\<open>ret\<close> and \<open>he\<close> are the results of \<^verbatim>\<open>gethostbyname_r\<close>.\<close>

definition inet_resolve :: "int \<Rightarrow> i32 option \<Rightarrow> sockaddr_in \<Rightarrow> bool \<times> sockaddr_in" where
  "inet_resolve ret he out =
     (case he of
        Some a \<Rightarrow> if ret = 0 then (True, out\<lparr>s_addr := a\<rparr>) else (False, out)
      | None \<Rightarrow> (False, out))"

section \<open>Sockets\<close>

text \<open>
  What the process knows of its descriptors: the options set on each socket, and the log entries
  the functions write. A descriptor that is not a socket is \<open>OtherFd\<close>. The result of each
  system call is an argument; a call that fails leaves the table alone. Logging at level FATAL
  does not end the process.
\<close>

record sock =
  nonblock :: bool
  cloexec :: bool
  reuse_addr :: bool
  reuse_port :: bool
  tcp_nodelay :: bool
  keepalive :: bool
  bound :: "sockaddr_in option"
  listens :: bool
  write_shut :: bool

datatype fdesc = SocketFd sock | OtherFd

datatype sock_log = SysError string | Fatal string

record sock_sys =
  fd_table :: "int \<rightharpoonup> fdesc"
  sock_logs :: "sock_log list"

definition add_log :: "sock_log \<Rightarrow> sock_sys \<Rightarrow> sock_sys" where
  "add_log e s = s\<lparr>sock_logs := sock_logs s @ [e]\<rparr>"

definition set_fd :: "int \<Rightarrow> fdesc option \<Rightarrow> sock_sys \<Rightarrow> sock_sys" where
  "set_fd fd d s = s\<lparr>fd_table := (fd_table s)(fd := d)\<rparr>"

fun upd_sock :: "(sock \<Rightarrow> sock) \<Rightarrow> fdesc \<Rightarrow> fdesc" where
  "upd_sock f (SocketFd k) = SocketFd (f k)"
| "upd_sock f OtherFd = OtherFd"

definition set_opt :: "int \<Rightarrow> (sock \<Rightarrow> sock) \<Rightarrow> sock_sys \<Rightarrow> sock_sys" where
  "set_opt fd f s = set_fd fd (map_option (upd_sock f) (fd_table s fd)) s"

definition SOCKET_ERROR :: int where "SOCKET_ERROR = - 1"

definition new_sock :: sock where
  "new_sock = \<lparr>nonblock = True, cloexec = True, reuse_addr = False, reuse_port = False, tcp_nodelay = False,
     keepalive = False, bound = None, listens = False, write_shut = False\<rparr>"

text \<open>\<open>r\<close> is the descriptor that \<^verbatim>\<open>::socket\<close> returns, called with SOCK_NONBLOCK and SOCK_CLOEXEC.\<close>

definition socks_create_or_die :: "int \<Rightarrow> sock_sys \<Rightarrow> int \<times> sock_sys" where
  "socks_create_or_die r s =
     (if r = SOCKET_ERROR then (r, add_log (Fatal ''w_sockets::socks_create_or_die'') s)
      else (r, set_fd r (Some (SocketFd new_sock)) s))"

definition socks_set_noblocking_and_close_exec :: "int \<Rightarrow> sock_sys \<Rightarrow> sock_sys" where
  "socks_set_noblocking_and_close_exec fd s =
     set_opt fd (\<lambda>k. k\<lparr>cloexec := True\<rparr>) (set_opt fd (\<lambda>k. k\<lparr>nonblock := True\<rparr>) s)"

definition socks_create_noblocking_or_die :: "int \<Rightarrow> sock_sys \<Rightarrow> int \<times> sock_sys" where
  "socks_create_noblocking_or_die r s =
     (let s1 = (if r = SOCKET_ERROR then add_log (Fatal ''w_sockets::socks_create_noblocking_or_die'') s
                else set_fd r (Some (SocketFd new_sock)) s)
      in (r, socks_set_noblocking_and_close_exec r s1))"

definition socks_bind_or_die :: "int \<Rightarrow> int \<Rightarrow> sockaddr_in \<Rightarrow> sock_sys \<Rightarrow> sock_sys" where
  "socks_bind_or_die ret fd addr s =
     (if ret = SOCKET_ERROR then add_log (Fatal ''w_sockets::socks_bind_or_die'') s
      else set_opt fd (\<lambda>k. k\<lparr>bound := Some addr\<rparr>) s)"

definition socks_listen_or_die :: "int \<Rightarrow> int \<Rightarrow> sock_sys \<Rightarrow> sock_sys" where
  "socks_listen_or_die ret fd s =
     (if SOCKET_ERROR = ret then add_log (Fatal ''w_sockets::socks_listen_or_die'') s
      else set_opt fd (\<lambda>k. k\<lparr>listens := True\<rparr>) s)"

definition EPERM :: int where "EPERM = 1"
definition EINTR :: int where "EINTR = 4"
definition EBADF :: int where "EBADF = 9"
definition EAGAIN :: int where "EAGAIN = 11"
definition ENOMEM :: int where "ENOMEM = 12"
definition EFAULT :: int where "EFAULT = 14"
definition EINVAL :: int where "EINVAL = 22"
definition ENFILE :: int where "ENFILE = 23"
definition EMFILE :: int where "EMFILE = 24"
definition EPROTO :: int where "EPROTO = 71"
definition ENOTSOCK :: int where "ENOTSOCK = 88"
definition EOPNOTSUPP :: int where "EOPNOTSUPP = 95"
definition ECONNABORTED :: int where "ECONNABORTED = 103"
definition ENOBUFS :: int where "ENOBUFS = 105"

text \<open>
  \<open>r\<close> and \<open>err\<close> are the result and the error number of \<^verbatim>\<open>accept4\<close>, \<open>peer\<close> the address it
  stores. The result is the descriptor and the address afterwards.
\<close>

definition socks_accept :: "int \<Rightarrow> int \<Rightarrow> sockaddr_in \<Rightarrow> sockaddr_in \<Rightarrow> sock_sys \<Rightarrow> int \<times> sockaddr_in \<times> sock_sys" where
  "socks_accept r err peer addr s =
     (if r = SOCKET_ERROR then
        let s1 = add_log (SysError ''w_sockets::socks_accept'') s
        in (r, addr,
            if err \<in> {EAGAIN, ECONNABORTED, EINTR, EPROTO, EPERM, EMFILE} then s1
            else if err \<in> {EBADF, EFAULT, EINVAL, ENFILE, ENOBUFS, ENOMEM, ENOTSOCK, EOPNOTSUPP}
              then add_log (Fatal (''unexpected error of ::accept '' @ dec_int err)) s1
            else add_log (Fatal (''unknown error of ::accept '' @ dec_int err)) s1)
      else (r, peer, set_fd r (Some (SocketFd new_sock)) s))"

definition sock_accept :: "int \<Rightarrow> int \<Rightarrow> sockaddr_in \<Rightarrow> sockaddr_in \<Rightarrow> sock_sys \<Rightarrow> int \<times> sockaddr_in \<times> sock_sys" where
  "sock_accept r err peer peer_addr s =
     (case socks_accept r err peer zero_addr s of
        (connfd, addr, s1) \<Rightarrow> (connfd, if connfd \<ge> 0 then addr else peer_addr, s1))"

definition socks_set_reuse_addr :: "int \<Rightarrow> bool \<Rightarrow> sock_sys \<Rightarrow> sock_sys" where
  "socks_set_reuse_addr fd on s = set_opt fd (\<lambda>k. k\<lparr>reuse_addr := on\<rparr>) s"

definition socks_set_reuse_port :: "int \<Rightarrow> int \<Rightarrow> bool \<Rightarrow> sock_sys \<Rightarrow> sock_sys" where
  "socks_set_reuse_port ret fd on s =
     (if ret < 0 then (if on then add_log (SysError ''SO_REUSEPORT failed.'') s else s)
      else set_opt fd (\<lambda>k. k\<lparr>reuse_port := on\<rparr>) s)"

definition sock_set_tcp_nodelay :: "int \<Rightarrow> bool \<Rightarrow> sock_sys \<Rightarrow> sock_sys" where
  "sock_set_tcp_nodelay fd on s = set_opt fd (\<lambda>k. k\<lparr>tcp_nodelay := on\<rparr>) s"

definition sock_set_keepalive :: "int \<Rightarrow> bool \<Rightarrow> sock_sys \<Rightarrow> sock_sys" where
  "sock_set_keepalive fd on s = set_opt fd (\<lambda>k. k\<lparr>keepalive := on\<rparr>) s"

text \<open>\<^verbatim>\<open>close\<close> fails for a descriptor that is not open; \<open>err\<close> is the text of the error number.\<close>

definition socks_close :: "string \<Rightarrow> int \<Rightarrow> sock_sys \<Rightarrow> sock_sys" where
  "socks_close err fd s =
     (if fd_table s fd = None then
        add_log (SysError (''w_sockets::close, fd='' @ dec_int fd @ '', errno='' @ dec_int EBADF @ '', errorinfo='' @ err)) s
      else set_fd fd None s)"

definition socks_shutdown_write :: "int \<Rightarrow> int \<Rightarrow> sock_sys \<Rightarrow> sock_sys" where
  "socks_shutdown_write ret fd s =
     (if ret < 0 then add_log (SysError ''w_sockets::shutdownWrite'') s
      else set_opt fd (\<lambda>k. k\<lparr>write_shut := True\<rparr>) s)"

text \<open>The class \<^verbatim>\<open>Socket\<close> is its descriptor; these members forward to the functions above.\<close>

definition Socket_destroy :: "string \<Rightarrow> int \<Rightarrow> sock_sys \<Rightarrow> sock_sys" where
  "Socket_destroy err sockfd s = socks_close err sockfd s"

definition sock_bind_address :: "int \<Rightarrow> int \<Rightarrow> sockaddr_in \<Rightarrow> sock_sys \<Rightarrow> sock_sys" where
  "sock_bind_address ret sockfd addr s = socks_bind_or_die ret sockfd addr s"

definition sock_listen :: "int \<Rightarrow> int \<Rightarrow> sock_sys \<Rightarrow> sock_sys" where
  "sock_listen ret sockfd s = socks_listen_or_die ret sockfd s"

definition sock_shutdown_write :: "int \<Rightarrow> int \<Rightarrow> sock_sys \<Rightarrow> sock_sys" where
  "sock_shutdown_write ret sockfd s = socks_shutdown_write ret sockfd s"

definition sock_set_reuse_addr :: "int \<Rightarrow> bool \<Rightarrow> sock_sys \<Rightarrow> sock_sys" where
  "sock_set_reuse_addr sockfd on s = socks_set_reuse_addr sockfd on s"

definition sock_set_reuse_port :: "int \<Rightarrow> int \<Rightarrow> bool \<Rightarrow> sock_sys \<Rightarrow> sock_sys" where
  "sock_set_reuse_port ret sockfd on s = socks_set_reuse_port ret sockfd on s"

definition socks_get_error :: "int \<Rightarrow> int \<Rightarrow> int \<Rightarrow> int" where
  "socks_get_error ret err optval = (if ret < 0 then err else optval)"

text \<open>\<open>answer\<close> is what \<^verbatim>\<open>getsockname\<close> or \<^verbatim>\<open>getpeername\<close> stores, \<open>None\<close> when it fails.\<close>

definition socks_get_local_addr :: "sockaddr_in option \<Rightarrow> sockaddr_in" where
  "socks_get_local_addr answer = (case answer of None \<Rightarrow> zero_addr | Some a \<Rightarrow> a)"

definition socks_get_peer_addr :: "sockaddr_in option \<Rightarrow> sockaddr_in" where
  "socks_get_peer_addr answer = (case answer of None \<Rightarrow> zero_addr | Some a \<Rightarrow> a)"

definition socks_is_selfconn :: "sockaddr_in option \<Rightarrow> sockaddr_in option \<Rightarrow> bool" where
  "socks_is_selfconn sockname peername =
     (let localaddr = socks_get_local_addr sockname; peeraddr = socks_get_peer_addr peername
      in sin_port localaddr = sin_port peeraddr \<and> s_addr localaddr = s_addr peeraddr)"

section \<open>Lemmas\<close>

lemma digit_value_digit_char [simp]: "d < 10 \<Longrightarrow> digit_value (digit_char d) = Some d"
  by (simp add: digit_value_def of_digit_char)

lemma digit_value_Some: "digit_value c = Some d \<longleftrightarrow> d < 10 \<and> c = digit_char d"
proof
  assume "digit_value c = Some d"
  then have "of_char c = 48 + d \<and> d < 10" by (auto simp: digit_value_def Let_def split: if_splits)
  then show "d < 10 \<and> c = digit_char d" by (metis char_of_char digit_char_def)
qed simp

lemma digit_value_dot [simp]: "digit_value (CHR ''.'') = None"
  by (simp add: digit_value_def)

lemma dec_nat_small: "n < 10 \<Longrightarrow> dec_nat n = [digit_char n]"
  by (simp add: dec_nat.simps)

lemma dec_nat_snoc: "0 < n \<Longrightarrow> d < 10 \<Longrightarrow> dec_nat (n * 10 + d) = dec_nat n @ [digit_char d]"
  by (subst dec_nat.simps) simp

lemma pton_digits:
  "n < 256 \<Longrightarrow> length ds < 4 \<Longrightarrow> pton_loop (dec_nat n @ rest) ds 0 False = pton_loop rest ds n True"
proof (induction n arbitrary: rest rule: less_induct)
  case (less n)
  show ?case
  proof (cases "n < 10")
    case True
    then show ?thesis using less.prems by (simp add: dec_nat_small)
  next
    case False
    then have n: "dec_nat n = dec_nat (n div 10) @ [digit_char (n mod 10)]" by (subst dec_nat.simps) simp
    have "pton_loop (dec_nat n @ rest) ds 0 False = pton_loop (digit_char (n mod 10) # rest) ds (n div 10) True"
      using less.IH [of "n div 10" "digit_char (n mod 10) # rest"] less.prems False by (simp add: n)
    moreover have "n div 10 \<noteq> 0" using False by simp
    ultimately show ?thesis using less.prems by simp
  qed
qed

text \<open>What the loop has read is the text of the octets it has.\<close>

definition read_text :: "nat list \<Rightarrow> nat \<Rightarrow> bool \<Rightarrow> string" where
  "read_text ds cur saw = concat (map (\<lambda>d. dec_nat d @ ''.'') ds) @ (if saw then dec_nat cur else [])"

lemma dotted_snoc: "dotted (ds @ [d]) = concat (map (\<lambda>d. dec_nat d @ ''.'') ds) @ dec_nat d"
  by (induction ds rule: dotted.induct) simp_all

lemma pton_loop_text:
  "pton_loop s ds cur saw = Some bs \<Longrightarrow> saw \<or> cur = 0 \<Longrightarrow> cur < 256 \<Longrightarrow> list_all (\<lambda>d. d < 256) ds \<Longrightarrow>
    dotted bs = read_text ds cur saw @ s \<and> length bs = 4 \<and> list_all (\<lambda>d. d < 256) bs"
proof (induction s ds cur saw rule: pton_loop.induct)
  case (1 ds cur saw)
  then show ?case by (auto simp: read_text_def dotted_snoc split: if_splits)
next
  case (2 ch src ds cur saw)
  show ?case
  proof (cases "digit_value ch")
    case None
    then have "ch = CHR ''.''" "saw" "pton_loop src (ds @ [cur]) 0 False = Some bs" "length ds + 1 \<noteq> 4"
      using "2.prems"(1) by (auto split: if_splits)
    then show ?thesis using "2.IH"(1) [OF None] "2.prems" by (simp add: read_text_def)
  next
    case (Some d)
    then have d: "d < 10" "ch = digit_char d" by (simp_all add: digit_value_Some)
    have c: "\<not> (saw \<and> cur = 0)" "\<not> cur * 10 + d > 255" "\<not> (\<not> saw \<and> length ds + 1 > 4)"
        "pton_loop src ds (cur * 10 + d) True = Some bs"
      using "2.prems"(1) Some by (auto simp: Let_def split: if_splits)
    have "read_text ds (cur * 10 + d) True = read_text ds cur saw @ [ch]"
      using c(1) d "2.prems"(2) by (cases "cur = 0") (auto simp: read_text_def dec_nat_small dec_nat_snoc)
    then show ?thesis using "2.IH"(2) [OF Some refl c(1,2,3,4)] c(2) "2.prems"(4) by simp
  qed
qed

lemma octets_bounds: "length (octets a) = 4" "list_all (\<lambda>d. d < 256) (octets a)"
proof -
  show "length (octets a) = 4" by (simp add: octets_def)
  have "unat (b :: byte) < 256" for b using unsigned_less [of b, where 'a = nat] by simp
  then show "list_all (\<lambda>d. d < 256) (octets a)" by (simp add: octets_def list_all_iff)
qed

lemma octets_of_octets [simp]: "length ds = 4 \<Longrightarrow> list_all (\<lambda>d. d < 256) ds \<Longrightarrow> octets (of_octets ds) = ds"
proof -
  assume ds: "length ds = 4" "list_all (\<lambda>d. d < 256) ds"
  have "octets (of_octets ds) = map unat (map of_nat ds :: byte list)"
    using ds(1) le_bytes_of_le_bytes [of "map of_nat ds :: byte list", where 'a = 32] by (simp add: octets_def of_octets_def)
  also have "\<dots> = ds" using ds(2) by (auto simp: list_all_iff unat_small_byte intro: map_idI)
  finally show ?thesis .
qed

lemma of_octets_octets [simp]: "of_octets (octets a) = a"
  by (simp add: octets_def of_octets_def comp_def)

lemma list4: "length ds = 4 \<Longrightarrow> \<exists>a b c d. ds = [a, b, c, d]"
  by (auto simp: numeral_eq_Suc length_Suc_conv)

lemma pton_dotted: "length ds = 4 \<Longrightarrow> list_all (\<lambda>d. d < 256) ds \<Longrightarrow> pton_loop (dotted ds) [] 0 False = Some ds"
proof -
  assume "length ds = 4" "list_all (\<lambda>d. d < 256) ds"
  then obtain a b c d where ds: "ds = [a, b, c, d]" "a < 256" "b < 256" "c < 256" "d < 256" using list4 by fastforce
  then show ?thesis using pton_digits [of d "[a, b, c]" "[]"] by (simp add: pton_digits)
qed

lemma inet_pton_dotted [simp]: "inet_pton (dotted (octets a)) = Some a"
  by (simp add: inet_pton_def pton_dotted octets_bounds)

lemma inet_pton_canonical: "inet_pton ip = Some a \<Longrightarrow> dotted (octets a) = ip"
  using pton_loop_text [of ip "[]" 0 False] by (auto simp: inet_pton_def read_text_def)

lemma length_dec_octet: "d < 256 \<Longrightarrow> length (dec_nat d) \<le> 3"
  using length_dec_nat [of 3 d] by simp

lemma length_dotted: "length (dotted (octets a)) \<le> 15"
proof -
  obtain p q r s where o: "octets a = [p, q, r, s]" using list4 octets_bounds(1) by blast
  then have "p < 256" "q < 256" "r < 256" "s < 256" using octets_bounds(2) [of a] by simp_all
  then show ?thesis using length_dec_octet [of p] length_dec_octet [of q] length_dec_octet [of r] length_dec_octet [of s] o
    by simp
qed

lemma length_dec_port: "length (dec_nat (unat (w :: i16))) \<le> 5"
  using length_dec_nat [of 5 "unat w"] unsigned_less [of w, where 'a = nat] by simp

lemma inet_2_ipport_eq:
  "inet_2_ipport junk addr = dotted (octets (s_addr addr)) @ '':'' @ dec_nat (unat (inet_2_port addr))"
  using length_dotted [of "s_addr addr"] length_dec_port [of "network_2_host16 (sin_port addr)"]
  by (simp add: inet_2_ipport_def socks_2_ipport_def inet_ntop_def inet_2_port_def Let_def)

lemma length_inet_2_ipport: "length (inet_2_ipport junk addr) \<le> 21"
  using length_dotted [of "s_addr addr"] length_dec_port [of "inet_2_port addr"] by (simp add: inet_2_ipport_eq)

lemma dotted_chars: "c \<in> set (dotted ds) \<Longrightarrow> c = CHR ''.'' \<or> (\<exists>d<10. c = digit_char d)"
  by (induction ds rule: dotted.induct) (auto dest: dec_nat_chars)

lemma dotted_no_nul: "CHR 0x00 \<notin> set (dotted ds)"
proof
  assume "CHR 0x00 \<in> set (dotted ds)"
  then have "CHR 0x00 = CHR ''.'' \<or> (\<exists>d<10. CHR 0x00 = digit_char d)" by (rule dotted_chars)
  then obtain d where "d < 10" "CHR 0x00 = digit_char d" by auto
  then have "(of_char (CHR 0x00) :: nat) = 48 + d" by (simp only: of_digit_char)
  then show False by simp
qed

lemma c_str_of_dotted [simp]: "c_str (dotted ds) = dotted ds"
  using dotted_no_nul [of ds] by (auto simp: c_str_def takeWhile_eq_all_conv)

section \<open>Properties\<close>

text \<open>
  C23: An address made from text prints as that text and the port, and an address printed is made
  again from its text; what is not a dotted quad of numbers up to 255 without leading zeros
  leaves the address at 0.0.0.0.
\<close>

theorem address_round_trip:
  "(case inet_pton (c_str ip) of
      Some a \<Rightarrow> inet_2_ipport junk (InetAddress_ip ip port) = c_str ip @ '':'' @ dec_nat (unat port)
    | None \<Rightarrow> inet_2_ipport junk (InetAddress_ip ip port) = ''0.0.0.0:'' @ dec_nat (unat port)) \<and>
   InetAddress_ip (dotted (octets a)) port = \<lparr>sin_family = AF_INET, sin_port = host_2_network16 port, s_addr = a\<rparr> \<and>
   inet_2_port (InetAddress_ip ip port) = port \<and> length (inet_2_ipport junk (InetAddress_ip ip port)) \<le> 21"
proof -
  let ?addr = "InetAddress_ip ip port"
  have port: "inet_2_port ?addr = port"
    by (simp add: InetAddress_ip_def socks_from_ipport_def inet_2_port_def Let_def split: option.split)
  have "dotted (octets 0) = ''0.0.0.0''" by code_simp
  then have "case inet_pton (c_str ip) of
      Some a \<Rightarrow> inet_2_ipport junk ?addr = c_str ip @ '':'' @ dec_nat (unat port)
    | None \<Rightarrow> inet_2_ipport junk ?addr = ''0.0.0.0:'' @ dec_nat (unat port)"
    using port inet_pton_canonical [of "c_str ip"] unfolding inet_2_ipport_eq port
    by (auto simp: InetAddress_ip_def socks_from_ipport_def zero_addr_def Let_def split: option.split)
  moreover have "InetAddress_ip (dotted (octets a)) port = \<lparr>sin_family = AF_INET, sin_port = host_2_network16 port, s_addr = a\<rparr>"
    by (simp add: InetAddress_ip_def socks_from_ipport_def zero_addr_def Let_def)
  ultimately show ?thesis using port length_inet_2_ipport by simp
qed

text \<open>
  \<^verbatim>\<open>inet_2_ip\<close> never writes its array: the guard in \<^verbatim>\<open>socks_2_ip\<close> returns for every array
  of at least 16 bytes, and the caller passes 32.
\<close>

theorem inet_2_ip_unwritten: "inet_2_ip junk addr = junk"
  by (simp add: inet_2_ip_def socks_2_ip_def)

end
