(* ===== verification/Tcp_Server.thy ===== *)
theory Tcp_Server
  imports Loop_Thread_Pool Sockets "HOL-Library.List_Lexorder" "HOL-Library.Char_ord"
begin

text \<open>
  \<^verbatim>\<open>TcpServer\<close> of \<^verbatim>\<open>network/tcp_server.{h,cpp}\<close> and \<^verbatim>\<open>HttpServer\<close> of
  \<^verbatim>\<open>service/chat/http_server.{h,cpp}\<close>: accepting connections, spreading them over the
  loops of the pool, the map of live connections, and their removal.

  A connection object is known by its position in the list of all objects created; of the
  object the server needs its name, its loop and its callbacks. What the server hands to event
  loops is recorded in order as \<open>loop_call\<close>s; the map is a \<^verbatim>\<open>std::map\<close>, a list of pairs in
  the order of the keys, whose values are shared pointers that may be null. Of the acceptor the
  server keeps the arguments it makes it with; the acceptor itself is in the theory
  \<open>Acceptor\<close>. The result \<open>None\<close> stands for a call through a null pointer.
\<close>

section \<open>Ordered maps\<close>

fun map_assign :: "'k::linorder \<Rightarrow> 'v \<Rightarrow> ('k \<times> 'v) list \<Rightarrow> ('k \<times> 'v) list" where
  "map_assign k v [] = [(k, v)]"
| "map_assign k v ((k', v') # xs) =
     (if k < k' then (k, v) # (k', v') # xs
      else if k = k' then (k, v) # xs
      else (k', v') # map_assign k v xs)"

definition map_erase :: "'k::linorder \<Rightarrow> ('k \<times> 'v) list \<Rightarrow> nat \<times> ('k \<times> 'v) list" where
  "map_erase k xs = (length (filter (\<lambda>e. fst e = k) xs), filter (\<lambda>e. fst e \<noteq> k) xs)"

definition map_wf :: "('k::linorder \<times> 'v) list \<Rightarrow> bool" where
  "map_wf xs \<longleftrightarrow> sorted_wrt (<) (map fst xs)"

lemma map_of_assign [simp]: "map_of (map_assign k v xs) = (map_of xs)(k \<mapsto> v)"
  by (induction xs) auto

lemma set_map_assign: "fst ` set (map_assign k v xs) = insert k (fst ` set xs)"
  by (induction k v xs rule: map_assign.induct) (auto split: if_splits simp: insert_commute)

lemma map_wf_Nil [simp]: "map_wf []"
  by (simp add: map_wf_def)

lemma map_wf_assign: "map_wf xs \<Longrightarrow> map_wf (map_assign k v xs)"
proof (induction xs)
  case (Cons e xs)
  have "fst ` set (map_assign k v xs) = insert k (fst ` set xs)" by (rule set_map_assign)
  then show ?case using Cons by (cases e) (fastforce simp: map_wf_def image_iff)
qed (simp add: map_wf_def)

lemma map_of_erase [simp]: "map_of (snd (map_erase k xs)) = (map_of xs)(k := None)"
  by (induction xs) (auto simp: map_erase_def)

lemma map_wf_erase: "map_wf xs \<Longrightarrow> map_wf (snd (map_erase k xs))"
  by (simp add: map_wf_def map_erase_def) (induction xs, auto)

lemma map_erase_count: "map_wf xs \<Longrightarrow> fst (map_erase k xs) = (if map_of xs k = None then 0 else 1)"
proof (induction xs)
  case (Cons e xs)
  have "length (filter (\<lambda>e. fst e = k) xs) = 0" if "fst e = k"
    using Cons.prems that by (auto simp: map_wf_def filter_empty_conv)
  then show ?case using Cons by (auto simp: map_wf_def map_erase_def)
qed (simp add: map_erase_def)

section \<open>The server\<close>

type_synonym conn_id = nat

datatype callback = NoCallback | DefaultCallback | UserCallback nat

record server_conn =
  conn_name :: string
  conn_loop :: loop_id
  conn_fd :: int
  conn_local :: sockaddr_in
  conn_peer :: sockaddr_in
  conn_cb :: callback
  msg_cb :: callback
  write_complete_cb :: callback

datatype server_task = Listen | ConnEstablished conn_id | ConnDestroyed conn_id | RemoveConnInLoop conn_id

datatype loop_call = RunInLoop loop_id server_task | QueueInLoop loop_id server_task

record tcp_server =
  srv_loop :: loop_id
  host_port :: string
  srv_name :: string
  acceptor_addr :: sockaddr_in
  acceptor_reuseport :: bool
  pool :: "loop_pool option"
  conn_callback :: callback
  msg_callback :: callback
  write_complete_callback :: callback
  thread_init_callback :: callback
  srv_started :: int
  next_conn_id :: int
  conn_map :: "(string \<times> conn_id option) list"
  objects :: "server_conn list"
  loop_calls :: "loop_call list"
  stopped_threads :: "string list"

datatype server_option = kNoReusePort | kReusePort

text \<open>
  The text of the address does not depend on what the array holds at first
  (\<open>inet_2_ipport_eq\<close>), which is taken to be empty here.
\<close>

definition TcpServer :: "loop_id \<Rightarrow> sockaddr_in \<Rightarrow> string \<Rightarrow> server_option \<Rightarrow> tcp_server" where
  "TcpServer loop listenAddr nameArg opt =
     \<lparr>srv_loop = loop, host_port = inet_2_ipport [] listenAddr, srv_name = nameArg,
      acceptor_addr = listenAddr, acceptor_reuseport = (opt = kReusePort), pool = None,
      conn_callback = DefaultCallback, msg_callback = DefaultCallback, write_complete_callback = NoCallback,
      thread_init_callback = NoCallback,
      srv_started = 0, next_conn_id = 1, conn_map = [], objects = [], loop_calls = [], stopped_threads = []\<rparr>"

definition set_conn_callback :: "callback \<Rightarrow> tcp_server \<Rightarrow> tcp_server" where
  "set_conn_callback cb s = s\<lparr>conn_callback := cb\<rparr>"

definition set_msg_callback :: "callback \<Rightarrow> tcp_server \<Rightarrow> tcp_server" where
  "set_msg_callback cb s = s\<lparr>msg_callback := cb\<rparr>"

definition set_write_complete_callback :: "callback \<Rightarrow> tcp_server \<Rightarrow> tcp_server" where
  "set_write_complete_callback cb s = s\<lparr>write_complete_callback := cb\<rparr>"

definition set_thread_init_callback :: "callback \<Rightarrow> tcp_server \<Rightarrow> tcp_server" where
  "set_thread_init_callback cb s = s\<lparr>thread_init_callback := cb\<rparr>"

definition call_loop :: "loop_call \<Rightarrow> tcp_server \<Rightarrow> tcp_server" where
  "call_loop c s = s\<lparr>loop_calls := loop_calls s @ [c]\<rparr>"

text \<open>\<open>fresh\<close> gives the loops of the new pool's threads.\<close>

definition srv_start :: "(nat \<Rightarrow> loop_id) \<Rightarrow> int \<Rightarrow> tcp_server \<Rightarrow> tcp_server" where
  "srv_start fresh workerThreadCount s =
     (if srv_started s = 0 then
        let p = fst (pool_start fresh False (pool_init (srv_loop s) workerThreadCount EventLoopThreadPool));
            s1 = call_loop (RunInLoop (srv_loop s) Listen) (s\<lparr>pool := Some p\<rparr>)
        in s1\<lparr>srv_started := 1\<rparr>
      else s)"

text \<open>The loop of \<^verbatim>\<open>stop\<close>: every shared pointer is moved out of the map, which keeps its keys.\<close>

fun stop_conns ::
  "server_conn list \<Rightarrow> (string \<times> conn_id option) list \<Rightarrow> ((string \<times> conn_id option) list \<times> loop_call list) option" where
  "stop_conns objs [] = Some ([], [])"
| "stop_conns objs ((k, None) # es) = None"
| "stop_conns objs ((k, Some c) # es) =
     map_option (\<lambda>(es', calls). ((k, None) # es', RunInLoop (conn_loop (objs ! c)) (ConnDestroyed c) # calls))
       (stop_conns objs es)"

definition srv_stop :: "tcp_server \<Rightarrow> tcp_server option" where
  "srv_stop s =
     (if srv_started s = 0 then Some s
      else case stop_conns (objects s) (conn_map s) of
             None \<Rightarrow> None
           | Some (es, calls) \<Rightarrow>
               (case pool s of
                  None \<Rightarrow> None
                | Some p \<Rightarrow> Some (s\<lparr>conn_map := es, loop_calls := loop_calls s @ calls,
                                   stopped_threads := stopped_threads s @ pool_stop p, srv_started := 0\<rparr>)))"

text \<open>The destructor, which runs in the loop's thread.\<close>

definition TcpServer_destroy :: "tcp_server \<Rightarrow> tcp_server option" where
  "TcpServer_destroy s = srv_stop s"

definition conn_name_of :: "string \<Rightarrow> string \<Rightarrow> int \<Rightarrow> string" where
  "conn_name_of name hostport n = name @ snprintf 32 ('':'' @ c_str hostport @ ''#'' @ dec_int n)"

text \<open>\<open>sockname\<close> is the answer of \<^verbatim>\<open>getsockname\<close> for the new descriptor.\<close>

definition new_conn :: "int \<Rightarrow> sockaddr_in \<Rightarrow> sockaddr_in option \<Rightarrow> tcp_server \<Rightarrow> tcp_server option" where
  "new_conn sockfd peerAddr sockname s =
     (case pool s of
        None \<Rightarrow> None
      | Some p \<Rightarrow>
          (case get_next_loop p of
             Some (Some ioLoop, p') \<Rightarrow>
               let connName = conn_name_of (srv_name s) (host_port s) (next_conn_id s);
                   conn = \<lparr>conn_name = connName, conn_loop = ioLoop, conn_fd = sockfd,
                           conn_local = socks_get_local_addr sockname, conn_peer = peerAddr,
                           conn_cb = conn_callback s, msg_cb = msg_callback s,
                           write_complete_cb = write_complete_callback s\<rparr>;
                   c = length (objects s)
               in Some (call_loop (RunInLoop ioLoop (ConnEstablished c))
                    (s\<lparr>pool := Some p', next_conn_id := wrap32 (next_conn_id s + 1),
                       objects := objects s @ [conn],
                       conn_map := map_assign connName (Some c) (conn_map s)\<rparr>))
           | _ \<Rightarrow> None))"

definition remove_conn :: "conn_id \<Rightarrow> tcp_server \<Rightarrow> tcp_server" where
  "remove_conn c s = call_loop (RunInLoop (srv_loop s) (RemoveConnInLoop c)) s"

definition remove_conn_in_loop :: "conn_id \<Rightarrow> tcp_server \<Rightarrow> tcp_server" where
  "remove_conn_in_loop c s =
     (case map_erase (conn_name (objects s ! c)) (conn_map s) of
        (n, es) \<Rightarrow>
          let s1 = s\<lparr>conn_map := es\<rparr>
          in if n \<noteq> 1 then s1
             else call_loop (QueueInLoop (conn_loop (objects s ! c)) (ConnDestroyed c)) s1)"

section \<open>The HTTP server\<close>

record http_server =
  http_srv :: "tcp_server option"
  sessions :: "conn_id list"

text \<open>The port is a signed short that becomes unsigned.\<close>

definition http_init :: "(nat \<Rightarrow> loop_id) \<Rightarrow> string \<Rightarrow> int \<Rightarrow> loop_id \<Rightarrow> http_server \<Rightarrow> bool \<times> http_server" where
  "http_init fresh ip port loop h =
     (let addr = InetAddress_ip ip (of_int port)
      in (True, h\<lparr>http_srv := Some (srv_start fresh 4 (TcpServer loop addr ''WHISP_HTTP_SERVER'' kReusePort))\<rparr>))"

definition http_uninit :: "http_server \<Rightarrow> http_server option" where
  "http_uninit h =
     (case http_srv h of None \<Rightarrow> Some h | Some s \<Rightarrow> map_option (\<lambda>s'. h\<lparr>http_srv := Some s'\<rparr>) (srv_stop s))"

text \<open>\<^verbatim>\<open>on_disconnected\<close> is declared without a body; it is an argument. A session is known by its connection.\<close>

definition on_connected ::
  "(conn_id \<Rightarrow> http_server \<Rightarrow> http_server) \<Rightarrow> bool \<Rightarrow> conn_id \<Rightarrow> http_server \<Rightarrow> http_server" where
  "on_connected on_disconnected connected c h =
     (if connected then
        h\<lparr>http_srv := map_option (\<lambda>s. s\<lparr>objects := (objects s)[c := (objects s ! c)\<lparr>msg_cb := UserCallback c\<rparr>]\<rparr>) (http_srv h),
          sessions := sessions h @ [c]\<rparr>
      else on_disconnected c h)"

section \<open>Serving\<close>

text \<open>
  The runs of a server that is started and not stopped: connections are accepted, any of them
  may report its close at any time, and the base loop carries out the removals handed to it,
  in any order.
\<close>

inductive serve_step :: "(nat \<Rightarrow> loop_id) \<Rightarrow> int \<Rightarrow> tcp_server \<Rightarrow> tcp_server \<Rightarrow> bool" for fresh n where
  start: "serve_step fresh n s (srv_start fresh n s)"
| accept: "new_conn fd peer sockname s = Some s' \<Longrightarrow> serve_step fresh n s s'"
| closed: "c < length (objects s) \<Longrightarrow> serve_step fresh n s (remove_conn c s)"
| removed: "RunInLoop (srv_loop s) (RemoveConnInLoop c) \<in> set (loop_calls s) \<Longrightarrow>
    serve_step fresh n s (remove_conn_in_loop c s)"

inductive serving :: "(nat \<Rightarrow> loop_id) \<Rightarrow> int \<Rightarrow> tcp_server \<Rightarrow> tcp_server \<Rightarrow> bool" for fresh n s0 where
  init: "serving fresh n s0 s0"
| step: "serving fresh n s0 s \<Longrightarrow> serve_step fresh n s s' \<Longrightarrow> serving fresh n s0 s'"

fun task_of :: "loop_call \<Rightarrow> server_task" where
  "task_of (RunInLoop l t) = t"
| "task_of (QueueInLoop l t) = t"

definition posted :: "server_task \<Rightarrow> tcp_server \<Rightarrow> nat" where
  "posted t s = count_list (map task_of (loop_calls s)) t"

lemma new_conn_cases:
  assumes "new_conn fd peer sockname s = Some s'"
  obtains p io p' where "pool s = Some p" "get_next_loop p = Some (Some io, p')"
    "s' = s\<lparr>pool := Some p', next_conn_id := wrap32 (next_conn_id s + 1),
        objects := objects s @ [\<lparr>conn_name = conn_name_of (srv_name s) (host_port s) (next_conn_id s), conn_loop = io,
          conn_fd = fd, conn_local = socks_get_local_addr sockname, conn_peer = peer, conn_cb = conn_callback s,
          msg_cb = msg_callback s, write_complete_cb = write_complete_callback s\<rparr>],
        conn_map := map_assign (conn_name_of (srv_name s) (host_port s) (next_conn_id s)) (Some (length (objects s))) (conn_map s),
        loop_calls := loop_calls s @ [RunInLoop io (ConnEstablished (length (objects s)))]\<rparr>"
  using assms by (auto simp: new_conn_def call_loop_def Let_def split: option.splits)

lemma remove_conn_in_loop_frame:
  "objects (remove_conn_in_loop c s) = objects s" "pool (remove_conn_in_loop c s) = pool s"
  "srv_started (remove_conn_in_loop c s) = srv_started s" "next_conn_id (remove_conn_in_loop c s) = next_conn_id s"
  "host_port (remove_conn_in_loop c s) = host_port s" "srv_name (remove_conn_in_loop c s) = srv_name s"
  "srv_loop (remove_conn_in_loop c s) = srv_loop s" "conn_callback (remove_conn_in_loop c s) = conn_callback s"
  "msg_callback (remove_conn_in_loop c s) = msg_callback s"
  by (simp_all add: remove_conn_in_loop_def call_loop_def Let_def case_prod_beta)

lemmas server_frame = remove_conn_in_loop_frame

lemma server_frame_simple [simp]:
  "objects (srv_start fresh n s) = objects s" "next_conn_id (srv_start fresh n s) = next_conn_id s"
  "host_port (srv_start fresh n s) = host_port s" "srv_name (srv_start fresh n s) = srv_name s"
  "conn_map (srv_start fresh n s) = conn_map s" "srv_loop (srv_start fresh n s) = srv_loop s"
  "conn_callback (srv_start fresh n s) = conn_callback s" "msg_callback (srv_start fresh n s) = msg_callback s"
  "objects (remove_conn c s) = objects s" "next_conn_id (remove_conn c s) = next_conn_id s"
  "host_port (remove_conn c s) = host_port s" "srv_name (remove_conn c s) = srv_name s"
  "conn_map (remove_conn c s) = conn_map s" "srv_loop (remove_conn c s) = srv_loop s"
  "pool (remove_conn c s) = pool s" "srv_started (remove_conn c s) = srv_started s"
  "conn_callback (remove_conn c s) = conn_callback s" "msg_callback (remove_conn c s) = msg_callback s"
  by (simp_all add: srv_start_def remove_conn_def call_loop_def Let_def)

lemma posted_simple [simp]:
  "posted (ConnEstablished i) (srv_start fresh n s) = posted (ConnEstablished i) s"
  "posted (ConnDestroyed i) (srv_start fresh n s) = posted (ConnDestroyed i) s"
  "posted (ConnEstablished i) (remove_conn c s) = posted (ConnEstablished i) s"
  "posted (ConnDestroyed i) (remove_conn c s) = posted (ConnDestroyed i) s"
  by (simp_all add: posted_def srv_start_def remove_conn_def call_loop_def Let_def)

section \<open>Spreading the connections\<close>

definition spread_inv :: "(nat \<Rightarrow> loop_id) \<Rightarrow> int \<Rightarrow> tcp_server \<Rightarrow> bool" where
  "spread_inv fresh n s \<longleftrightarrow>
     (case pool s of
        None \<Rightarrow> srv_started s = 0 \<and> objects s = []
      | Some p \<Rightarrow> srv_started s \<noteq> 0 \<and> pool_ready p \<and> loops p = map fresh [0..<nat n] \<and>
          next_index p = length (objects s) mod nat n) \<and>
     (\<forall>i < length (objects s). conn_loop (objects s ! i) = fresh (i mod nat n))"

lemma spread_step:
  assumes "serve_step fresh n s s'" and "0 < n" and "spread_inv fresh n s"
  shows "spread_inv fresh n s'"
  using assms
proof (cases rule: serve_step.cases)
  case start
  let ?p = "fst (pool_start fresh False (pool_init (srv_loop s) n EventLoopThreadPool))"
  have p: "pool_ready ?p \<and> loops ?p = map fresh [0..<nat n] \<and> next_index ?p = 0"
    using pool_start_ready [OF assms(2) refl] by blast
  show ?thesis
  proof (cases "srv_started s = 0")
    case True
    then have "objects s = []" using assms(3) by (auto simp: spread_inv_def split: option.splits)
    then show ?thesis using start True p by (simp add: spread_inv_def srv_start_def Let_def call_loop_def)
  next
    case False
    then show ?thesis using start assms(3) by (simp add: srv_start_def)
  qed
next
  case (accept fd peer sockname)
  then obtain p io p' where n: "pool s = Some p" "get_next_loop p = Some (Some io, p')" and
    s': "pool s' = Some p'" "srv_started s' = srv_started s"
      "\<exists>c. objects s' = objects s @ [c] \<and> conn_loop c = io"
    by (elim new_conn_cases) auto
  have p: "pool_ready p" "loops p = map fresh [0..<nat n]" "next_index p = length (objects s) mod nat n"
    using assms(3) n(1) by (auto simp: spread_inv_def)
  have "Some io = map Some (loops p) ! next_index p \<and> pool_ready p' \<and> loops p' = loops p \<and>
      next_index p' = (next_index p + 1) mod length (loops p)"
    using pool.serves [OF p(1)] n(2) by (auto simp: inj_map_eq_map [OF inj_Some])
  then have "io = fresh (length (objects s) mod nat n) \<and> pool_ready p' \<and> loops p' = map fresh [0..<nat n] \<and>
      next_index p' = Suc (length (objects s)) mod nat n"
    using p assms(2) by (auto simp: mod_simps)
  then show ?thesis using s' n assms(3)
    by (auto simp: spread_inv_def nth_append less_Suc_eq)
qed (auto simp: spread_inv_def server_frame split: option.splits)

lemma serving_spread:
  "serving fresh n (TcpServer l addr nm opt) s \<Longrightarrow> 0 < n \<Longrightarrow> spread_inv fresh n s"
proof (induction rule: serving.induct)
  case init
  then show ?case by (simp add: spread_inv_def TcpServer_def)
next
  case step
  then show ?case using spread_step by blast
qed

section \<open>The life of a connection\<close>

lemma conn_name_of_inj:
  assumes "conn_name_of nm hp i = conn_name_of nm hp j" and "length hp \<le> 21"
    and "0 \<le> i" "i < 100000000" and "0 \<le> j" "j < 100000000"
  shows "i = j"
proof -
  have l: "length (c_str hp) \<le> 21" using assms(2) by (simp add: c_str_def length_takeWhile_le [THEN le_trans])
  have d: "length (dec_int k) \<le> 8" if "0 \<le> k" "k < 100000000" for k
    using that length_dec_nat [of 8 "nat k"] by (simp add: dec_int_def)
  have "snprintf 32 ('':'' @ c_str hp @ ''#'' @ dec_int k) = '':'' @ c_str hp @ ''#'' @ dec_int k"
    if "0 \<le> k" "k < 100000000" for k
    using l d [OF that] by (intro snprintf_id) simp
  then have "dec_int i = dec_int j" using assms by (simp add: conn_name_of_def)
  then show ?thesis using dec_int_nonneg_inj [of i "nat j"] assms(5) by (simp add: dec_int_def)
qed

definition life_inv :: "string \<Rightarrow> string \<Rightarrow> tcp_server \<Rightarrow> bool" where
  "life_inv hp nm s \<longleftrightarrow>
     host_port s = hp \<and> srv_name s = nm \<and> next_conn_id s = int (length (objects s)) + 1 \<and> map_wf (conn_map s) \<and>
     (\<forall>i < length (objects s). conn_name (objects s ! i) = conn_name_of nm hp (int i + 1)) \<and>
     (\<forall>k v. map_of (conn_map s) k = Some v \<longrightarrow> (\<exists>i < length (objects s). v = Some i \<and> k = conn_name (objects s ! i))) \<and>
     (\<forall>i. posted (ConnEstablished i) s = (if i < length (objects s) then 1 else 0)) \<and>
     (\<forall>i. posted (ConnDestroyed i) s =
        (if i < length (objects s) \<and> map_of (conn_map s) (conn_name (objects s ! i)) = None then 1 else 0)) \<and>
     (\<forall>l c. RunInLoop l (RemoveConnInLoop c) \<in> set (loop_calls s) \<longrightarrow> c < length (objects s))"

lemma life_inv_start: "life_inv hp nm s \<Longrightarrow> life_inv hp nm (srv_start fresh n s)"
  by (auto simp: life_inv_def) (auto simp: srv_start_def call_loop_def Let_def split: if_splits)

lemma life_inv_remove: "life_inv hp nm s \<Longrightarrow> c < length (objects s) \<Longrightarrow> life_inv hp nm (remove_conn c s)"
  by (auto simp: life_inv_def) (auto simp: remove_conn_def call_loop_def)

lemma life_inv_accept:
  assumes "life_inv hp nm s" and "new_conn fd peer sockname s = Some s'" and "length hp \<le> 21" and "length (objects s) < 99999999"
  shows "life_inv hp nm s'"
proof -
  let ?m = "length (objects s)" and ?nm = "conn_name_of nm hp (int (length (objects s)) + 1)"
  have inv: "host_port s = hp" "srv_name s = nm" "next_conn_id s = int ?m + 1" "map_wf (conn_map s)"
    "\<And>i. i < ?m \<Longrightarrow> conn_name (objects s ! i) = conn_name_of nm hp (int i + 1)"
    "\<And>k v. map_of (conn_map s) k = Some v \<Longrightarrow> \<exists>i < ?m. v = Some i \<and> k = conn_name (objects s ! i)"
    "\<And>i. posted (ConnEstablished i) s = (if i < ?m then 1 else 0)"
    "\<And>i. posted (ConnDestroyed i) s = (if i < ?m \<and> map_of (conn_map s) (conn_name (objects s ! i)) = None then 1 else 0)"
    "\<And>l c. RunInLoop l (RemoveConnInLoop c) \<in> set (loop_calls s) \<Longrightarrow> c < ?m"
    using assms(1) unfolding life_inv_def by blast+
  obtain io c where s': "host_port s' = hp" "srv_name s' = nm" "next_conn_id s' = wrap32 (int ?m + 2)"
      "conn_map s' = map_assign ?nm (Some ?m) (conn_map s)" "objects s' = objects s @ [c]" "conn_name c = ?nm"
      "loop_calls s' = loop_calls s @ [RunInLoop io (ConnEstablished ?m)]"
    using assms(2) inv(1-3) by (elim new_conn_cases) (auto simp: add.commute)
  have other: "conn_name (objects s ! i) \<noteq> ?nm" if "i < ?m" for i
    using conn_name_of_inj [of nm hp "int i + 1" "int ?m + 1"] that assms(3,4) inv(5) [OF that] by auto
  have "wrap32 (int ?m + 2) = int ?m + 2" using assms(4) by (intro wrap32_id) (simp add: int32_def)
  moreover have "\<exists>i < Suc ?m. v = Some i \<and> k = conn_name (objects s' ! i)"
    if lk: "map_of (conn_map s') k = Some v" for k v
  proof (cases "k = ?nm")
    case True
    then show ?thesis using lk s'(4-6) by (intro exI [of _ ?m]) simp
  next
    case False
    then obtain i where "i < ?m" "v = Some i" "k = conn_name (objects s ! i)" using lk inv(6) [of k v] s'(4) by auto
    then show ?thesis using s'(5) by (intro exI [of _ i]) (simp add: nth_append)
  qed
  moreover have "posted (ConnEstablished i) s' = (if i < Suc ?m then 1 else 0)" for i
    using inv(7) [of i] s'(7) by (auto simp: posted_def)
  moreover have "posted (ConnDestroyed i) s' =
      (if i < Suc ?m \<and> map_of (conn_map s') (conn_name (objects s' ! i)) = None then 1 else 0)" for i
    using inv(8) [of i] s' other [of i] by (auto simp: posted_def nth_append less_Suc_eq)
  moreover have "conn_name (objects s' ! i) = conn_name_of nm hp (int i + 1)" if "i < Suc ?m" for i
    using inv(5) [of i] s'(5,6) that by (auto simp: nth_append less_Suc_eq)
  moreover have "c < Suc ?m" if "RunInLoop l (RemoveConnInLoop c) \<in> set (loop_calls s')" for l c
    using inv(9) [of l c] that s'(7) by auto
  ultimately show ?thesis
    using s' map_wf_assign [OF inv(4)] unfolding life_inv_def by auto
qed

lemma life_inv_removed:
  assumes "life_inv hp nm s" and "length hp \<le> 21" and "length (objects s) \<le> 99999999" and "c < length (objects s)"
  shows "life_inv hp nm (remove_conn_in_loop c s)"
proof -
  let ?s' = "remove_conn_in_loop c s" and ?m = "length (objects s)"
  let ?nm = "\<lambda>i. conn_name (objects s ! i)"
  have inv: "map_wf (conn_map s)" "\<And>i. i < ?m \<Longrightarrow> ?nm i = conn_name_of nm hp (int i + 1)"
    "\<And>i. posted (ConnEstablished i) s = (if i < ?m then 1 else 0)"
    "\<And>i. posted (ConnDestroyed i) s = (if i < ?m \<and> map_of (conn_map s) (?nm i) = None then 1 else 0)"
    using assms(1) unfolding life_inv_def by blast+
  have m': "conn_map ?s' = snd (map_erase (?nm c) (conn_map s))"
    by (simp add: remove_conn_in_loop_def call_loop_def Let_def case_prod_beta)
  have calls: "loop_calls ?s' = loop_calls s @
      (if map_of (conn_map s) (?nm c) = None then [] else [QueueInLoop (conn_loop (objects s ! c)) (ConnDestroyed c)])"
    using map_erase_count [OF inv(1), of "?nm c"]
    by (simp add: remove_conn_in_loop_def call_loop_def Let_def case_prod_beta split: if_splits)
  have other: "?nm i = ?nm c \<longleftrightarrow> i = c" if "i < ?m" for i
    using conn_name_of_inj [of nm hp "int i + 1" "int c + 1"] inv(2) [OF that] inv(2) [OF assms(4)] that assms(2-4) by auto
  have "posted (ConnEstablished i) ?s' = posted (ConnEstablished i) s" for i
    using calls by (simp add: posted_def)
  moreover have "posted (ConnDestroyed i) ?s' = (if i < ?m \<and> map_of (conn_map ?s') (?nm i) = None then 1 else 0)" for i
    using inv(4) [of i] other [of i] assms(4) m' calls by (auto simp: posted_def)
  moreover have "map_wf (conn_map ?s')" using map_wf_erase [OF inv(1)] m' by simp
  moreover have "set (loop_calls ?s') \<subseteq> set (loop_calls s) \<union> {QueueInLoop (conn_loop (objects s ! c)) (ConnDestroyed c)}"
    using calls by auto
  moreover have "map_of (conn_map ?s') k = Some v \<Longrightarrow> map_of (conn_map s) k = Some v" for k v
    using m' by (auto split: if_splits)
  ultimately show ?thesis
    using assms(1) unfolding life_inv_def server_frame by (auto 4 4)
qed

lemma serving_objects_mono: "serve_step fresh n s s' \<Longrightarrow> length (objects s) \<le> length (objects s')"
  by (induction rule: serve_step.induct) (auto simp: server_frame elim!: new_conn_cases)

lemma serving_life:
  "serving fresh n (TcpServer l addr nm opt) s \<Longrightarrow> length (objects s) \<le> 99999999 \<Longrightarrow>
    life_inv (inet_2_ipport [] addr) nm s"
proof (induction rule: serving.induct)
  case init
  then show ?case by (simp add: life_inv_def TcpServer_def posted_def)
next
  case (step s s')
  have "length (objects s) \<le> length (objects s')" using serving_objects_mono [OF step.hyps(2)] .
  then have inv: "life_inv (inet_2_ipport [] addr) nm s" "length (objects s) \<le> 99999999" using step by auto
  from step.hyps(2) show ?case
  proof (cases rule: serve_step.cases)
    case (accept fd peer sockname)
    then have "length (objects s) < length (objects s')" by (elim new_conn_cases) auto
    then show ?thesis using life_inv_accept [OF inv(1) accept length_inet_2_ipport] step.prems by simp
  next
    case (removed c)
    then have "c < length (objects s)" using inv(1) unfolding life_inv_def by blast
    then show ?thesis using life_inv_removed [OF inv(1) length_inet_2_ipport inv(2)] removed by simp
  qed (use inv life_inv_start life_inv_remove in auto)
qed

section \<open>Stopping\<close>

lemma serving_pool:
  "serving fresh n (TcpServer l addr nm opt) s \<Longrightarrow> (srv_started s \<noteq> 0 \<longrightarrow> pool s \<noteq> None) \<and> stopped_threads s = []"
proof (induction rule: serving.induct)
  case init
  then show ?case by (simp add: TcpServer_def)
next
  case (step s s')
  from step(2) step.IH show ?case
    by (cases rule: serve_step.cases)
      (auto simp: srv_start_def remove_conn_def remove_conn_in_loop_def call_loop_def Let_def case_prod_beta elim!: new_conn_cases)
qed

lemma stop_conns_result:
  "stop_conns objs es = Some (es', calls) \<Longrightarrow>
    map fst es' = map fst es \<and> map snd es' = replicate (length es) None \<and>
    count_list (map task_of calls) (ConnDestroyed i) = count_list (map snd es) (Some i)"
  by (induction objs es arbitrary: es' calls rule: stop_conns.induct) auto

lemma stop_conns_total: "\<forall>e \<in> set es. snd e \<noteq> None \<Longrightarrow> \<exists>es' calls. stop_conns objs es = Some (es', calls)"
  by (induction objs es rule: stop_conns.induct) auto

lemma stop_conns_null: "(k, None) \<in> set es \<Longrightarrow> stop_conns objs es = None"
  by (induction objs es rule: stop_conns.induct) auto

lemma count_list_filter: "count_list xs x = length (filter (\<lambda>y. y = x) xs)"
  by (induction xs) auto

lemma life_inv_entries:
  assumes "life_inv hp nm s" and "length hp \<le> 21" and "length (objects s) \<le> 99999999" and "i < length (objects s)"
  shows "count_list (map snd (conn_map s)) (Some i) =
    (if map_of (conn_map s) (conn_name (objects s ! i)) = None then 0 else 1)"
proof -
  let ?nm = "\<lambda>i. conn_name (objects s ! i)"
  have wf: "map_wf (conn_map s)" and names: "\<And>j. j < length (objects s) \<Longrightarrow> ?nm j = conn_name_of nm hp (int j + 1)"
    using assms(1) by (auto simp: life_inv_def)
  have "distinct (map fst (conn_map s))" using wf by (simp add: map_wf_def strict_sorted_iff)
  then have e: "\<exists>j < length (objects s). snd e = Some j \<and> fst e = ?nm j" if "e \<in> set (conn_map s)" for e
    using assms(1) that unfolding life_inv_def by (cases e) (metis fst_conv map_of_is_SomeI snd_conv)
  have "?nm j = ?nm i \<longleftrightarrow> j = i" if "j < length (objects s)" for j
    using conn_name_of_inj [of nm hp "int j + 1" "int i + 1"] names [OF that] names [OF assms(4)] that assms(2-4) by auto
  then have "filter (\<lambda>e. snd e = Some i) (conn_map s) = filter (\<lambda>e. fst e = ?nm i) (conn_map s)"
    using e by (intro filter_cong) fastforce+
  then show ?thesis
    using map_erase_count [OF wf, of "?nm i"] by (simp add: count_list_filter filter_map comp_def map_erase_def)
qed

lemma life_inv_no_null: "life_inv hp nm s \<Longrightarrow> e \<in> set (conn_map s) \<Longrightarrow> snd e \<noteq> None"
proof -
  assume l: "life_inv hp nm s" "e \<in> set (conn_map s)"
  then have "distinct (map fst (conn_map s))" by (simp add: life_inv_def map_wf_def strict_sorted_iff)
  then have "map_of (conn_map s) (fst e) = Some (snd e)" using l(2) by (simp add: map_of_is_SomeI)
  then show "snd e \<noteq> None" using l(1) unfolding life_inv_def by blast
qed

section \<open>Properties\<close>

text \<open>A server with two workers that has accepted two connections, the first of which is removed.\<close>

definition demo_server :: tcp_server where
  "demo_server =
     (let s = srv_start (\<lambda>i. i + 10) 2 (TcpServer 1 (InetAddress_ip ''127.0.0.1'' 80) ''S'' kNoReusePort);
          s1 = the (new_conn 5 zero_addr None s);
          s2 = the (new_conn 6 zero_addr None s1)
      in remove_conn_in_loop 0 (remove_conn 0 s2))"

lemma demo_server_simps:
  "conn_map demo_server = [(''S:127.0.0.1:80#2'', Some 1)]"
  "map conn_name (objects demo_server) = [''S:127.0.0.1:80#1'', ''S:127.0.0.1:80#2'']"
  "map conn_loop (objects demo_server) = [10, 11]" "srv_started demo_server = 1"
  "loop_calls demo_server = [RunInLoop 1 Listen, RunInLoop 10 (ConnEstablished 0), RunInLoop 11 (ConnEstablished 1),
     RunInLoop 1 (RemoveConnInLoop 0), QueueInLoop 10 (ConnDestroyed 0)]"
  by code_simp+

lemma demo_server_objects:
  "length (objects demo_server) = 2" "conn_name (objects demo_server ! 0) = ''S:127.0.0.1:80#1''"
  "conn_name (objects demo_server ! 1) = ''S:127.0.0.1:80#2''"
  by code_simp+

lemma demo_server_serving: "serving (\<lambda>i. i + 10) 2 (TcpServer 1 (InetAddress_ip ''127.0.0.1'' 80) ''S'' kNoReusePort) demo_server"
proof -
  let ?s0 = "srv_start (\<lambda>i. i + 10) 2 (TcpServer 1 (InetAddress_ip ''127.0.0.1'' 80) ''S'' kNoReusePort)"
  let ?s1 = "the (new_conn 5 zero_addr None ?s0)" and ?r = "serving (\<lambda>i. i + 10) 2 (TcpServer 1 (InetAddress_ip ''127.0.0.1'' 80) ''S'' kNoReusePort)"
  let ?s2 = "the (new_conn 6 zero_addr None ?s1)"
  have "new_conn 5 zero_addr None ?s0 \<noteq> None" "new_conn 6 zero_addr None ?s1 \<noteq> None" by code_simp+
  then have a: "new_conn 5 zero_addr None ?s0 = Some ?s1" "new_conn 6 zero_addr None ?s1 = Some ?s2" by simp_all
  have "?r ?s0" by (rule serving.step [OF serving.init serve_step.start])
  then have "?r ?s1" using serve_step.accept [OF a(1)] by (rule serving.step)
  then have "?r ?s2" using serve_step.accept [OF a(2)] by (rule serving.step)
  moreover have "0 < length (objects ?s2)" by code_simp
  ultimately have "?r (remove_conn 0 ?s2)" by (intro serving.step [OF _ serve_step.closed])
  moreover have "RunInLoop (srv_loop (remove_conn 0 ?s2)) (RemoveConnInLoop 0) \<in> set (loop_calls (remove_conn 0 ?s2))"
    by (simp add: remove_conn_def call_loop_def)
  ultimately have "?r (remove_conn_in_loop 0 (remove_conn 0 ?s2))" by (intro serving.step [OF _ serve_step.removed])
  then show ?thesis by (simp add: demo_server_def Let_def)
qed

text \<open>
  C6: as long as a server has accepted fewer than a hundred million connections, every one of
  them has a name of its own and is handed to its loop for establishment exactly once; it is
  either in the map, and then not destroyed, or out of it, and then handed to its loop for
  destruction exactly once, however often and in whatever order closes are reported.
\<close>

theorem conn_lifecycle:
  assumes "serving fresh n (TcpServer l addr nm opt) s" and "length (objects s) \<le> 99999999"
    and "i < length (objects s)"
  shows "posted (ConnEstablished i) s = 1 \<and>
    (case map_of (conn_map s) (conn_name (objects s ! i)) of
       Some v \<Rightarrow> v = Some i \<and> posted (ConnDestroyed i) s = 0
     | None \<Rightarrow> posted (ConnDestroyed i) s = 1) \<and>
    (\<forall>j < length (objects s). conn_name (objects s ! j) = conn_name (objects s ! i) \<longrightarrow> j = i)"
proof -
  let ?hp = "inet_2_ipport [] addr"
  have inv: "life_inv ?hp nm s" using serving_life [OF assms(1,2)] .
  have inj: "j = i" if "j < length (objects s)" "conn_name (objects s ! j) = conn_name (objects s ! i)" for j
    using conn_name_of_inj [of nm ?hp "int j + 1" "int i + 1"] inv that assms(2,3) length_inet_2_ipport
    by (auto simp: life_inv_def)
  have "map_of (conn_map s) (conn_name (objects s ! i)) = Some v \<Longrightarrow> v = Some i" for v
    using inv inj unfolding life_inv_def by metis
  then show ?thesis using inv inj assms(3) by (auto simp: life_inv_def split: option.splits)
qed

theorem conn_lifecycle_witness:
  "posted (ConnEstablished 0) demo_server = 1 \<and> posted (ConnDestroyed 0) demo_server = 1 \<and>
   posted (ConnDestroyed 1) demo_server = 0"
proof -
  note c = conn_lifecycle [OF demo_server_serving]
  show ?thesis using c [of 0] c [of 1] demo_server_objects(3) by (simp add: demo_server_objects(1,2) demo_server_simps(1))
qed

text \<open>
  the connections are spread evenly: with \<open>n\<close> worker threads the \<open>i\<close>-th accepted
  connection runs in the loop of worker \<open>i mod n\<close>, whatever is closed in between.
\<close>

theorem conn_spread:
  assumes "serving fresh n (TcpServer l addr nm opt) s" and "0 < n" and "i < length (objects s)"
  shows "conn_loop (objects s ! i) = fresh (i mod nat n) \<and>
    (\<exists>p. pool s = Some p \<and> (\<exists>p'. get_next_loop p = Some (Some (fresh (length (objects s) mod nat n)), p')))"
proof -
  have inv: "spread_inv fresh n s" using serving_spread [OF assms(1,2)] .
  then obtain p where p: "pool s = Some p" "pool_ready p" "loops p = map fresh [0..<nat n]"
      "next_index p = length (objects s) mod nat n"
    using assms(3) by (auto simp: spread_inv_def split: option.splits)
  then show ?thesis using inv assms(2,3) pool.serves [OF p(2)] by (auto simp: spread_inv_def)
qed

theorem conn_spread_witness: "conn_loop (objects demo_server ! 1) = 11"
  using conn_spread [OF demo_server_serving, of 1] by (simp add: demo_server_objects(1))

text \<open>
  C29: stopping a server hands every connection it ever accepted to its loop for destruction,
  those that are already removed counted, exactly once.
\<close>

theorem stop_destroys_each_once:
  assumes "serving fresh n (TcpServer l addr nm opt) s" and "length (objects s) \<le> 99999999"
    and "srv_started s \<noteq> 0"
  shows "\<exists>s' p. srv_stop s = Some s' \<and> srv_started s' = 0 \<and> pool s = Some p \<and> stopped_threads s' = threads p \<and>
    (\<forall>i < length (objects s). posted (ConnDestroyed i) s' = 1)"
proof -
  let ?hp = "inet_2_ipport [] addr"
  have inv: "life_inv ?hp nm s" using serving_life [OF assms(1,2)] .
  obtain es calls where st: "stop_conns (objects s) (conn_map s) = Some (es, calls)"
    using stop_conns_total life_inv_no_null [OF inv] by blast
  obtain p where p: "pool s = Some p" "stopped_threads s = []" using serving_pool [OF assms(1)] assms(3) by auto
  let ?s' = "s\<lparr>conn_map := es, loop_calls := loop_calls s @ calls,
    stopped_threads := stopped_threads s @ pool_stop p, srv_started := 0\<rparr>"
  have "posted (ConnDestroyed i) ?s' = 1" if "i < length (objects s)" for i
  proof -
    have "posted (ConnDestroyed i) ?s' = posted (ConnDestroyed i) s + count_list (map snd (conn_map s)) (Some i)"
      using stop_conns_result [OF st, of i] by (simp add: posted_def)
    also have "\<dots> = 1" using life_inv_entries [OF inv length_inet_2_ipport assms(2) that] inv that by (simp add: life_inv_def)
    finally show ?thesis .
  qed
  then show ?thesis using assms(3) st p by (simp add: srv_stop_def pool_stop_def)
qed

theorem stop_destroys_each_once_witness:
  "\<exists>s'. srv_stop demo_server = Some s' \<and> posted (ConnDestroyed 0) s' = 1 \<and> posted (ConnDestroyed 1) s' = 1"
  using stop_destroys_each_once [OF demo_server_serving] by (auto simp: demo_server_objects(1) demo_server_simps(4))

text \<open>
  a server that is stopped while it has connections keeps their names with null pointers
  in its map; started and stopped again, it calls through one of them.
\<close>

theorem restarted_stop_fails:
  assumes "srv_started s \<noteq> 0" and "srv_stop s = Some s'" and "conn_map s \<noteq> []"
  shows "srv_stop (srv_start fresh n s') = None"
proof -
  obtain es calls where st: "stop_conns (objects s) (conn_map s) = Some (es, calls)"
      and s': "conn_map s' = es" "srv_started s' = 0"
    using assms(1,2) by (auto simp: srv_stop_def split: option.splits)
  have r: "map snd es = replicate (length (conn_map s)) None" using stop_conns_result [OF st] by simp
  then obtain k where "(k, None) \<in> set es" using assms(3) by (cases es; cases "conn_map s"; fastforce)
  moreover have "conn_map (srv_start fresh n s') = es" "srv_started (srv_start fresh n s') = 1"
    by (simp_all add: s' srv_start_def Let_def call_loop_def)
  ultimately show ?thesis using stop_conns_null [of k es] by (simp add: srv_stop_def)
qed

theorem restarted_stop_fails_witness: "srv_stop (srv_start (\<lambda>i. i + 20) 2 (the (srv_stop demo_server))) = None"
proof (rule restarted_stop_fails)
  have "srv_stop demo_server \<noteq> None" by code_simp
  then show "srv_stop demo_server = Some (the (srv_stop demo_server))" by simp
qed (simp_all add: demo_server_simps)

text \<open>
  The limit on the number of connections is needed: the buffer for the name holds 31
  characters, and a listening address of full length leaves eight of them for the number.
\<close>

lemma conn_name_collision:
  "conn_name_of nm ''255.255.255.255:65535'' 100000000 = conn_name_of nm ''255.255.255.255:65535'' 100000001"
  by (simp add: conn_name_of_def dec_int_def snprintf_def c_str_def dec_nat.simps)

text \<open>
  the HTTP server never serves a request: \<^verbatim>\<open>init\<close> installs no connection callback, so
  every connection it accepts keeps the default message callback, which discards what it
  reads, and no session is ever created.
\<close>

theorem http_server_ignores_requests:
  assumes "http_init fresh ip port l \<lparr>http_srv = None, sessions = []\<rparr> = (ok, h)" and "http_srv h = Some s0"
    and "serving fresh' n s0 s" and "i < length (objects s)"
  shows "conn_cb (objects s ! i) = DefaultCallback \<and> msg_cb (objects s ! i) = DefaultCallback \<and> sessions h = []"
proof -
  let ?ok = "\<lambda>s. conn_callback s = DefaultCallback \<and> msg_callback s = DefaultCallback \<and>
    (\<forall>c \<in> set (objects s). conn_cb c = DefaultCallback \<and> msg_cb c = DefaultCallback)"
  have ok0: "?ok s0" and h: "sessions h = []" using assms(1,2) by (auto simp: http_init_def TcpServer_def Let_def)
  have ok1: "?ok s'" if "serve_step fresh' n s s'" "?ok s" for s s'
    using that by (induction rule: serve_step.induct) (auto simp: server_frame elim!: new_conn_cases)
  have "?ok s" using assms(3)
  proof (induction rule: serving.induct)
    case init
    show ?case by (rule ok0)
  next
    case (step s s')
    show ?case by (rule ok1 [OF step(2,3)])
  qed
  then show ?thesis using assms(4) h by simp
qed

theorem http_server_ignores_requests_witness:
  "msg_cb (objects (the (new_conn 5 zero_addr None (srv_start (\<lambda>i. i) 4 (TcpServer 1 (InetAddress_ip ''127.0.0.1'' 80) ''WHISP_HTTP_SERVER'' kReusePort)))) ! 0) = DefaultCallback"
proof -
  let ?s0 = "srv_start (\<lambda>i. i) 4 (TcpServer 1 (InetAddress_ip ''127.0.0.1'' 80) ''WHISP_HTTP_SERVER'' kReusePort)"
  have "new_conn 5 zero_addr None ?s0 \<noteq> None" and len: "0 < length (objects (the (new_conn 5 zero_addr None ?s0)))" by code_simp+
  then have "new_conn 5 zero_addr None ?s0 = Some (the (new_conn 5 zero_addr None ?s0))" by simp
  then have "serving (\<lambda>i. i) 4 ?s0 (the (new_conn 5 zero_addr None ?s0))" by (intro serving.step [OF serving.init serve_step.accept])
  then show ?thesis
    using http_server_ignores_requests [of "\<lambda>i. i" "''127.0.0.1''" 80 1 True "\<lparr>http_srv = Some ?s0, sessions = []\<rparr>" ?s0] len
    by (simp add: http_init_def Let_def)
qed

end
