(* ===== verification/Acceptor.thy ===== *)
theory Acceptor
  imports Sockets Channel_Poller
begin

text \<open>
  \<^verbatim>\<open>Acceptor\<close> of \<^verbatim>\<open>network/acceptor.{h,cpp}\<close>: the listening socket with its channel, and
  the spare descriptor that is given up to refuse a connection when the process has no
  descriptor left. The state holds the descriptors of the process and the poller of the
  owning loop, on which the channel operations act; the operations run in the loop's thread.
\<close>

section \<open>Operations\<close>

record 'k acceptor =
  acc_sys :: sock_sys
  acc_poller :: "'k epoll_poller"
  accept_socket :: int
  accept_channel :: caddr
  has_new_conn_callback :: bool
  listening :: bool
  idle_fd :: int

text \<open>\<^verbatim>\<open>::open\<close> and \<^verbatim>\<open>::close\<close>: the result of the first is an argument, a negative one is a failure.\<close>

definition sys_open :: "int \<Rightarrow> sock_sys \<Rightarrow> sock_sys" where
  "sys_open r s = (if r < 0 then s else set_fd r (Some OtherFd) s)"

definition sys_close :: "int \<Rightarrow> sock_sys \<Rightarrow> sock_sys" where
  "sys_close d s = set_fd d None s"

text \<open>
  The constructor: \<open>sockfd\<close>, \<open>devnull\<close>, \<open>rp\<close> and \<open>bd\<close> are the results of \<^verbatim>\<open>socket\<close>,
  \<^verbatim>\<open>open\<close>, of setting SO_REUSEPORT and of \<^verbatim>\<open>bind\<close>; the channel is the object at \<open>ch\<close>.
\<close>

definition Acceptor ::
  "int \<Rightarrow> int \<Rightarrow> int \<Rightarrow> int \<Rightarrow> caddr \<Rightarrow> sockaddr_in \<Rightarrow> bool \<Rightarrow> sock_sys \<Rightarrow> 'k epoll_poller \<Rightarrow> 'k acceptor" where
  "Acceptor sockfd devnull rp bd ch listenAddr reuseport s p =
     (case socks_create_noblocking_or_die sockfd s of
        (fd0, s1) \<Rightarrow>
          let s2 = sys_open devnull s1;
              s3 = sock_set_reuse_addr fd0 True s2;
              s4 = sock_set_reuse_port rp fd0 reuseport s3;
              s5 = sock_bind_address bd fd0 listenAddr s4
          in \<lparr>acc_sys = s5, acc_poller = set_chan ch (set_read_callback True (new_channel fd0)) p,
              accept_socket = fd0, accept_channel = ch, has_new_conn_callback = False, listening = False,
              idle_fd = devnull\<rparr>)"

definition set_new_conn_callback :: "'k acceptor \<Rightarrow> 'k acceptor" where
  "set_new_conn_callback a = a\<lparr>has_new_conn_callback := True\<rparr>"

definition acceptor_listen :: "'k epoll_ctl \<Rightarrow> int \<Rightarrow> 'k acceptor \<Rightarrow> 'k acceptor" where
  "acceptor_listen ctl ret a =
     (let a1 = a\<lparr>listening := True\<rparr>;
          a2 = a1\<lparr>acc_sys := sock_listen ret (accept_socket a1) (acc_sys a1)\<rparr>
      in a2\<lparr>acc_poller := snd (enable_reading ctl (accept_channel a2) (acc_poller a2))\<rparr>)"

text \<open>
  \<^verbatim>\<open>_handle_read\<close>: \<open>r\<close>, \<open>err\<close> and \<open>peer\<close> are the results of \<^verbatim>\<open>accept4\<close>, \<open>errno\<close> is the
  error number as it is read after the log call, \<open>r2\<close> and \<open>devnull\<close> are the results of the
  second \<^verbatim>\<open>accept\<close> and of \<^verbatim>\<open>open\<close>. The result carries the call of the new connection
  callback, when it is made.
\<close>

definition sys_accept :: "int \<Rightarrow> sock_sys \<Rightarrow> sock_sys" where
  "sys_accept r s = (if r < 0 then s else set_fd r (Some (SocketFd (new_sock\<lparr>nonblock := False, cloexec := False\<rparr>))) s)"

definition acceptor_read ::
  "string \<Rightarrow> int \<Rightarrow> int \<Rightarrow> sockaddr_in \<Rightarrow> int \<Rightarrow> int \<Rightarrow> int \<Rightarrow> 'k acceptor \<Rightarrow> (int \<times> sockaddr_in) option \<times> 'k acceptor" where
  "acceptor_read errtext r err peer errno r2 devnull a =
     (case sock_accept r err peer (InetAddress_port 0 False) (acc_sys a) of
        (connfd, peerAddr, s1) \<Rightarrow>
          if connfd \<ge> 0 then
            (if has_new_conn_callback a then (Some (connfd, peerAddr), a\<lparr>acc_sys := s1\<rparr>)
             else (None, a\<lparr>acc_sys := socks_close errtext connfd s1\<rparr>))
          else
            let s2 = add_log (SysError ''in Acceptor::handleRead'') s1
            in if errno = EMFILE then
                 let s3 = sys_close (idle_fd a) s2;
                     a1 = a\<lparr>idle_fd := r2\<rparr>;
                     s4 = sys_accept r2 s3;
                     s5 = sys_close (idle_fd a1) s4;
                     a2 = a1\<lparr>idle_fd := devnull\<rparr>;
                     s6 = sys_open devnull s5
                 in (None, a2\<lparr>acc_sys := s6\<rparr>)
               else (None, a\<lparr>acc_sys := s2\<rparr>))"

text \<open>The destructor, with that of the member \<^verbatim>\<open>accept_socket_\<close> which runs after it.\<close>

definition acceptor_destroy :: "'k epoll_ctl \<Rightarrow> string \<Rightarrow> 'k acceptor \<Rightarrow> 'k acceptor" where
  "acceptor_destroy ctl errtext a =
     (let p1 = snd (disable_all ctl (accept_channel a) (acc_poller a));
          p2 = channel_remove ctl (accept_channel a) p1;
          s1 = sys_close (idle_fd a) (acc_sys a)
      in a\<lparr>acc_poller := p2, acc_sys := Socket_destroy errtext (accept_socket a) s1\<rparr>)"

section \<open>Lemmas\<close>

lemma fd_table_ops [simp]:
  "fd_table (set_fd i d s) = (fd_table s)(i := d)" "fd_table (add_log e s) = fd_table s"
  by (simp_all add: set_fd_def add_log_def)

lemma dom_set_opt [simp]: "dom (fd_table (set_opt i f s)) = dom (fd_table s)"
  by (auto simp: set_opt_def dom_def)

lemma set_opt_same [simp]: "fd_table (set_opt i f s) i = map_option (upd_sock f) (fd_table s i)"
  by (simp add: set_opt_def)

lemma set_opt_other [simp]: "j \<noteq> i \<Longrightarrow> fd_table (set_opt i f s) j = fd_table s j"
  by (simp add: set_opt_def)

lemmas sock_op_defs =
  socks_create_noblocking_or_die_def socks_set_noblocking_and_close_exec_def socks_set_reuse_addr_def
  socks_set_reuse_port_def socks_bind_or_die_def socks_listen_or_die_def
  sock_set_reuse_addr_def sock_set_reuse_port_def sock_bind_address_def sock_listen_def Socket_destroy_def

lemma set_chan_self [simp]: "chan (set_chan ch c p) ch = c" "channels (set_chan ch c p) = channels p"
  "kernel (set_chan ch c p) = kernel p" "chan (set_index ch i p) ch = (chan p ch)\<lparr>index := i\<rparr>"
  by (simp_all add: set_chan_def set_index_def)

lemma acceptor_read_fds:
  assumes "acceptor_read errtext r err peer errno r2 devnull a = (call, a')"
    and "fd_table (acc_sys a) (idle_fd a) \<noteq> None" and "r \<ge> - 1"
    and "r \<ge> 0 \<Longrightarrow> fd_table (acc_sys a) r = None"
    and "r2 \<ge> 0 \<Longrightarrow> fd_table (acc_sys a) r2 = None \<or> r2 = idle_fd a"
    and "0 \<le> devnull" and "fd_table (acc_sys a) devnull = None \<or> devnull = idle_fd a"
    and "\<And>d. d < 0 \<Longrightarrow> fd_table (acc_sys a) d = None"
  shows "(if r \<ge> 0 \<and> has_new_conn_callback a
      then call = Some (r, peer) \<and> dom (fd_table (acc_sys a')) = insert r (dom (fd_table (acc_sys a)))
      else call = None \<and>
        dom (fd_table (acc_sys a')) = (if r < 0 \<and> errno = EMFILE then insert devnull (dom (fd_table (acc_sys a)) - {idle_fd a})
          else dom (fd_table (acc_sys a)))) \<and>
    fd_table (acc_sys a') (idle_fd a') \<noteq> None"
proof -
  have neg: "r = - 1" if "\<not> 0 \<le> r" using assms(3) that by simp
  consider "r \<ge> 0" "has_new_conn_callback a" | "r \<ge> 0" "\<not> has_new_conn_callback a" | "r = - 1" "errno = EMFILE" |
    "r = - 1" "errno \<noteq> EMFILE" using neg by blast
  then show ?thesis
  proof cases
    case 1
    then show ?thesis using assms(1,2,4) by (auto simp: acceptor_read_def sock_accept_def socks_accept_def SOCKET_ERROR_def)
  next
    case 2
    then show ?thesis using assms(1,2,4)
      by (auto simp: acceptor_read_def sock_accept_def socks_accept_def SOCKET_ERROR_def socks_close_def split: if_splits)
  next
    case 3
    have d: "insert devnull (dom (fd_table (acc_sys a)) - {idle_fd a} - {r2}) = insert devnull (dom (fd_table (acc_sys a)) - {idle_fd a})"
      using assms(5) assms(8) [of r2] by (cases "r2 \<ge> 0") auto
    have "call = None" "idle_fd a' = devnull"
      "fd_table (acc_sys a') = (fd_table (acc_sys a))(idle_fd a := None, r2 := None, devnull \<mapsto> OtherFd)"
      using 3 assms(1,6) by (auto simp: acceptor_read_def sock_accept_def socks_accept_def SOCKET_ERROR_def sys_close_def
        sys_accept_def sys_open_def Let_def)
    then show ?thesis using 3 d by simp
  next
    case 4
    then show ?thesis using assms(1,2)
      by (auto simp: acceptor_read_def sock_accept_def socks_accept_def SOCKET_ERROR_def Let_def split: if_splits)
  qed
qed

lemma acceptor_read_frame:
  assumes "acceptor_read errtext r err peer errno r2 devnull a = (call, a')" and "r \<ge> - 1"
  shows "accept_socket a' = accept_socket a" "has_new_conn_callback a' = has_new_conn_callback a"
    "idle_fd a' = (if r < 0 \<and> errno = EMFILE then devnull else idle_fd a)"
  using assms by (auto simp: acceptor_read_def sock_accept_def socks_accept_def SOCKET_ERROR_def Let_def split: if_splits)

text \<open>Disabling a channel and removing it takes it off the poller and leaves the others.\<close>

lemma unregistered:
  assumes "reg_ok p"
  shows "\<not> has_channel ch (channel_remove ctl ch (snd (disable_all ctl ch p)))"
    and "b \<noteq> ch \<Longrightarrow> has_channel b (channel_remove ctl ch (snd (disable_all ctl ch p))) = has_channel b p"
proof -
  let ?q = "set_chan ch ((chan p ch)\<lparr>events := none_event\<rparr>) p"
  have q: "reg_ok ?q" using assms by (simp add: reg_ok_def)
  have quiet: "is_event_none (chan ?q ch)" by (simp add: is_event_none_def)
  have "is_event_none (chan (snd (update_channel ctl ch ?q)) ch)" using epoll.update_quiet [OF q] quiet by blast
  then have e: "channel_remove ctl ch (snd (disable_all ctl ch p)) = epoll.unregister ctl ch ?q"
    by (simp add: disable_all_def set_events_def channel_remove_def epoll.unregister_def)
  show "\<not> has_channel ch (channel_remove ctl ch (snd (disable_all ctl ch p)))"
    unfolding e by (rule epoll.unregister_has [OF q quiet])
  show "has_channel b (channel_remove ctl ch (snd (disable_all ctl ch p))) = has_channel b p" if "b \<noteq> ch"
    unfolding e epoll.unregister_other [OF q that] using that by (simp add: has_channel_def)
qed

section \<open>Properties\<close>

text \<open>
  A server that starts listening without an error has a non-blocking socket bound to its
  address, and its channel is added to the poller with interest in reading, whatever else the
  poller watches.
\<close>

theorem acceptor_listens:
  assumes "0 \<le> sockfd" and "0 \<le> devnull" and "devnull \<noteq> sockfd" and "rp = 0" and "bd = 0" and "ret = 0"
    and "channels p sockfd = None"
    and "a = acceptor_listen ctl ret (set_new_conn_callback (Acceptor sockfd devnull rp bd ch addr reuseport s p))"
  shows "fd_table (acc_sys a) sockfd =
      Some (SocketFd (new_sock\<lparr>reuse_addr := True, reuse_port := reuseport, bound := Some addr, listens := True\<rparr>)) \<and>
    sock_logs (acc_sys a) = sock_logs s \<and>
    channels (acc_poller a) sockfd = Some ch \<and> events (chan (acc_poller a) ch) = read_event \<and>
    has_read_callback (chan (acc_poller a) ch) \<and>
    kernel (acc_poller a) = snd (ctl CTL_ADD sockfd read_event ch (kernel p)) \<and> listening a"
proof -
  have neq: "sockfd \<noteq> - 1" "devnull \<noteq> - 1" using assms(1,2) by auto
  have sys: "fd_table (acc_sys a) sockfd =
      Some (SocketFd (new_sock\<lparr>reuse_addr := True, reuse_port := reuseport, bound := Some addr, listens := True\<rparr>))"
    "sock_logs (acc_sys a) = sock_logs s"
    using assms neq by (simp_all add: acceptor_listen_def set_new_conn_callback_def Acceptor_def sock_op_defs
      SOCKET_ERROR_def sys_open_def Let_def new_sock_def set_opt_def set_fd_def)
  have "acc_poller a = snd (enable_reading ctl ch (set_chan ch ((new_channel sockfd)\<lparr>has_read_callback := True\<rparr>) p))"
    using assms by (simp add: acceptor_listen_def set_new_conn_callback_def Acceptor_def sock_op_defs Let_def)
  then have "channels (acc_poller a) sockfd = Some ch" "events (chan (acc_poller a) ch) = read_event"
    "has_read_callback (chan (acc_poller a) ch)" "kernel (acc_poller a) = snd (ctl CTL_ADD sockfd read_event ch (kernel p))"
    using assms(7) by (simp_all add: enable_reading_def set_events_def update_channel_def new_channel_def index_consts
      poller_update_def set_chan_def set_index_def case_prod_beta Let_def)
  then show ?thesis using sys assms(8)
    by (simp add: acceptor_listen_def set_new_conn_callback_def Let_def)
qed

text \<open>
  Accepting leaks no descriptor: after \<^verbatim>\<open>_handle_read\<close> the open descriptors are those before
  it and the one handed to the callback. When the process has none left, the pending
  connection is taken and closed with the spare descriptor, which is opened again.
\<close>

theorem acceptor_no_leak:
  assumes "acceptor_read errtext r err peer errno r2 devnull a = (call, a')"
    and "fd_table (acc_sys a) (idle_fd a) \<noteq> None" and "r \<ge> - 1"
    and "r \<ge> 0 \<Longrightarrow> fd_table (acc_sys a) r = None"
    and "r2 \<ge> 0 \<Longrightarrow> fd_table (acc_sys a) r2 = None \<or> r2 = idle_fd a"
    and "0 \<le> devnull" and "fd_table (acc_sys a) devnull = None \<or> devnull = idle_fd a"
    and "\<And>d. d < 0 \<Longrightarrow> fd_table (acc_sys a) d = None"
  shows "(if r \<ge> 0 \<and> has_new_conn_callback a
      then call = Some (r, peer) \<and> dom (fd_table (acc_sys a')) = insert r (dom (fd_table (acc_sys a)))
      else call = None \<and>
        dom (fd_table (acc_sys a')) = (if r < 0 \<and> errno = EMFILE then insert devnull (dom (fd_table (acc_sys a)) - {idle_fd a})
          else dom (fd_table (acc_sys a)))) \<and>
    fd_table (acc_sys a') (idle_fd a') \<noteq> None"
  using acceptor_read_fds [OF assms] .

theorem acceptor_no_leak_witness:
  "dom (fd_table (acc_sys (snd (acceptor_read ''Bad file descriptor'' (- 1) EMFILE zero_addr EMFILE 4 4
     (set_new_conn_callback (Acceptor 3 4 0 0 0 zero_addr True \<lparr>fd_table = Map.empty, sock_logs = []\<rparr>
       (EpollPoller (\<lambda>_. new_channel 0) ()))))))) = {3, 4}"
proof -
  let ?a = "set_new_conn_callback (Acceptor 3 4 0 0 0 zero_addr True \<lparr>fd_table = Map.empty, sock_logs = []\<rparr>
       (EpollPoller (\<lambda>_. new_channel 0) ()))"
  have t: "idle_fd ?a = 4" "dom (fd_table (acc_sys ?a)) = {3, 4}"
    by (auto simp: set_new_conn_callback_def Acceptor_def sock_op_defs SOCKET_ERROR_def sys_open_def Let_def)
  then have "fd_table (acc_sys ?a) (idle_fd ?a) \<noteq> None" by auto
  moreover have "fd_table (acc_sys ?a) d = None" if "d < 0" for d
  proof -
    have "d \<notin> dom (fd_table (acc_sys ?a))" using t(2) that by auto
    then show ?thesis by blast
  qed
  ultimately show ?thesis
    using acceptor_no_leak [of "''Bad file descriptor''" "- 1" EMFILE zero_addr EMFILE 4 4 ?a
      "fst (acceptor_read ''Bad file descriptor'' (- 1) EMFILE zero_addr EMFILE 4 4 ?a)"
      "snd (acceptor_read ''Bad file descriptor'' (- 1) EMFILE zero_addr EMFILE 4 4 ?a)"] t by auto
qed

theorem acceptor_listens_witness:
  "listening (acceptor_listen (\<lambda>op f ev c k. (True, k)) 0 (set_new_conn_callback (Acceptor 3 4 0 0 0 zero_addr True
     \<lparr>fd_table = Map.empty, sock_logs = []\<rparr> (EpollPoller (\<lambda>_. new_channel 0) ()))))"
  using acceptor_listens [of 3 4 0 0 0 "EpollPoller (\<lambda>_. new_channel 0) ()" _ "\<lambda>op f ev c k. (True, k)" 0 zero_addr True
      "\<lparr>fd_table = Map.empty, sock_logs = []\<rparr>"] by (simp add: EpollPoller_def)

text \<open>
  A destroyed acceptor leaves the poller, closes its two descriptors and touches no other
  channel or descriptor.
\<close>

theorem acceptor_destroy_releases:
  assumes "reg_ok (acc_poller a)" and "fd_table (acc_sys a) (accept_socket a) \<noteq> None" and "idle_fd a \<noteq> accept_socket a"
    and "a' = acceptor_destroy ctl errtext a"
  shows "dom (fd_table (acc_sys a')) = dom (fd_table (acc_sys a)) - {accept_socket a, idle_fd a} \<and>
    \<not> has_channel (accept_channel a) (acc_poller a') \<and>
    (\<forall>b. b \<noteq> accept_channel a \<longrightarrow> has_channel b (acc_poller a') = has_channel b (acc_poller a))"
proof -
  have "dom (fd_table (acc_sys a')) = dom (fd_table (acc_sys a)) - {accept_socket a, idle_fd a}"
    using assms(2-4) by (auto simp: acceptor_destroy_def Socket_destroy_def socks_close_def sys_close_def Let_def)
  moreover have "acc_poller a' = channel_remove ctl (accept_channel a) (snd (disable_all ctl (accept_channel a) (acc_poller a)))"
    by (simp add: assms(4) acceptor_destroy_def Let_def)
  ultimately show ?thesis using unregistered [OF assms(1)] by simp
qed

end
