(* ===== verification/Thread_Pool.thy ===== *)
theory Thread_Pool
  imports Talko_Prelude "HOL-Library.Multiset"
begin

text \<open>
  \<^verbatim>\<open>WhispThreadPool\<close> of \<^verbatim>\<open>service/whisp_thread_pool.{h,cpp}\<close>: worker threads that take tasks
  from a shared queue. The worker's loop is a step relation: taking a task and leaving are
  what a worker does under the mutex, a wait on the condition variable is a step that is not
  possible yet. Tasks are values of an arbitrary type; running one may throw, which the
  wrapper that \<^verbatim>\<open>enqueue\<close> builds catches. The lists \<open>submitted\<close>, \<open>begun\<close> and \<open>executed\<close>
  are history variables.
\<close>

section \<open>State and operations\<close>

datatype 't worker = Waiting | Running 't | Exited

record 't thread_pool =
  workers :: "'t worker list"
  tasks :: "'t list"
  stop :: bool
  submitted :: "'t list"
  begun :: "'t list"
  executed :: "'t list"

definition WhispThreadPool :: "nat \<Rightarrow> 't thread_pool" where
  "WhispThreadPool num_threads =
     \<lparr>workers = replicate num_threads Waiting, tasks = [], stop = False, submitted = [], begun = [], executed = []\<rparr>"

text \<open>\<open>None\<close>: the exception of a stopped pool.\<close>

definition enqueue_task :: "'t \<Rightarrow> 't thread_pool \<Rightarrow> 't thread_pool option" where
  "enqueue_task t p =
     (if stop p then None else Some (p\<lparr>tasks := tasks p @ [t], submitted := submitted p @ [t]\<rparr>))"

text \<open>The critical section of a worker: leave, or take the first task.\<close>

definition worker_next :: "'t thread_pool \<Rightarrow> ('t worker \<times> 't thread_pool) option" where
  "worker_next p =
     (if stop p \<or> tasks p \<noteq> [] then
        (case tasks p of
           [] \<Rightarrow> Some (Exited, p)
         | t # ts \<Rightarrow> Some (Running t, p\<lparr>tasks := ts, begun := begun p @ [t]\<rparr>))
      else None)"

text \<open>The destructor before it waits for the threads.\<close>

definition stop_pool :: "'t thread_pool \<Rightarrow> 't thread_pool" where
  "stop_pool p = p\<lparr>stop := True\<rparr>"

text \<open>The wait of the destructor: it goes on when every thread has ended.\<close>

definition pool_joined :: "'t thread_pool \<Rightarrow> bool" where
  "pool_joined p \<longleftrightarrow> list_all (\<lambda>w. w = Exited) (workers p)"

text \<open>
  \<^verbatim>\<open>resize\<close>; in the shrinking case after it has waited for the first threads. The threads
  cut off at the end are destroyed, which terminates the program when one of them has not
  been waited for: the result \<open>None\<close>.
\<close>

definition resize_pool :: "nat \<Rightarrow> 't thread_pool \<Rightarrow> 't thread_pool option" where
  "resize_pool num_threads p =
     (let n = length (workers p)
      in if num_threads < n then
           (if \<exists>i \<in> {num_threads..<n}. \<not> i < n - num_threads then None
            else Some (p\<lparr>workers := take num_threads (workers p), stop := False\<rparr>))
         else if num_threads > n then
           Some (p\<lparr>workers := workers p @ replicate (num_threads - n) Waiting\<rparr>)
         else Some p)"

inductive pool_step :: "'t thread_pool \<Rightarrow> 't thread_pool \<Rightarrow> bool" where
  submit: "enqueue_task t p = Some p' \<Longrightarrow> pool_step p p'"
| wake: "i < length (workers p) \<Longrightarrow> workers p ! i = Waiting \<Longrightarrow> worker_next p = Some (w, p') \<Longrightarrow>
    pool_step p (p'\<lparr>workers := (workers p')[i := w]\<rparr>)"
| run: "i < length (workers p) \<Longrightarrow> workers p ! i = Running t \<Longrightarrow>
    pool_step p (p\<lparr>workers := (workers p)[i := Waiting], executed := executed p @ [t]\<rparr>)"
| grow: "length (workers p) \<le> n \<Longrightarrow> resize_pool n p = Some p' \<Longrightarrow> pool_step p p'"
| destroy: "pool_step p (stop_pool p)"

text \<open>The steps of the workers alone, as they remain once nobody submits or resizes.\<close>

inductive worker_step :: "'t thread_pool \<Rightarrow> 't thread_pool \<Rightarrow> bool" where
  take: "i < length (workers p) \<Longrightarrow> workers p ! i = Waiting \<Longrightarrow> worker_next p = Some (w, p') \<Longrightarrow>
    worker_step p (p'\<lparr>workers := (workers p')[i := w]\<rparr>)"
| finish: "i < length (workers p) \<Longrightarrow> workers p ! i = Running t \<Longrightarrow>
    worker_step p (p\<lparr>workers := (workers p)[i := Waiting], executed := executed p @ [t]\<rparr>)"

inductive pool_reachable :: "nat \<Rightarrow> 't thread_pool \<Rightarrow> bool" for n where
  new: "pool_reachable n (WhispThreadPool n)"
| step: "pool_reachable n p \<Longrightarrow> pool_step p p' \<Longrightarrow> pool_reachable n p'"

section \<open>Invariant\<close>

definition running :: "'t worker list \<Rightarrow> 't list" where
  "running ws = concat (map (\<lambda>w. case w of Running t \<Rightarrow> [t] | _ \<Rightarrow> []) ws)"

lemma mset_running_update:
  "i < length ws \<Longrightarrow> mset (running (ws[i := w])) + mset (running [ws ! i]) = mset (running ws) + mset (running [w])"
proof (induction ws arbitrary: i)
  case (Cons v ws)
  then show ?case by (cases i) (auto simp: running_def)
qed simp

lemma running_replicate [simp]: "running (ws @ replicate k Waiting) = running ws" "running (replicate k Waiting) = []"
  by (induction k) (simp_all add: running_def)

definition pool_inv :: "'t thread_pool \<Rightarrow> bool" where
  "pool_inv p \<longleftrightarrow>
     submitted p = begun p @ tasks p \<and> mset (begun p) = mset (executed p) + mset (running (workers p)) \<and>
     (Exited \<in> set (workers p) \<longrightarrow> stop p \<and> tasks p = [])"

lemma exited_update: "Exited \<in> set (ws[i := v]) \<Longrightarrow> v \<noteq> Exited \<Longrightarrow> Exited \<in> set ws"
  using set_update_subset_insert [of ws i v] by auto

lemma pool_step_inv: "pool_step p p' \<Longrightarrow> pool_inv p \<Longrightarrow> pool_inv p'"
proof (induction rule: pool_step.induct)
  case (submit t p p')
  then show ?case by (auto simp: enqueue_task_def pool_inv_def split: if_splits)
next
  case (wake i p w p')
  show ?case
  proof (cases "tasks p")
    case Nil
    then have "w = Exited" "p' = p" "stop p" using wake(3) by (auto simp: worker_next_def split: if_splits)
    then show ?thesis using wake Nil mset_running_update [OF wake(1), of Exited]
      by (auto simp: pool_inv_def running_def)
  next
    case (Cons t ts)
    then have "w = Running t" "p' = p\<lparr>tasks := ts, begun := begun p @ [t]\<rparr>"
      using wake(3) by (auto simp: worker_next_def split: if_splits)
    then show ?thesis using wake Cons mset_running_update [OF wake(1), of "Running t"] exited_update [of "workers p" i "Running t"]
      by (auto simp: pool_inv_def running_def)
  qed
next
  case (run i p t)
  then show ?case using mset_running_update [OF run(1), of Waiting] exited_update [of "workers p" i Waiting]
    by (auto simp: pool_inv_def running_def)
next
  case (grow p n p')
  then show ?case by (auto simp: resize_pool_def pool_inv_def Let_def split: if_splits)
next
  case (destroy p)
  then show ?case by (simp add: stop_pool_def pool_inv_def)
qed

lemma pool_reachable_inv: "pool_reachable n p \<Longrightarrow> pool_inv p"
proof (induction rule: pool_reachable.induct)
  case new
  then show ?case by (simp add: pool_inv_def WhispThreadPool_def)
next
  case step
  then show ?case using pool_step_inv by blast
qed

lemma running_all_exited: "set ws \<subseteq> {Exited} \<Longrightarrow> running ws = []"
  by (induction ws) (simp_all add: running_def)

section \<open>Shutting down\<close>

lemma worker_step_pool: "worker_step p q \<Longrightarrow> pool_step p q"
  by (induction rule: worker_step.induct) (auto intro: pool_step.wake pool_step.run)

fun weight :: "'t worker \<Rightarrow> nat" where
  "weight Exited = 0" | "weight Waiting = 1" | "weight (Running t) = 2"

definition work_left :: "'t thread_pool \<Rightarrow> nat" where
  "work_left p = 3 * length (tasks p) + sum_list (map weight (workers p))"

lemma weight_update:
  "i < length ws \<Longrightarrow> sum_list (map weight (ws[i := w])) + weight (ws ! i) = sum_list (map weight ws) + weight w"
proof (induction ws arbitrary: i)
  case (Cons v ws)
  then show ?case by (cases i) fastforce+
qed simp

lemma worker_step_shrinks:
  assumes "worker_step p q"
  shows "work_left q < work_left p \<and> stop q = stop p \<and> submitted q = submitted p \<and> length (workers q) = length (workers p)"
  using assms
proof cases
  case (take i w p')
  then have "tasks p = [] \<and> w = Exited \<and> p' = p \<or>
      (\<exists>t ts. tasks p = t # ts \<and> w = Running t \<and> p' = p\<lparr>tasks := ts, begun := begun p @ [t]\<rparr>)"
    by (auto simp: worker_next_def split: list.splits if_splits)
  then show ?thesis using take weight_update [OF take(2), of w] by (auto simp: work_left_def)
next
  case (finish i t)
  then show ?thesis using weight_update [OF finish(2), of Waiting] by (simp add: work_left_def)
qed

lemma worker_steps_bound:
  "(worker_step ^^ k) p q \<Longrightarrow> work_left q + k \<le> work_left p \<and> stop q = stop p \<and> submitted q = submitted p \<and>
     length (workers q) = length (workers p)"
proof (induction k arbitrary: q)
  case (Suc k)
  then obtain r where "(worker_step ^^ k) p r" "worker_step r q" by auto
  then show ?case using Suc.IH worker_step_shrinks by fastforce
qed simp

lemma weight_sum_le: "sum_list (map weight ws) \<le> 2 * length ws"
proof (induction ws)
  case (Cons w ws)
  then show ?case by (cases w) simp_all
qed simp

lemma stopped_progress:
  assumes "stop q" and "\<not> pool_joined q"
  shows "\<exists>r. worker_step q r"
proof -
  obtain i where i: "i < length (workers q)" "workers q ! i \<noteq> Exited"
    using assms(2) by (auto simp: pool_joined_def list_all_length)
  show ?thesis
  proof (cases "workers q ! i")
    case Waiting
    obtain w q' where "worker_next q = Some (w, q')"
      using assms(1) by (cases "tasks q") (auto simp: worker_next_def)
    then show ?thesis using worker_step.take [OF i(1) Waiting] by blast
  next
    case (Running t)
    then show ?thesis using worker_step.finish [OF i(1) Running] by blast
  qed (use i in simp)
qed

lemma joined_final: "pool_joined q \<Longrightarrow> \<not> worker_step q r"
  by (auto simp: pool_joined_def list_all_length elim: worker_step.cases)

section \<open>Properties\<close>

text \<open>
  C17: tasks are begun in the order they were submitted, each once; what has been begun is
  finished or running in exactly one worker; and when the destructor has waited for all the
  threads of a pool that has any, every task ever submitted has been executed exactly once.
\<close>

theorem pool_runs_every_task:
  assumes "pool_reachable n p"
  shows "submitted p = begun p @ tasks p \<and> mset (begun p) = mset (executed p) + mset (running (workers p)) \<and>
    (workers p \<noteq> [] \<and> set (workers p) \<subseteq> {Exited} \<longrightarrow> tasks p = [] \<and> mset (executed p) = mset (submitted p))"
proof -
  have inv: "pool_inv p" using pool_reachable_inv [OF assms] .
  have "tasks p = [] \<and> mset (executed p) = mset (submitted p)" if "workers p \<noteq> []" "set (workers p) \<subseteq> {Exited}"
  proof -
    have "Exited \<in> set (workers p)" using that by (cases "workers p") auto
    then show ?thesis using inv running_all_exited [OF that(2)] by (simp add: pool_inv_def)
  qed
  then show ?thesis using inv by (auto simp: pool_inv_def)
qed

text \<open>One worker that has run one task and left.\<close>

definition demo_pool :: "nat worker list \<Rightarrow> nat list \<Rightarrow> bool \<Rightarrow> nat list \<Rightarrow> nat list \<Rightarrow> nat thread_pool" where
  "demo_pool ws ts st bg ex = \<lparr>workers = ws, tasks = ts, stop = st, submitted = [7], begun = bg, executed = ex\<rparr>"

lemma demo_pool_waiting: "pool_reachable 1 (demo_pool [Waiting] [] False [7] [7])"
proof -
  have 0: "pool_step (WhispThreadPool 1) (demo_pool [Waiting] [7] False [] [])"
    by (rule pool_step.submit [of 7]) (simp add: enqueue_task_def WhispThreadPool_def demo_pool_def)
  have 1: "pool_step (demo_pool [Waiting] [7] False [] []) (demo_pool [Running 7] [] False [7] [])"
    using pool_step.wake [of 0 "demo_pool [Waiting] [7] False [] []" "Running 7"]
    by (simp add: demo_pool_def worker_next_def)
  have 2: "pool_step (demo_pool [Running 7] [] False [7] []) (demo_pool [Waiting] [] False [7] [7])"
    using pool_step.run [of 0 "demo_pool [Running 7] [] False [7] []" 7] by (simp add: demo_pool_def)
  show ?thesis using pool_reachable.new 0 1 2 by (metis pool_reachable.step)
qed

lemma demo_pool_reachable: "pool_reachable 1 (demo_pool [Exited] [] True [7] [7])"
proof -
  have 3: "pool_step (demo_pool [Waiting] [] False [7] [7]) (demo_pool [Waiting] [] True [7] [7])"
    using pool_step.destroy [of "demo_pool [Waiting] [] False [7] [7]"] by (simp add: demo_pool_def stop_pool_def)
  have 4: "pool_step (demo_pool [Waiting] [] True [7] [7]) (demo_pool [Exited] [] True [7] [7])"
    using pool_step.wake [of 0 "demo_pool [Waiting] [] True [7] [7]" Exited]
    by (simp add: demo_pool_def worker_next_def)
  show ?thesis using demo_pool_waiting 3 4 by (metis pool_reachable.step)
qed

theorem pool_runs_every_task_witness:
  "mset (executed (demo_pool [Exited] [] True [7] [7])) = mset (submitted (demo_pool [Exited] [] True [7] [7]))"
proof -
  have "workers (demo_pool [Exited] [] True [7] [7]) \<noteq> [] \<and> set (workers (demo_pool [Exited] [] True [7] [7])) \<subseteq> {Exited}"
    by (simp add: demo_pool_def)
  then show ?thesis using pool_runs_every_task [OF demo_pool_reachable] by blast
qed



text \<open>Shrinking a pool to a size other than zero terminates the program.\<close>

lemma resize_shrink_terminates:
  assumes "0 < k" and "k < length (workers p)"
  shows "resize_pool k p = None"
proof -
  have "length (workers p) - 1 \<in> {k..<length (workers p)}" "\<not> length (workers p) - 1 < length (workers p) - k"
    using assms by auto
  then show ?thesis using assms(2) unfolding resize_pool_def Let_def by (simp only: if_True if_False) metis
qed

end
