(* ===== verification/Timer_Memory.thy ===== *)
theory Timer_Memory
  imports Timer_Queue
begin

text \<open>
  Who frees the timers: the constructor and destructor of \<^verbatim>\<open>TimerQueue\<close>, and the runs of a
  queue seen as a user of the heap. \<^verbatim>\<open>add_timer\<close> allocates a timer and hands the insertion
  to the loop; only the destructor deletes timers, those the set holds at that moment. A
  configuration is the queue, the queue operations waiting in the loop and the addresses
  that are allocated.
\<close>

section \<open>Definitions\<close>

definition TimerQueue :: "(addr \<Rightarrow> timer) \<Rightarrow> int \<Rightarrow> timer_queue" where
  "TimerQueue st n = \<lparr>store = st, timers = [], created_num = n\<rparr>"

text \<open>The addresses the destructor deletes, in order.\<close>

definition TimerQueue_destroy :: "timer_queue \<Rightarrow> addr list" where
  "TimerQueue_destroy q = map snd (timers q)"

type_synonym timer_conf = "timer_queue \<times> timer_task list \<times> addr set"

inductive timer_step :: "timer_conf \<Rightarrow> timer_conf \<Rightarrow> bool" where
  add_copy: "a \<notin> live \<Longrightarrow> add_timer_copy a cb when intv rep q = (q', task, tid) \<Longrightarrow>
    timer_step (q, ts, live) (q', ts @ [task], insert a live)"
| add_move: "a \<notin> live \<Longrightarrow> add_timer_move a cb when intv rep q = (q', task, tid) \<Longrightarrow>
    timer_step (q, ts, live) (q', ts @ [task], insert a live)"
| remove: "timer_step (q, ts, live) (q, ts @ [remove_timer tid], live)"
| cancel: "timer_step (q, ts, live) (q, ts @ [cancel tid off], live)"
| in_loop: "timer_step (q, t # ts, live) (run_timer_task t q, ts, live)"
| tick: "timer_step (q, ts, live) (fst (do_timer nw q), ts, live)"

inductive timer_reachable :: "timer_conf \<Rightarrow> bool" where
  start: "timer_reachable (TimerQueue st n, [], {})"
| step: "timer_reachable s \<Longrightarrow> timer_step s s' \<Longrightarrow> timer_reachable s'"

section \<open>Lemmas\<close>

definition queued_addrs :: "timer_queue \<Rightarrow> addr set" where
  "queued_addrs q = snd ` set (timers q)"

definition adds :: "timer_task list \<Rightarrow> addr list" where
  "adds ts = List.map_filter (\<lambda>t. case t of AddTimer a \<Rightarrow> Some a | _ \<Rightarrow> None) ts"

lemma adds_simps [simp]:
  "adds [] = []" "adds (AddTimer a # ts) = a # adds ts" "adds (RemoveTimer tid # ts) = adds ts"
  "adds (CancelTimer tid off # ts) = adds ts" "adds (ts @ us) = adds ts @ adds us"
  by (simp_all add: adds_def map_filter_simps) (simp add: map_filter_def)

definition heap_inv :: "timer_conf \<Rightarrow> bool" where
  "heap_inv s \<longleftrightarrow> (case s of (q, ts, live) \<Rightarrow>
     tq_wf q \<and> distinct (adds ts) \<and> set (adds ts) \<inter> queued_addrs q = {} \<and>
     set (adds ts) \<union> queued_addrs q \<subseteq> live)"

lemma add_timers:
  "add_timer_copy a cb when intv rep q = (q', task, tid) \<Longrightarrow> timers q' = timers q \<and> queued_addrs q' = queued_addrs q \<and> task = AddTimer a"
  "add_timer_move a cb when intv rep q = (q', task, tid) \<Longrightarrow> timers q' = timers q \<and> queued_addrs q' = queued_addrs q \<and> task = AddTimer a"
  by (auto simp: queued_addrs_def add_timer_copy_def add_timer_move_def Timer_copy_def Let_def)

lemma run_task_addrs:
  "queued_addrs (run_timer_task (AddTimer a) q) = insert a (queued_addrs q)"
  "queued_addrs (run_timer_task (RemoveTimer tid) q) \<subseteq> queued_addrs q"
  "queued_addrs (run_timer_task (CancelTimer tid off) q) = queued_addrs q"
  using erase_timer_sub(1) [of "id_timer tid" "timers q"]
  by (auto simp: queued_addrs_def add_timer_in_loop_def remove_timer_in_loop_def cancel_timer_in_loop_def insert_timer_def
      set_insort_insert)

declare run_timer_task.simps [simp del]

lemma run_task_subset: "queued_addrs (run_timer_task t q) \<subseteq> set (adds [t]) \<union> queued_addrs q"
  by (cases t) (use run_task_addrs in auto)

lemma adds_Cons: "adds (t # ts) = adds [t] @ adds ts"
  using adds_simps(5) [of "[t]" ts] by simp

lemma moved_set:
  fixes A B Q Q' live :: "addr set"
  assumes "A \<inter> B = {}" and "(A \<union> B) \<inter> Q = {}" and "A \<union> B \<subseteq> live" and "Q \<subseteq> live" and "Q' \<subseteq> A \<union> Q"
  shows "B \<inter> Q' = {}" and "B \<union> Q' \<subseteq> live"
  using assms by blast+

lemma timer_step_inv:
  assumes "timer_step s s'" and "heap_inv s"
  shows "heap_inv s'"
  using assms
proof cases
  case (in_loop q t ts live)
  have "heap_inv (q, t # ts, live)" using assms(2) in_loop by simp
  then have h: "tq_wf q" "distinct (adds [t] @ adds ts)" "set (adds [t] @ adds ts) \<inter> queued_addrs q = {}"
    "set (adds [t] @ adds ts) \<subseteq> live" "queued_addrs q \<subseteq> live"
    unfolding heap_inv_def prod.case adds_Cons [of t ts, symmetric] by auto
  have "tq_wf (run_timer_task t q)" using h(1,3) by (intro run_timer_task_wf) (auto simp: queued_addrs_def)
  moreover have "distinct (adds ts)" using h(2) by simp
  moreover have "set (adds ts) \<inter> queued_addrs (run_timer_task t q) = {}"
    "set (adds ts) \<union> queued_addrs (run_timer_task t q) \<subseteq> live"
    using moved_set [OF _ h(3,4) [unfolded set_append] h(5) run_task_subset] h(2) by simp_all
  ultimately show ?thesis by (simp add: in_loop(2) heap_inv_def)
next
  case (tick q ts live nw)
  have "queued_addrs (fst (do_timer nw q)) \<subseteq> {} \<union> queued_addrs q" using do_timer_subset [of nw q] by (auto simp: queued_addrs_def)
  from moved_set [OF _ _ _ _ this, of "set (adds ts)" live] show ?thesis
    using assms(2) tick do_timer_wf [of q nw] by (simp add: heap_inv_def)
qed (use assms(2) in \<open>auto simp: heap_inv_def tq_wf_def remove_timer_def cancel_def dest!: add_timers\<close>)

lemma timer_reachable_inv: "timer_reachable s \<Longrightarrow> heap_inv s"
proof (induction rule: timer_reachable.induct)
  case start
  then show ?case by (simp add: heap_inv_def tq_wf_def TimerQueue_def queued_addrs_def)
next
  case step
  then show ?case using timer_step_inv by blast
qed

text \<open>A timer that is allocated, but neither in the set nor on its way into it.\<close>

definition forgotten :: "addr \<Rightarrow> timer_conf \<Rightarrow> bool" where
  "forgotten a s \<longleftrightarrow> (case s of (q, ts, live) \<Rightarrow> a \<in> live \<and> a \<notin> queued_addrs q \<and> a \<notin> set (adds ts))"

lemma timer_step_forgotten:
  assumes "timer_step s s'" and "forgotten a s"
  shows "forgotten a s'"
  using assms
proof cases
  case (in_loop q t ts live)
  moreover have "forgotten a (q, t # ts, live)" using assms(2) in_loop by simp
  ultimately show ?thesis using run_task_subset [of t q] adds_Cons [of t ts] unfolding in_loop(2) forgotten_def
    by auto
next
  case (tick q ts live nw)
  then show ?thesis using assms(2) do_timer_subset [of nw q] by (fastforce simp: forgotten_def queued_addrs_def)
qed (use assms(2) in \<open>auto simp: forgotten_def remove_timer_def cancel_def dest!: add_timers\<close>)

lemma timer_steps_forgotten: "timer_step\<^sup>*\<^sup>* s s' \<Longrightarrow> forgotten a s \<Longrightarrow> forgotten a s'"
  by (induction rule: rtranclp_induct) (auto dest: timer_step_forgotten)

lemma erase_timer_gone: "distinct (map snd es) \<Longrightarrow> a \<notin> snd ` set (erase_timer a es)"
  by (induction es) auto

section \<open>Properties\<close>

text \<open>
  the destructor of a timer queue is safe after every history: it deletes no timer twice
  and none that is not allocated. But it deletes only what the set holds: a timer that was
  removed has left the queue for good, and whatever happens afterwards the destructor does
  not free it.
\<close>

theorem timer_queue_frees:
  assumes "timer_reachable (q, RemoveTimer tid # ts, live)" and "id_timer tid \<in> snd ` set (timers q)"
    and "timer_step\<^sup>*\<^sup>* (run_timer_task (RemoveTimer tid) q, ts, live) (q', ts', live')"
  shows "distinct (TimerQueue_destroy q) \<and> set (TimerQueue_destroy q) \<subseteq> live \<and>
    distinct (TimerQueue_destroy q') \<and> set (TimerQueue_destroy q') \<subseteq> live' \<and>
    id_timer tid \<in> live' \<and> id_timer tid \<notin> set (TimerQueue_destroy q')"
proof -
  have inv: "heap_inv (q, RemoveTimer tid # ts, live)" by (rule timer_reachable_inv [OF assms(1)])
  have "heap_inv s'" if "timer_step\<^sup>*\<^sup>* s s'" "heap_inv s" for s s'
    using that by (induction rule: rtranclp_induct) (auto dest: timer_step_inv)
  then have inv': "heap_inv (q', ts', live')" using assms(3) timer_step_inv [OF timer_step.in_loop inv] by blast
  have "distinct (map snd (timers q))" using inv by (simp add: heap_inv_def tq_wf_def)
  then have "forgotten (id_timer tid) (run_timer_task (RemoveTimer tid) q, ts, live)"
    using inv assms(2) erase_timer_gone [of "timers q" "id_timer tid"]
    by (auto simp: forgotten_def heap_inv_def queued_addrs_def remove_timer_in_loop_def run_timer_task.simps)
  then have "forgotten (id_timer tid) (q', ts', live')" by (rule timer_steps_forgotten [OF assms(3)])
  then show ?thesis using inv inv' by (auto simp: forgotten_def heap_inv_def queued_addrs_def TimerQueue_destroy_def tq_wf_def)
qed

text \<open>One timer, added and then removed.\<close>

theorem timer_queue_frees_witness:
  "\<exists>q live. timer_reachable (q, [], live) \<and> (0::addr) \<in> live \<and> 0 \<notin> set (TimerQueue_destroy q)"
proof -
  let ?tid = "\<lparr>id_timer = 0, id_sequence = 1\<rparr>"
  obtain q0 :: timer_queue where q0: "timer_reachable (q0, [], {})" using timer_reachable.start by blast
  obtain q1 tid where a: "add_timer_copy 0 7 (Timestamp 5) 0 1 q0 = (q1, AddTimer 0, tid)"
    by (simp add: add_timer_copy_def Timer_copy_def Let_def)
  let ?q2 = "run_timer_task (AddTimer 0) q1"
  have "timer_reachable (q1, [AddTimer 0], {0})"
    using timer_reachable.step [OF q0 timer_step.add_copy [OF _ a]] by simp
  then have "timer_reachable (?q2, [], {0})" by (rule timer_reachable.step [OF _ timer_step.in_loop])
  from timer_reachable.step [OF this timer_step.remove [of _ _ _ ?tid]]
  have r: "timer_reachable (?q2, [RemoveTimer ?tid], {0})" by (simp add: remove_timer_def)
  have "id_timer ?tid \<in> snd ` set (timers ?q2)" using run_task_addrs(1) [of 0 q1] by (simp add: queued_addrs_def)
  from timer_queue_frees [OF r this rtranclp.rtrancl_refl]
  have "0 \<notin> set (TimerQueue_destroy (run_timer_task (RemoveTimer ?tid) ?q2))" by simp
  moreover have "timer_reachable (run_timer_task (RemoveTimer ?tid) ?q2, [], {0})"
    by (rule timer_reachable.step [OF r timer_step.in_loop])
  ultimately show ?thesis by blast
qed

end
