(* ===== verification/Singletons.thy ===== *)
theory Singletons
  imports Talko_Prelude
begin

text \<open>
  The two accessors of a single instance: \<^verbatim>\<open>Singleton<T>::Instance\<close> of
  \<^verbatim>\<open>common/singleton.h\<close>, through which the handlers of all loop threads reach the
  \<^verbatim>\<open>UserManager\<close>, and \<^verbatim>\<open>WhispDB::get_instance\<close> of \<^verbatim>\<open>database/whisp_db.h\<close>, which tests the
  pointer before and after taking a mutex. The threads are interleaved at single accesses
  to the pointer and the mutex, each of which is atomic here. An object is its number in the
  order of creation; \<open>results\<close> records what each thread's call returned.
\<close>

section \<open>State\<close>

type_synonym thread = nat

datatype access_pc = Outside | Test | Acquire | Retest | New | Release | Return | Returned

record accessor =
  value_ptr :: "nat option"
  created :: nat
  owner :: "thread option"
  pc :: "thread \<Rightarrow> access_pc"
  results :: "thread \<Rightarrow> nat option"

definition fresh_accessor :: accessor where
  "fresh_accessor = \<lparr>value_ptr = None, created = 0, owner = None, pc = (\<lambda>_. Outside), results = (\<lambda>_. None)\<rparr>"

definition goto :: "thread \<Rightarrow> access_pc \<Rightarrow> accessor \<Rightarrow> accessor" where
  "goto t p s = s\<lparr>pc := (pc s)(t := p)\<rparr>"

definition new_object :: "accessor \<Rightarrow> accessor" where
  "new_object s = s\<lparr>value_ptr := Some (created s), created := created s + 1\<rparr>"

definition give_result :: "thread \<Rightarrow> accessor \<Rightarrow> accessor" where
  "give_result t s = s\<lparr>results := (results s)(t := value_ptr s)\<rparr>"

section \<open>The accessors\<close>

text \<open>One access of a thread inside \<^verbatim>\<open>Instance()\<close>; \<^const>\<open>None\<close> when the thread is not in a call.\<close>

definition Instance_step :: "thread \<Rightarrow> accessor \<Rightarrow> accessor option" where
  "Instance_step t s =
     (case pc s t of
        Test \<Rightarrow> Some (goto t (if value_ptr s = None then New else Return) s)
      | New \<Rightarrow> Some (goto t Return (new_object s))
      | Return \<Rightarrow> Some (goto t Returned (give_result t s))
      | _ \<Rightarrow> None)"

text \<open>One access of a thread inside \<^verbatim>\<open>get_instance()\<close>; a thread that waits for the mutex has none.\<close>

definition get_instance_step :: "thread \<Rightarrow> accessor \<Rightarrow> accessor option" where
  "get_instance_step t s =
     (case pc s t of
        Test \<Rightarrow> Some (goto t (if value_ptr s = None then Acquire else Return) s)
      | Acquire \<Rightarrow> (if owner s = None then Some (goto t Retest (s\<lparr>owner := Some t\<rparr>)) else None)
      | Retest \<Rightarrow> Some (goto t (if value_ptr s = None then New else Release) s)
      | New \<Rightarrow> Some (goto t Release (new_object s))
      | Release \<Rightarrow> Some (goto t Return (s\<lparr>owner := None\<rparr>))
      | Return \<Rightarrow> Some (goto t Returned (give_result t s))
      | _ \<Rightarrow> None)"

definition enter_call :: "thread \<Rightarrow> accessor \<Rightarrow> accessor" where
  "enter_call t s = goto t Test s"

inductive access_step :: "(thread \<Rightarrow> accessor \<Rightarrow> accessor option) \<Rightarrow> accessor \<Rightarrow> accessor \<Rightarrow> bool" for f where
  enter: "pc s t = Outside \<or> pc s t = Returned \<Longrightarrow> access_step f s (enter_call t s)"
| access: "f t s = Some s' \<Longrightarrow> access_step f s s'"

inductive access_reachable :: "(thread \<Rightarrow> accessor \<Rightarrow> accessor option) \<Rightarrow> accessor \<Rightarrow> bool" for f where
  start: "access_reachable f fresh_accessor"
| step: "access_reachable f s \<Longrightarrow> access_step f s s' \<Longrightarrow> access_reachable f s'"

text \<open>A schedule: the threads in the order of their accesses, each entering its call first.\<close>

fun run_schedule :: "(thread \<Rightarrow> accessor \<Rightarrow> accessor option) \<Rightarrow> thread list \<Rightarrow> accessor \<Rightarrow> accessor option" where
  "run_schedule f [] s = Some s"
| "run_schedule f (t # ts) s =
     (if pc s t = Outside then run_schedule f ts (enter_call t s)
      else case f t s of None \<Rightarrow> None | Some s' \<Rightarrow> run_schedule f ts s')"

section \<open>The invariant of the double-checked accessor\<close>

definition once_inv :: "accessor \<Rightarrow> bool" where
  "once_inv s \<longleftrightarrow>
     (value_ptr s, created s) \<in> {(None, 0), (Some 0, 1)} \<and>
     (\<forall>t. pc s t \<in> {Retest, New, Release} \<longleftrightarrow> owner s = Some t) \<and>
     (\<forall>t. pc s t = New \<longrightarrow> value_ptr s = None) \<and>
     (\<forall>t. pc s t \<in> {Release, Return, Returned} \<longrightarrow> value_ptr s = Some 0) \<and>
     (\<forall>t. results s t \<in> {None, Some 0}) \<and> (\<forall>t. pc s t = Returned \<longrightarrow> results s t = Some 0)"

lemmas access_defs = goto_def new_object_def give_result_def enter_call_def

lemma once_inv_init: "once_inv fresh_accessor"
  by (simp add: once_inv_def fresh_accessor_def)

lemma once_inv_owner: "once_inv s \<Longrightarrow> owner s = Some t \<longleftrightarrow> pc s t \<in> {Retest, New, Release}"
  unfolding once_inv_def by blast

lemma once_inv_enter:
  assumes "once_inv s" and "pc s t = Outside \<or> pc s t = Returned"
  shows "once_inv (enter_call t s)"
proof -
  have "owner s \<noteq> Some t" using once_inv_owner [OF assms(1), of t] assms(2) by auto
  then show ?thesis using assms(1) unfolding once_inv_def by (auto simp: access_defs)
qed

lemma once_inv_access:
  assumes "once_inv s" and "get_instance_step t s = Some s'"
  shows "once_inv s'"
proof (cases "pc s t")
  case New
  then have "owner s = Some t" "value_ptr s = None" using assms(1) by (auto simp: once_inv_def)
  then have "pc s u \<notin> {Retest, New, Release}" if "u \<noteq> t" for u using assms(1) that unfolding once_inv_def by auto
  moreover have "created s = 0" using assms(1) \<open>value_ptr s = None\<close> by (simp add: once_inv_def)
  moreover have "pc s u \<noteq> Return" "pc s u \<noteq> Returned" for u
    using assms(1) \<open>value_ptr s = None\<close> by (auto simp: once_inv_def)
  ultimately show ?thesis using assms New unfolding once_inv_def
    by (auto simp: get_instance_step_def access_defs split: if_splits)
qed (use assms once_inv_owner [OF assms(1), of t] in
    \<open>auto simp: once_inv_def get_instance_step_def access_defs split: if_splits\<close>)

lemma get_instance_inv: "access_reachable get_instance_step s \<Longrightarrow> once_inv s"
proof (induction rule: access_reachable.induct)
  case (step s s')
  from step.hyps(2) show ?case
    by cases (use step.IH once_inv_enter once_inv_access in blast)+
qed (rule once_inv_init)

lemma mutex_progress:
  assumes "once_inv s" and "pc s t \<notin> {Outside, Returned}"
  shows "(\<exists>s'. get_instance_step t s = Some s') \<or>
    (pc s t = Acquire \<and> (\<exists>u s'. owner s = Some u \<and> get_instance_step u s = Some s'))"
proof (cases "get_instance_step t s")
  case None
  then have a: "pc s t = Acquire" "owner s \<noteq> None"
    using assms(2) by (auto simp: get_instance_step_def split: access_pc.splits if_splits)
  then obtain u where u: "owner s = Some u" by blast
  then have "pc s u \<in> {Retest, New, Release}" using assms(1) by (auto simp: once_inv_def)
  then show ?thesis using a u by (auto simp: get_instance_step_def)
qed blast

section \<open>Properties\<close>


lemma schedule_reachable:
  "run_schedule f ts s = Some s' \<Longrightarrow> access_reachable f s \<Longrightarrow> access_reachable f s'"
proof (induction ts arbitrary: s)
  case (Cons t ts)
  show ?case
  proof (cases "pc s t = Outside")
    case True
    then have "access_reachable f (enter_call t s)"
      using Cons.prems(2) access_reachable.step access_step.enter by metis
    then show ?thesis using Cons True by simp
  next
    case False
    then obtain s1 where "f t s = Some s1" "run_schedule f ts s1 = Some s'"
      using Cons.prems(1) by (auto split: option.splits)
    then show ?thesis using Cons.IH Cons.prems(2) access_reachable.step access_step.access by metis
  qed
qed simp

definition both_tested :: "thread list" where
  "both_tested = [0, 1, 0, 1, 0, 0, 0, 0, 1, 1, 1, 0]"


text \<open>
  without the mutex two objects can be created and used: when two threads test the pointer
  before either has set it, each creates an object, and the two calls return different ones.
\<close>

theorem Instance_races:
  "\<exists>s. access_reachable Instance_step s \<and> created s = 2 \<and>
     pc s 0 = Returned \<and> pc s 1 = Returned \<and> results s 0 = Some 0 \<and> results s 1 = Some 1"
proof -
  obtain s where s: "run_schedule Instance_step [0, 1, 0, 1, 0, 0, 1, 1] fresh_accessor = Some s"
    "created s = 2" "pc s 0 = Returned" "pc s 1 = Returned" "results s 0 = Some 0" "results s 1 = Some 1"
    by (simp add: fresh_accessor_def Instance_step_def access_defs)
  then show ?thesis using schedule_reachable [OF s(1) access_reachable.start] by blast
qed

end
