(* ===== verification/User_Dao.thy ===== *)
theory User_Dao
  imports Timestamp
begin

text \<open>
  The access to the table of users: \<^verbatim>\<open>UserInfo\<close> and \<^verbatim>\<open>WhispUserDAO\<close> of
  \<^verbatim>\<open>database/db_user_info.{h,cpp}\<close>, and \<^verbatim>\<open>get_user_info\<close> of \<^verbatim>\<open>database/whisp_db.cpp\<close>.

  The MySQL client is not part of the program. A session is a value of type \<open>'c\<close>; \<open>exec\<close> runs
  a statement in a session on the state \<open>'d\<close> of the server and gives a row or the text of a
  \<^verbatim>\<open>mysqlx::Error\<close>; \<open>row_int\<close> and \<open>row_str\<close> read a column of a row and may fail the same
  way. What the proofs need of them is the predicate \<open>user_table\<close>.
\<close>

section \<open>Operations\<close>

record UserInfo =
  ui_id :: int
  ui_username :: string
  ui_password_hash :: string
  ui_nickname :: string
  ui_avatar_url :: string
  ui_gender :: string
  ui_birthday :: string
  ui_phone_number :: string
  ui_email :: string
  ui_region :: string
  ui_status :: string
  ui_last_login_time :: string
  ui_create_time :: string
  ui_update_time :: string

text \<open>The statements the object builds, with the schema and the table they are sent to.\<close>

datatype user_sql =
    InsertRow "string list" "string list"
  | SelectById int
  | UpdateById "(string \<times> string) list" int
  | RemoveById int

record sql_target =
  sql_schema :: string
  sql_table :: string

type_synonym ('c, 'd, 'r) sql_exec = "'c \<Rightarrow> sql_target \<Rightarrow> user_sql \<Rightarrow> 'd \<Rightarrow> (string + 'r option) \<times> 'd"

datatype dao_log = DaoWarn string | DaoDebug string | DaoInfo string | DaoError string

record 'c user_dao =
  default_conn :: "'c option"
  default_schema :: string
  default_table :: string

definition WhispUserDAO :: "'c option \<Rightarrow> string \<Rightarrow> string \<Rightarrow> 'c user_dao" where
  "WhispUserDAO conn schema tab = \<lparr>default_conn = conn, default_schema = schema, default_table = tab\<rparr>"

definition ResolveParams :: "'c option \<Rightarrow> string \<Rightarrow> string \<Rightarrow> 'c user_dao \<Rightarrow> 'c option \<times> string \<times> string" where
  "ResolveParams conn_override schema_override table_override dao =
     ((if conn_override \<noteq> None then conn_override else default_conn dao),
      (if schema_override \<noteq> [] then schema_override else default_schema dao),
      (if table_override \<noteq> [] then table_override else default_table dao))"

definition HandleError :: "string \<Rightarrow> string \<Rightarrow> dao_log list" where
  "HandleError message e = [DaoError (message @ e)]"

text \<open>The current time as \<^verbatim>\<open>put_time\<close> prints it; \<open>now_c\<close> is what \<^verbatim>\<open>std::localtime\<close> gives for it.\<close>

definition GetCurrentDateTime :: "tm \<Rightarrow> string" where
  "GetCurrentDateTime now_c =
     zero_pad 4 (tm_year now_c + 1900) @ ''-'' @ zero_pad 2 (tm_mon now_c + 1) @ ''-'' @ zero_pad 2 (tm_mday now_c) @
     '' '' @ zero_pad 2 (tm_hour now_c) @ '':'' @ zero_pad 2 (tm_min now_c) @ '':'' @ zero_pad 2 (tm_sec now_c)"

definition InsertUser ::
  "('c, 'd, 'r) sql_exec \<Rightarrow> tm \<Rightarrow> UserInfo \<Rightarrow> 'c option \<Rightarrow> string \<Rightarrow> string \<Rightarrow> 'c user_dao \<Rightarrow> 'd \<Rightarrow> bool \<times> dao_log list \<times> 'd" where
  "InsertUser exec now_c user conn_override schema_override table_override dao db =
     (case ResolveParams conn_override schema_override table_override dao of
        (conn, schema, tab) \<Rightarrow>
          if conn = None \<or> schema = [] \<or> tab = [] then (False, [DaoWarn ''Invalid database parameters''], db)
          else
            (case exec (the conn) \<lparr>sql_schema = schema, sql_table = tab\<rparr>
                 (InsertRow
                    [''username'', ''password_hash'', ''nickname'', ''avatar_url'', ''gender'', ''birthday'',
                     ''phone_number'', ''email'', ''region'', ''status'', ''last_login_time'']
                    [ui_username user, ui_password_hash user, ui_nickname user, ui_avatar_url user, ui_gender user,
                     ui_birthday user, ui_phone_number user, ui_email user, ui_region user, ui_status user, GetCurrentDateTime now_c]) db of
               (Inl e, db1) \<Rightarrow> (False, HandleError ''Insert failed: '' e, db1)
             | (Inr _, db1) \<Rightarrow> (True, [DaoDebug (''Inserted user: '' @ ui_username user)], db1)))"

text \<open>Columns are read in order; the first that cannot be read ends it, with the error logged and passed on.\<close>

fun read_columns :: "('r \<Rightarrow> nat \<Rightarrow> string + string) \<Rightarrow> 'r \<Rightarrow> nat list \<Rightarrow> string + string list" where
  "read_columns row_str row [] = Inr []"
| "read_columns row_str row (i # is) =
     (case row_str row i of
        Inl e \<Rightarrow> Inl e
      | Inr v \<Rightarrow> (case read_columns row_str row is of Inl e \<Rightarrow> Inl e | Inr vs \<Rightarrow> Inr (v # vs)))"

definition ParseUser ::
  "('r \<Rightarrow> nat \<Rightarrow> string + int) \<Rightarrow> ('r \<Rightarrow> nat \<Rightarrow> string + string) \<Rightarrow> 'r \<Rightarrow> (string + UserInfo) \<times> dao_log list" where
  "ParseUser row_int row_str row =
     (case row_int row 0 of
        Inl e \<Rightarrow> (Inl e, HandleError ''Parse user failed: '' e)
      | Inr i \<Rightarrow>
          (case read_columns row_str row [1, 2, 3, 4, 5, 6, 7, 8, 9, 10, 11, 12, 13] of
             Inl e \<Rightarrow> (Inl e, HandleError ''Parse user failed: '' e)
           | Inr vs \<Rightarrow>
               (Inr \<lparr>ui_id = i, ui_username = vs ! 0, ui_password_hash = vs ! 1, ui_nickname = vs ! 2,
                     ui_avatar_url = vs ! 3, ui_gender = vs ! 4, ui_birthday = vs ! 5, ui_phone_number = vs ! 6,
                     ui_email = vs ! 7, ui_region = vs ! 8, ui_status = vs ! 9, ui_last_login_time = vs ! 10,
                     ui_create_time = vs ! 11, ui_update_time = vs ! 12\<rparr>, [])))"

definition GetUserById ::
  "('c, 'd, 'r) sql_exec \<Rightarrow> ('r \<Rightarrow> nat \<Rightarrow> string + int) \<Rightarrow> ('r \<Rightarrow> nat \<Rightarrow> string + string) \<Rightarrow> int \<Rightarrow> 'c option \<Rightarrow>
   string \<Rightarrow> string \<Rightarrow> 'c user_dao \<Rightarrow> 'd \<Rightarrow> UserInfo option \<times> dao_log list \<times> 'd" where
  "GetUserById exec row_int row_str user_id conn_override schema_override table_override dao db =
     (case ResolveParams conn_override schema_override table_override dao of
        (conn, schema, tab) \<Rightarrow>
          if conn = None \<or> schema = [] \<or> tab = [] then (None, [DaoWarn ''Invalid database parameters''], db)
          else
            (case exec (the conn) \<lparr>sql_schema = schema, sql_table = tab\<rparr> (SelectById user_id) db of
               (Inl e, db1) \<Rightarrow> (None, HandleError ''Query failed: '' e, db1)
             | (Inr None, db1) \<Rightarrow> (None, [], db1)
             | (Inr (Some row), db1) \<Rightarrow>
                 (case ParseUser row_int row_str row of
                    (Inl e, logs) \<Rightarrow> (None, logs @ HandleError ''Query failed: '' e, db1)
                  | (Inr user, logs) \<Rightarrow> (Some user, logs, db1))))"

text \<open>\<^verbatim>\<open>UpdateUser\<close> and \<^verbatim>\<open>DeleteUser\<close> do not call \<^verbatim>\<open>ResolveParams\<close>: they use their arguments only.\<close>

definition UpdateUser ::
  "('c, 'd, 'r) sql_exec \<Rightarrow> UserInfo \<Rightarrow> 'c option \<Rightarrow> string \<Rightarrow> string \<Rightarrow> 'c user_dao \<Rightarrow> 'd \<Rightarrow> bool \<times> dao_log list \<times> 'd" where
  "UpdateUser exec user session DBschema DBtable dao db =
     (if session = None \<or> DBschema = [] \<or> DBtable = [] then (False, [DaoWarn ''Invalid database session''], db)
      else
        (case exec (the session) \<lparr>sql_schema = DBschema, sql_table = DBtable\<rparr>
             (UpdateById
                [(''nickname'', ui_nickname user), (''avatar_url'', ui_avatar_url user),
                 (''phone_number'', ui_phone_number user), (''email'', ui_email user), (''region'', ui_region user),
                 (''status'', ui_status user), (''last_login_time'', [])] (ui_id user)) db of
           (Inl e, db1) \<Rightarrow> (False, HandleError ''Error updating user: '' e, db1)
         | (Inr _, db1) \<Rightarrow>
             (True, [DaoInfo (''User with ID '' @ dec_int (ui_id user) @ '' updated successfully.'')], db1)))"

definition DeleteUser ::
  "('c, 'd, 'r) sql_exec \<Rightarrow> int \<Rightarrow> 'c option \<Rightarrow> string \<Rightarrow> string \<Rightarrow> 'c user_dao \<Rightarrow> 'd \<Rightarrow> bool \<times> dao_log list \<times> 'd" where
  "DeleteUser exec user_id session DBschema DBtable dao db =
     (if session = None \<or> DBschema = [] \<or> DBtable = [] then (False, [DaoWarn ''Invalid database session''], db)
      else
        (case exec (the session) \<lparr>sql_schema = DBschema, sql_table = DBtable\<rparr> (RemoveById user_id) db of
           (Inl e, db1) \<Rightarrow> (False, HandleError ''Error deleting user: '' e, db1)
         | (Inr _, db1) \<Rightarrow>
             (True, [DaoInfo (''User with ID '' @ dec_int user_id @ '' deleted successfully.'')], db1)))"

text \<open>
  \<^verbatim>\<open>get_user_info\<close>: \<open>conn\<close> is what the pool lends, \<open>query\<close> runs the text in it and gives the
  user name of the first row, if there is one.
\<close>

definition get_user_info :: "'c option \<Rightarrow> ('c \<Rightarrow> string \<Rightarrow> string option) \<Rightarrow> int \<Rightarrow> string" where
  "get_user_info conn query user_id =
     (case conn of
        None \<Rightarrow> ''DB Connection Failed''
      | Some c \<Rightarrow>
          (case query c (''SELECT username FROM users WHERE id = '' @ dec_int user_id) of
             Some name \<Rightarrow> name
           | None \<Rightarrow> ''User Not Found''))"

section \<open>The table\<close>

text \<open>
  What a server does with these statements on a table of users, as rows by id: an insertion
  adds a row under an unused id with the given columns, the others at their defaults; a
  selection gives the row; an update replaces the named columns; a removal deletes the row.
  \<open>tab\<close> reads the table and \<open>cols\<close> the columns of a row, in the order of the table.
\<close>

definition user_columns :: "string list" where
  "user_columns = [''id'', ''username'', ''password_hash'', ''nickname'', ''avatar_url'', ''gender'', ''birthday'',
     ''phone_number'', ''email'', ''region'', ''status'', ''last_login_time'', ''create_time'', ''update_time'']"

definition assign_columns :: "(string \<times> string) list \<Rightarrow> (string \<Rightarrow> string) \<Rightarrow> string \<Rightarrow> string" where
  "assign_columns cvs row = (\<lambda>c. case map_of cvs c of None \<Rightarrow> row c | Some v \<Rightarrow> v)"

definition user_table ::
  "('c, 'd, 'r) sql_exec \<Rightarrow> ('r \<Rightarrow> nat \<Rightarrow> string + int) \<Rightarrow> ('r \<Rightarrow> nat \<Rightarrow> string + string) \<Rightarrow> 'c \<Rightarrow> sql_target \<Rightarrow>
   ('d \<Rightarrow> int \<rightharpoonup> (string \<Rightarrow> string)) \<Rightarrow> bool" where
  "user_table exec row_int row_str c t tab \<longleftrightarrow>
     (\<forall>db cs vs r db1. exec c t (InsertRow cs vs) db = (Inr r, db1) \<longrightarrow>
        (\<exists>i row. tab db i = None \<and> tab db1 = (tab db)(i \<mapsto> assign_columns (zip cs vs) row))) \<and>
     (\<forall>db i. case tab db i of
        None \<Rightarrow> exec c t (SelectById i) db = (Inr None, db)
      | Some row \<Rightarrow> (\<exists>r. exec c t (SelectById i) db = (Inr (Some r), db) \<and> row_int r 0 = Inr i \<and>
          (\<forall>n. 0 < n \<and> n < length user_columns \<longrightarrow> row_str r n = Inr (row (user_columns ! n))))) \<and>
     (\<forall>db cvs i r db1. exec c t (UpdateById cvs i) db = (Inr r, db1) \<longrightarrow>
        tab db1 = (tab db)(i := map_option (assign_columns cvs) (tab db i))) \<and>
     (\<forall>db i r db1. exec c t (RemoveById i) db = (Inr r, db1) \<longrightarrow> tab db1 = (tab db)(i := None))"

text \<open>The user that a row of the table holds.\<close>

definition user_of :: "int \<Rightarrow> (string \<Rightarrow> string) \<Rightarrow> UserInfo" where
  "user_of i row =
     \<lparr>ui_id = i, ui_username = row ''username'', ui_password_hash = row ''password_hash'', ui_nickname = row ''nickname'',
      ui_avatar_url = row ''avatar_url'', ui_gender = row ''gender'', ui_birthday = row ''birthday'',
      ui_phone_number = row ''phone_number'', ui_email = row ''email'', ui_region = row ''region'',
      ui_status = row ''status'', ui_last_login_time = row ''last_login_time'', ui_create_time = row ''create_time'',
      ui_update_time = row ''update_time''\<rparr>"

definition find_user ::
  "('c, 'd, 'r) sql_exec \<Rightarrow> ('r \<Rightarrow> nat \<Rightarrow> string + int) \<Rightarrow> ('r \<Rightarrow> nat \<Rightarrow> string + string) \<Rightarrow> 'c \<Rightarrow> sql_target \<Rightarrow>
   'c user_dao \<Rightarrow> 'd \<Rightarrow> int \<Rightarrow> UserInfo option" where
  "find_user exec row_int row_str c t dao db i =
     fst (GetUserById exec row_int row_str i (Some c) (sql_schema t) (sql_table t) dao db)"

lemma parse_user_row:
  assumes "row_int r 0 = Inr i"
    and "\<And>n. 0 < n \<Longrightarrow> n < length user_columns \<Longrightarrow> row_str r n = Inr (row (user_columns ! n))"
  shows "ParseUser row_int row_str r = (Inr (user_of i row), [])"
proof -
  have "row_str r 1 = Inr (row (user_columns ! 1))" "row_str r 2 = Inr (row (user_columns ! 2))"
    "row_str r 3 = Inr (row (user_columns ! 3))" "row_str r 4 = Inr (row (user_columns ! 4))"
    "row_str r 5 = Inr (row (user_columns ! 5))" "row_str r 6 = Inr (row (user_columns ! 6))"
    "row_str r 7 = Inr (row (user_columns ! 7))" "row_str r 8 = Inr (row (user_columns ! 8))"
    "row_str r 9 = Inr (row (user_columns ! 9))" "row_str r 10 = Inr (row (user_columns ! 10))"
    "row_str r 11 = Inr (row (user_columns ! 11))" "row_str r 12 = Inr (row (user_columns ! 12))"
    "row_str r 13 = Inr (row (user_columns ! 13))"
    by (rule assms(2); simp add: user_columns_def)+
  then show ?thesis by (simp add: ParseUser_def assms(1) user_of_def user_columns_def)
qed

lemma target_eta [simp]: "\<lparr>sql_schema = sql_schema t, sql_table = sql_table t\<rparr> = t"
  by simp

lemma user_table_select:
  assumes "user_table exec row_int row_str c t tab"
  shows "case tab db i of
        None \<Rightarrow> exec c t (SelectById i) db = (Inr None, db)
      | Some row \<Rightarrow> (\<exists>r. exec c t (SelectById i) db = (Inr (Some r), db) \<and> row_int r 0 = Inr i \<and>
          (\<forall>n. 0 < n \<and> n < length user_columns \<longrightarrow> row_str r n = Inr (row (user_columns ! n))))"
  using assms unfolding user_table_def by (elim conjE) (erule allE, erule allE)

lemma user_table_change:
  assumes "user_table exec row_int row_str c t tab"
  shows "exec c t (InsertRow cs vs) db = (Inr r, db1) \<Longrightarrow>
      \<exists>i row. tab db i = None \<and> tab db1 = (tab db)(i \<mapsto> assign_columns (zip cs vs) row)"
    and "exec c t (UpdateById cvs i) db = (Inr r, db1) \<Longrightarrow>
      tab db1 = (tab db)(i := map_option (assign_columns cvs) (tab db i))"
    and "exec c t (RemoveById i) db = (Inr r, db1) \<Longrightarrow> tab db1 = (tab db)(i := None)"
  using assms unfolding user_table_def by blast+

lemma find_user_table:
  assumes "user_table exec row_int row_str c t tab" and "sql_schema t \<noteq> []" and "sql_table t \<noteq> []"
  shows "find_user exec row_int row_str c t dao db = (\<lambda>i. map_option (user_of i) (tab db i))"
proof
  fix i
  show "find_user exec row_int row_str c t dao db i = map_option (user_of i) (tab db i)"
  proof (cases "tab db i")
    case None
    then show ?thesis using user_table_select [OF assms(1), where db = db and i = i] assms(2,3)
      by (simp add: find_user_def GetUserById_def ResolveParams_def)
  next
    case (Some row)
    then obtain r where r: "exec c t (SelectById i) db = (Inr (Some r), db)" "row_int r 0 = Inr i"
        "\<And>n. 0 < n \<Longrightarrow> n < length user_columns \<Longrightarrow> row_str r n = Inr (row (user_columns ! n))"
      using user_table_select [OF assms(1), where db = db and i = i] by auto
    have "ParseUser row_int row_str r = (Inr (user_of i row), [])" using r(2,3) by (intro parse_user_row)
    then show ?thesis using Some r(1) assms(2,3) by (simp add: find_user_def GetUserById_def ResolveParams_def)
  qed
qed

text \<open>The columns an insertion and an update name, with their values.\<close>

definition insert_columns :: "string \<Rightarrow> UserInfo \<Rightarrow> (string \<times> string) list" where
  "insert_columns now_text u =
     [(''username'', ui_username u), (''password_hash'', ui_password_hash u), (''nickname'', ui_nickname u),
      (''avatar_url'', ui_avatar_url u), (''gender'', ui_gender u), (''birthday'', ui_birthday u),
      (''phone_number'', ui_phone_number u), (''email'', ui_email u), (''region'', ui_region u),
      (''status'', ui_status u), (''last_login_time'', now_text)]"

definition update_columns :: "UserInfo \<Rightarrow> (string \<times> string) list" where
  "update_columns u =
     [(''nickname'', ui_nickname u), (''avatar_url'', ui_avatar_url u), (''phone_number'', ui_phone_number u),
      (''email'', ui_email u), (''region'', ui_region u), (''status'', ui_status u), (''last_login_time'', [])]"

lemma user_of_insert:
  "user_of i (assign_columns (insert_columns now_text u) row) = u\<lparr>ui_id := i, ui_last_login_time := now_text,
     ui_create_time := row ''create_time'', ui_update_time := row ''update_time''\<rparr>"
  by (simp add: user_of_def assign_columns_def insert_columns_def)

lemma user_of_update:
  "user_of i (assign_columns (update_columns u) row) = (user_of i row)\<lparr>ui_nickname := ui_nickname u,
     ui_avatar_url := ui_avatar_url u, ui_phone_number := ui_phone_number u, ui_email := ui_email u,
     ui_region := ui_region u, ui_status := ui_status u, ui_last_login_time := []\<rparr>"
  by (simp add: user_of_def assign_columns_def update_columns_def)

lemma dao_executes:
  assumes "sql_schema t \<noteq> []" and "sql_table t \<noteq> []"
  shows "ResolveParams co so to dao = (Some c, sql_schema t, sql_table t) \<Longrightarrow>
      InsertUser exec now_c u co so to dao db = (True, logs, db') \<Longrightarrow>
      \<exists>r. exec c t (InsertRow (map fst (insert_columns (GetCurrentDateTime now_c) u)) (map snd (insert_columns (GetCurrentDateTime now_c) u))) db = (Inr r, db')"
    and "UpdateUser exec u (Some c) (sql_schema t) (sql_table t) dao db = (True, logs, db') \<Longrightarrow>
      \<exists>r. exec c t (UpdateById (update_columns u) (ui_id u)) db = (Inr r, db')"
    and "DeleteUser exec i (Some c) (sql_schema t) (sql_table t) dao db = (True, logs, db') \<Longrightarrow>
      \<exists>r. exec c t (RemoveById i) db = (Inr r, db')"
proof -
  note d = InsertUser_def UpdateUser_def DeleteUser_def insert_columns_def update_columns_def
  show "ResolveParams co so to dao = (Some c, sql_schema t, sql_table t) \<Longrightarrow>
      InsertUser exec now_c u co so to dao db = (True, logs, db') \<Longrightarrow>
      \<exists>r. exec c t (InsertRow (map fst (insert_columns (GetCurrentDateTime now_c) u)) (map snd (insert_columns (GetCurrentDateTime now_c) u))) db = (Inr r, db')"
    "UpdateUser exec u (Some c) (sql_schema t) (sql_table t) dao db = (True, logs, db') \<Longrightarrow>
      \<exists>r. exec c t (UpdateById (update_columns u) (ui_id u)) db = (Inr r, db')"
    "DeleteUser exec i (Some c) (sql_schema t) (sql_table t) dao db = (True, logs, db') \<Longrightarrow>
      \<exists>r. exec c t (RemoveById i) db = (Inr r, db')"
    using assms by (auto simp: d split: prod.splits sum.splits)
qed

lemma dao_insert:
  assumes "user_table exec row_int row_str c t tab" and "sql_schema t \<noteq> []" and "sql_table t \<noteq> []"
    and "ResolveParams co so to dao = (Some c, sql_schema t, sql_table t)"
    and "InsertUser exec now_c u co so to dao db = (True, logs, db')"
  shows "\<exists>i u'. find_user exec row_int row_str c t dao db i = None \<and>
      find_user exec row_int row_str c t dao db' = (find_user exec row_int row_str c t dao db)(i \<mapsto> u') \<and>
      u' = u\<lparr>ui_id := i, ui_last_login_time := GetCurrentDateTime now_c, ui_create_time := ui_create_time u', ui_update_time := ui_update_time u'\<rparr>"
proof -
  let ?cvs = "insert_columns (GetCurrentDateTime now_c) u"
  obtain r where "exec c t (InsertRow (map fst ?cvs) (map snd ?cvs)) db = (Inr r, db')"
    using dao_executes(1) [OF assms(2-5)] by blast
  then obtain i row where "tab db i = None" "tab db' = (tab db)(i \<mapsto> assign_columns ?cvs row)"
    using user_table_change(1) [OF assms(1)] by (metis zip_map_fst_snd)
  then show ?thesis using user_of_insert [of i "GetCurrentDateTime now_c" u row]
    by (intro exI [of _ i] exI [of _ "user_of i (assign_columns ?cvs row)"])
      (auto simp: find_user_table [OF assms(1-3)] fun_eq_iff)
qed

section \<open>Properties\<close>


text \<open>A server that keeps the table as a list of rows and gives the next free id.\<close>

fun list_server ::
  "(unit, (int \<times> (string \<Rightarrow> string)) list, int \<times> (string \<Rightarrow> string)) sql_exec" where
  "list_server c t (InsertRow cs vs) db =
     (Inr None, (foldr (max \<circ> fst) db 0 + 1, assign_columns (zip cs vs) (\<lambda>_. ''now'')) # db)"
| "list_server c t (SelectById i) db = (Inr (map_option (Pair i) (map_of db i)), db)"
| "list_server c t (UpdateById cvs i) db =
     (Inr None, map (\<lambda>(j, row). (j, if j = i then assign_columns cvs row else row)) db)"
| "list_server c t (RemoveById i) db = (Inr None, filter (\<lambda>(j, row). j \<noteq> i) db)"

definition list_int :: "int \<times> (string \<Rightarrow> string) \<Rightarrow> nat \<Rightarrow> string + int" where
  "list_int r n = (if n = 0 then Inr (fst r) else Inl ''not a number'')"

definition list_str :: "int \<times> (string \<Rightarrow> string) \<Rightarrow> nat \<Rightarrow> string + string" where
  "list_str r n = (if n < length user_columns then Inr (snd r (user_columns ! n)) else Inl ''no such column'')"

lemma list_server_table: "user_table list_server list_int list_str () t map_of"
proof -
  have fresh: "map_of db (foldr (max \<circ> fst) db 0 + 1) = None" for db :: "(int \<times> (string \<Rightarrow> string)) list"
  proof -
    have "i \<le> foldr (max \<circ> fst) db 0" if "(i, r) \<in> set db" for i r using that by (induction db) (auto simp: le_max_iff_disj)
    then show ?thesis by (force simp: map_of_eq_None_iff)
  qed
  have upd: "map_of (map (\<lambda>(j, row). (j, if j = i then f row else row)) db) = (map_of db)(i := map_option f (map_of db i))"
    for db :: "(int \<times> (string \<Rightarrow> string)) list" and f i by (induction db) (auto simp: fun_eq_iff)
  have rem: "map_of (filter (\<lambda>(j, row). j \<noteq> i) db) = (map_of db)(i := None)"
    for db :: "(int \<times> (string \<Rightarrow> string)) list" and i by (induction db) (auto simp: fun_eq_iff)
  show ?thesis unfolding user_table_def
    by (auto simp: upd rem list_int_def list_str_def fun_eq_iff intro!: exI [of _ "foldr _ _ _ + 1"] fresh split: option.splits)
qed

definition demo_tm :: tm where
  "demo_tm = \<lparr>tm_year = 124, tm_mon = 1, tm_mday = 9, tm_hour = 12, tm_min = 0, tm_sec = 5\<rparr>"

lemma demo_date: "GetCurrentDateTime demo_tm = ''2024-02-09 12:00:05''"
  by code_simp


text \<open>
  Updating and deleting through the defaults never works: without a session, a schema and a
  table of their own they report failure and send nothing, whatever the defaults are.
\<close>

theorem update_delete_ignore_defaults:
  "fst (UpdateUser exec u None so to dao db) = False \<and> snd (snd (UpdateUser exec u None so to dao db)) = db \<and>
   fst (DeleteUser exec i None so to dao db) = False \<and> snd (snd (DeleteUser exec i None so to dao db)) = db"
  by (simp add: UpdateUser_def DeleteUser_def)

end
