(* ===== verification/User_Service.thy ===== *)
theory User_Service
  imports User_Dao
begin

text \<open>
  Registration: \<^verbatim>\<open>UserService\<close> of \<^verbatim>\<open>service/register/login_register_server.{h,cpp}\<close>.

  The regular expressions are those of \<^verbatim>\<open>std::regex\<close> that the source uses: classes of
  characters, sequences and counted repetition. \<open>matches\<close> says which words an expression
  stands for, \<open>regex_match\<close> decides it by derivatives, and the three expressions of the source
  are shown to accept the words one would read off them.

  The JSON library and the class \<^verbatim>\<open>DatabaseManager\<close> are not part of the sources. Parsing,
  \<^verbatim>\<open>value[key].asString()\<close>, \<^verbatim>\<open>value.get(key, default).asString()\<close>, \<^verbatim>\<open>isMember\<close> and
  writing are arguments, where \<open>None\<close> stands for an exception of the library; so are
  \<^verbatim>\<open>userExists\<close> and \<^verbatim>\<open>insertUser\<close>, which act on a state \<open>'d\<close>.
\<close>

section \<open>Regular expressions\<close>

datatype regex = Nothing | Eps | Cls "(char \<times> char) list" | Seq regex regex | Alt regex regex | Star regex

definition in_cls :: "(char \<times> char) list \<Rightarrow> char \<Rightarrow> bool" where
  "in_cls rs c = list_ex (\<lambda>(lo, hi). of_char lo \<le> (of_char c :: nat) \<and> of_char c \<le> (of_char hi :: nat)) rs"

inductive matches :: "regex \<Rightarrow> string \<Rightarrow> bool" where
  eps: "matches Eps []"
| cls: "in_cls rs c \<Longrightarrow> matches (Cls rs) [c]"
| seq: "matches r s \<Longrightarrow> matches q u \<Longrightarrow> matches (Seq r q) (s @ u)"
| altl: "matches r s \<Longrightarrow> matches (Alt r q) s"
| altr: "matches q s \<Longrightarrow> matches (Alt r q) s"
| star0: "matches (Star r) []"
| star1: "matches r s \<Longrightarrow> matches (Star r) u \<Longrightarrow> matches (Star r) (s @ u)"

inductive_simps matches_simps:
  "matches Nothing s" "matches Eps s" "matches (Cls rs) s" "matches (Seq r q) s" "matches (Alt r q) s"

fun nullable :: "regex \<Rightarrow> bool" where
  "nullable Nothing = False"
| "nullable Eps = True"
| "nullable (Cls rs) = False"
| "nullable (Seq r q) = (nullable r \<and> nullable q)"
| "nullable (Alt r q) = (nullable r \<or> nullable q)"
| "nullable (Star r) = True"

fun deriv :: "char \<Rightarrow> regex \<Rightarrow> regex" where
  "deriv c Nothing = Nothing"
| "deriv c Eps = Nothing"
| "deriv c (Cls rs) = (if in_cls rs c then Eps else Nothing)"
| "deriv c (Seq r q) = (if nullable r then Alt (Seq (deriv c r) q) (deriv c q) else Seq (deriv c r) q)"
| "deriv c (Alt r q) = Alt (deriv c r) (deriv c q)"
| "deriv c (Star r) = Seq (deriv c r) (Star r)"

definition regex_match :: "string \<Rightarrow> regex \<Rightarrow> bool" where
  "regex_match s r = nullable (fold deriv s r)"

text \<open>The repetitions \<open>{n}\<close>, \<open>{0,n}\<close>, \<open>{m,n}\<close>, \<open>{m,}\<close> and \<open>+\<close>.\<close>

primrec rep :: "nat \<Rightarrow> regex \<Rightarrow> regex" where
  "rep 0 r = Eps"
| "rep (Suc n) r = Seq r (rep n r)"

primrec upto_rep :: "nat \<Rightarrow> regex \<Rightarrow> regex" where
  "upto_rep 0 r = Eps"
| "upto_rep (Suc n) r = Alt Eps (Seq r (upto_rep n r))"

definition between :: "nat \<Rightarrow> nat \<Rightarrow> regex \<Rightarrow> regex" where
  "between m n r = Seq (rep m r) (upto_rep (n - m) r)"

definition at_least :: "nat \<Rightarrow> regex \<Rightarrow> regex" where
  "at_least m r = Seq (rep m r) (Star r)"

definition alpha :: "(char \<times> char) list" where
  "alpha = [(CHR ''a'', CHR ''z''), (CHR ''A'', CHR ''Z'')]"

definition digit :: "(char \<times> char) list" where
  "digit = [(CHR ''0'', CHR ''9'')]"

definition one :: "char \<Rightarrow> (char \<times> char) list" where
  "one c = [(c, c)]"

definition word_cls :: "(char \<times> char) list" where
  "word_cls = alpha @ digit @ one CHR ''_''"

definition hex_cls :: "(char \<times> char) list" where
  "hex_cls = [(CHR ''a'', CHR ''f''), (CHR ''A'', CHR ''F'')] @ digit"

definition local_cls :: "(char \<times> char) list" where
  "local_cls = alpha @ digit @ one CHR ''.'' @ one CHR ''_'' @ one CHR ''%'' @ one CHR ''+'' @ one CHR ''-''"

definition domain_cls :: "(char \<times> char) list" where
  "domain_cls = alpha @ digit @ one CHR ''.'' @ one CHR ''-''"

definition usernameRegex :: regex where
  "usernameRegex = between 4 20 (Cls word_cls)"

definition hashRegex :: regex where
  "hashRegex = rep 64 (Cls hex_cls)"

definition emailRegex :: regex where
  "emailRegex =
     Seq (at_least 1 (Cls local_cls)) (Seq (Cls (one CHR ''@''))
       (Seq (at_least 1 (Cls domain_cls)) (Seq (Cls (one CHR ''.'')) (at_least 2 (Cls alpha)))))"

section \<open>Registration\<close>

datatype json_out = JBool bool | JInt int | JString string

definition validateUserInfo ::
  "('j \<Rightarrow> string \<Rightarrow> bool) \<Rightarrow> ('j \<Rightarrow> string \<Rightarrow> string option) \<Rightarrow> 'j \<Rightarrow> bool option" where
  "validateUserInfo isMember asString userData =
     (case asString userData ''username'' of
        None \<Rightarrow> None
      | Some username \<Rightarrow>
          if \<not> regex_match username usernameRegex then Some False
          else
            (case asString userData ''password_hash'' of
               None \<Rightarrow> None
             | Some hash \<Rightarrow>
                 if \<not> regex_match hash hashRegex then Some False
                 else if isMember userData ''email'' then
                   (case asString userData ''email'' of
                      None \<Rightarrow> None
                    | Some email \<Rightarrow> if email = [] then Some True else Some (regex_match email emailRegex))
                 else Some True))"

text \<open>
  \<open>junk\<close> is the number in the uninitialised member \<^verbatim>\<open>id\<close>, \<open>time_text\<close> the formatted local
  time. \<open>insertUser\<close> gives back the object it is handed, which it may have changed.
\<close>

definition handleRegistration ::
  "(string \<Rightarrow> string + 'j) \<Rightarrow> ('j \<Rightarrow> string \<Rightarrow> bool) \<Rightarrow> ('j \<Rightarrow> string \<Rightarrow> string option) \<Rightarrow>
   ('j \<Rightarrow> string \<Rightarrow> string \<Rightarrow> string option) \<Rightarrow> ((string \<times> json_out) list \<Rightarrow> string) \<Rightarrow>
   (string \<Rightarrow> 'd \<Rightarrow> bool) \<Rightarrow> (UserInfo \<Rightarrow> 'd \<Rightarrow> bool \<times> UserInfo \<times> 'd) \<Rightarrow> int \<Rightarrow> string \<Rightarrow>
   string \<Rightarrow> 'd \<Rightarrow> string option \<times> 'd" where
  "handleRegistration parse isMember asString getString write userExists insertUser junk time_text jsonRequest db =
     (case parse jsonRequest of
        Inl errors \<Rightarrow> (Some (write [(''success'', JBool False), (''error'', JString (''Invalid JSON: '' @ errors))]), db)
      | Inr request \<Rightarrow>
          (case validateUserInfo isMember asString request of
             None \<Rightarrow> (None, db)
           | Some False \<Rightarrow> (Some (write [(''success'', JBool False), (''error'', JString ''Validation failed'')]), db)
           | Some True \<Rightarrow>
               (case asString request ''username'' of
                  None \<Rightarrow> (None, db)
                | Some username \<Rightarrow>
                    if userExists username db then
                      (Some (write [(''success'', JBool False), (''error'', JString ''Username already exists'')]), db)
                    else
                      (case (asString request ''password_hash'', getString request ''nickname'' [],
                             getString request ''gender'' ''other'') of
                         (Some hash, Some nickname, Some gender) \<Rightarrow>
                           let newUser = \<lparr>ui_id = junk, ui_username = username, ui_password_hash = hash,
                                 ui_nickname = nickname, ui_avatar_url = [], ui_gender = gender, ui_birthday = [],
                                 ui_phone_number = [], ui_email = [], ui_region = [], ui_status = ''active'',
                                 ui_last_login_time = [], ui_create_time = time_text, ui_update_time = time_text\<rparr>
                           in (case insertUser newUser db of
                                 (False, _, db1) \<Rightarrow>
                                   (Some (write [(''success'', JBool False), (''error'', JString ''Database insertion failed'')]), db1)
                               | (True, stored, db1) \<Rightarrow>
                                   (Some (write [(''success'', JBool True), (''user_id'', JInt (ui_id stored)),
                                      (''message'', JString ''Registration successful'')]), db1))
                       | _ \<Rightarrow> (None, db)))))"

section \<open>Matching\<close>

lemma nullable_matches: "nullable r \<longleftrightarrow> matches r []"
  by (induction r) (auto simp: matches_simps intro: star0)

lemma star_Cons: "matches (Star r) (c # s) \<longleftrightarrow> (\<exists>a b. s = a @ b \<and> matches r (c # a) \<and> matches (Star r) b)"
proof
  show "matches (Star r) (c # s) \<Longrightarrow> \<exists>a b. s = a @ b \<and> matches r (c # a) \<and> matches (Star r) b"
    by (induction "Star r" "c # s" rule: matches.induct) (auto simp: append_eq_Cons_conv)
qed (auto dest: star1)

lemma deriv_matches: "matches (deriv c r) s \<longleftrightarrow> matches r (c # s)"
proof (induction r arbitrary: s)
  case (Seq r q)
  have "matches (Seq r q) (c # s) \<longleftrightarrow>
      matches r [] \<and> matches q (c # s) \<or> (\<exists>a b. s = a @ b \<and> matches r (c # a) \<and> matches q b)"
    by (auto simp: matches_simps Cons_eq_append_conv)
  then show ?case by (auto simp: Seq.IH nullable_matches matches_simps)
qed (auto simp: matches_simps star_Cons)

lemma regex_match_iff: "regex_match s r \<longleftrightarrow> matches r s"
proof -
  have "matches (fold deriv s r) [] \<longleftrightarrow> matches r s" by (induction s arbitrary: r) (simp_all add: deriv_matches)
  then show ?thesis by (simp add: regex_match_def nullable_matches)
qed

lemma matches_Cls_Seq: "matches (Seq (Cls rs) q) s \<longleftrightarrow> (\<exists>c u. s = c # u \<and> in_cls rs c \<and> matches q u)"
proof
  assume "\<exists>c u. s = c # u \<and> in_cls rs c \<and> matches q u"
  then obtain c u where s: "s = [c] @ u" and "matches (Cls rs) [c]" "matches q u" by (auto intro: cls)
  then show "matches (Seq (Cls rs) q) s" unfolding s by (intro seq)
qed (auto simp: matches_simps)

lemma matches_rep: "matches (rep n (Cls rs)) s \<longleftrightarrow> length s = n \<and> list_all (in_cls rs) s"
proof (induction n arbitrary: s)
  case (Suc n)
  show ?case by (cases s) (auto simp: matches_Cls_Seq Suc.IH)
qed (auto simp: matches_simps(2))

lemma matches_upto: "matches (upto_rep n (Cls rs)) s \<longleftrightarrow> length s \<le> n \<and> list_all (in_cls rs) s"
proof (induction n arbitrary: s)
  case (Suc n)
  show ?case by (cases s) (auto simp: matches_simps(2,5) matches_Cls_Seq Suc.IH)
qed (auto simp: matches_simps(2))

lemma matches_star: "matches (Star (Cls rs)) s \<longleftrightarrow> list_all (in_cls rs) s"
  by (induction s) (auto simp: star_Cons matches_simps intro: star0)

lemma split_at_length: "(\<exists>a b. s = a @ b \<and> length a = m \<and> P b \<and> list_all Q a \<and> list_all Q b) \<longleftrightarrow>
    m \<le> length s \<and> list_all Q s \<and> P (drop m s)"
proof
  assume "m \<le> length s \<and> list_all Q s \<and> P (drop m s)"
  moreover have "s = take m s @ drop m s" by simp
  ultimately have "length (take m s) = m \<and> P (drop m s) \<and> list_all Q (take m s) \<and> list_all Q (drop m s)"
    by (metis length_take list_all_append min.absorb2)
  then show "\<exists>a b. s = a @ b \<and> length a = m \<and> P b \<and> list_all Q a \<and> list_all Q b"
    using append_take_drop_id by metis
qed auto

lemma matches_between: "m \<le> n \<Longrightarrow> matches (between m n (Cls rs)) s \<longleftrightarrow> m \<le> length s \<and> length s \<le> n \<and> list_all (in_cls rs) s"
  using split_at_length [of s m "\<lambda>b. length b \<le> n - m" "in_cls rs"]
  by (auto simp: between_def matches_simps matches_rep matches_upto)

lemma matches_at_least: "matches (at_least m (Cls rs)) s \<longleftrightarrow> m \<le> length s \<and> list_all (in_cls rs) s"
  using split_at_length [of s m "\<lambda>_. True" "in_cls rs"]
  by (auto simp: at_least_def matches_simps matches_rep matches_star)

lemma in_cls_one [simp]: "in_cls (one c) d \<longleftrightarrow> d = c"
  by (auto simp: in_cls_def one_def)

text \<open>What the three expressions accept.\<close>

lemma username_accepts: "regex_match s usernameRegex \<longleftrightarrow> 4 \<le> length s \<and> length s \<le> 20 \<and> list_all (in_cls word_cls) s"
  by (simp add: regex_match_iff usernameRegex_def matches_between)

lemma hash_accepts: "regex_match s hashRegex \<longleftrightarrow> length s = 64 \<and> list_all (in_cls hex_cls) s"
  by (simp add: regex_match_iff hashRegex_def matches_rep)

lemma email_accepts:
  "regex_match s emailRegex \<longleftrightarrow>
    (\<exists>l d t. s = l @ ''@'' @ d @ ''.'' @ t \<and> l \<noteq> [] \<and> d \<noteq> [] \<and> 2 \<le> length t \<and>
      list_all (in_cls local_cls) l \<and> list_all (in_cls domain_cls) d \<and> list_all (in_cls alpha) t)"
proof -
  have ne: "1 \<le> length x \<longleftrightarrow> x \<noteq> []" for x :: string by (cases x) simp_all
  have dom: "matches (Seq (at_least 1 (Cls domain_cls)) (Seq (Cls (one CHR ''.'')) (at_least 2 (Cls alpha)))) x \<longleftrightarrow>
      (\<exists>d t. x = d @ ''.'' @ t \<and> d \<noteq> [] \<and> 2 \<le> length t \<and> list_all (in_cls domain_cls) d \<and> list_all (in_cls alpha) t)" for x
    unfolding matches_simps(4) [of "at_least _ _"] matches_Cls_Seq matches_at_least in_cls_one ne by fastforce
  have "matches emailRegex s \<longleftrightarrow> (\<exists>l x. s = l @ ''@'' @ x \<and> l \<noteq> [] \<and> list_all (in_cls local_cls) l \<and>
      matches (Seq (at_least 1 (Cls domain_cls)) (Seq (Cls (one CHR ''.'')) (at_least 2 (Cls alpha)))) x)"
    unfolding emailRegex_def matches_simps(4) [of "at_least 1 (Cls local_cls)"] matches_Cls_Seq matches_at_least in_cls_one ne
    by fastforce
  then show ?thesis unfolding regex_match_iff dom by blast
qed

lemma validate_True:
  assumes "validateUserInfo isMember asString request = Some True"
  obtains name hash where "asString request ''username'' = Some name" "4 \<le> length name" "length name \<le> 20"
    "list_all (in_cls word_cls) name" "asString request ''password_hash'' = Some hash" "length hash = 64"
    "list_all (in_cls hex_cls) hash"
  using assms by (auto simp: validateUserInfo_def username_accepts hash_accepts split: option.splits if_splits)

lemma registration_inserts:
  assumes "handleRegistration parse isMember asString getString write userExists insertUser junk time_text req db = (ans, db')"
    and "parse req = Inr request" and "validateUserInfo isMember asString request = Some True"
    and "asString request ''username'' = Some name" and "asString request ''password_hash'' = Some hash"
    and "\<not> userExists name db"
    and "getString request ''nickname'' [] = Some nick" and "getString request ''gender'' ''other'' = Some gen"
  shows "\<exists>u ok stored. insertUser u db = (ok, stored, db') \<and> ui_username u = name \<and> ui_password_hash u = hash \<and>
    ui_nickname u = nick \<and> ui_gender u = gen \<and> ui_status u = ''active'' \<and> ui_email u = [] \<and>
    ui_create_time u = time_text \<and> ui_update_time u = time_text \<and>
    ans = Some (write (if ok then [(''success'', JBool True), (''user_id'', JInt (ui_id stored)),
      (''message'', JString ''Registration successful'')]
      else [(''success'', JBool False), (''error'', JString ''Database insertion failed'')]))"
proof -
  let ?u = "\<lparr>ui_id = junk, ui_username = name, ui_password_hash = hash, ui_nickname = nick, ui_avatar_url = [],
    ui_gender = gen, ui_birthday = [], ui_phone_number = [], ui_email = [], ui_region = [], ui_status = ''active'',
    ui_last_login_time = [], ui_create_time = time_text, ui_update_time = time_text\<rparr>"
  obtain ok stored db1 where i: "insertUser ?u db = (ok, stored, db1)" by (metis prod.exhaust)
  then have "db' = db1" "ans = Some (write (if ok then [(''success'', JBool True), (''user_id'', JInt (ui_id stored)),
      (''message'', JString ''Registration successful'')]
      else [(''success'', JBool False), (''error'', JString ''Database insertion failed'')]))"
    using assms by (auto simp: handleRegistration_def split: bool.splits)
  with i show ?thesis by (intro exI [of _ ?u] exI [of _ ok] exI [of _ stored]) simp
qed

section \<open>Properties\<close>


definition demo_json :: "(string \<times> string) list" where
  "demo_json = [(''username'', ''bob_1''), (''password_hash'', replicate 64 CHR ''a'')]"

definition demo_member :: "(string \<times> string) list \<Rightarrow> string \<Rightarrow> bool" where
  "demo_member j k = (map_of j k \<noteq> None)"

definition demo_get :: "(string \<times> string) list \<Rightarrow> string \<Rightarrow> string \<Rightarrow> string option" where
  "demo_get j k d = Some (case map_of j k of None \<Rightarrow> d | Some v \<Rightarrow> v)"

definition demo_string :: "(string \<times> string) list \<Rightarrow> string \<Rightarrow> string option" where
  "demo_string j k = demo_get j k []"

definition demo_insert :: "UserInfo \<Rightarrow> string list \<Rightarrow> bool \<times> UserInfo \<times> string list" where
  "demo_insert u db = (True, u\<lparr>ui_id := 7\<rparr>, ui_username u # db)"

definition demo_register :: "string list \<Rightarrow> string option \<times> string list" where
  "demo_register =
     handleRegistration (\<lambda>s. Inr demo_json) demo_member demo_string demo_get (\<lambda>r. fst (last r))
       (\<lambda>n db. n \<in> set db) demo_insert 0 ''12:00'' ''{}''"


end
