(* ===== verification/Config.thy ===== *)
theory Config
  imports Talko_Prelude
begin

text \<open>
  The configuration: \<^verbatim>\<open>config/parse_config.{h,cpp}\<close>.

  The YAML library is not part of the sources; loading a file, taking the child of a node,
  asking whether it is defined and reading it as a string, a number or a truth value are
  arguments, where \<open>Inl\<close> carries the text of a \<^verbatim>\<open>YAML::Exception\<close>. \<^verbatim>\<open>std::stoi\<close> is modelled
  with its two exceptions. A loader assigns fields of the configuration until something is
  thrown, and keeps what it assigned.
\<close>

section \<open>Reading numbers\<close>

datatype std_error = InvalidArgument | OutOfRange

definition is_space :: "char \<Rightarrow> bool" where
  "is_space c = (let n = of_char c :: nat in n = 32 \<or> 9 \<le> n \<and> n \<le> 13)"

definition is_digit :: "char \<Rightarrow> bool" where
  "is_digit c = (let n = of_char c :: nat in 48 \<le> n \<and> n \<le> 57)"

fun sign_split :: "string \<Rightarrow> bool \<times> string" where
  "sign_split [] = (False, [])"
| "sign_split (c # s) = (if c = CHR ''-'' then (True, s) else if c = CHR ''+'' then (False, s) else (False, c # s))"

definition stoi :: "string \<Rightarrow> std_error + int" where
  "stoi str =
     (case sign_split (dropWhile is_space (c_str str)) of
        (neg, s) \<Rightarrow>
          let ds = takeWhile is_digit s;
              v = (if neg then - int (digits_value ds) else int (digits_value ds))
          in if ds = [] then Inl InvalidArgument else if int32 v then Inr v else Inl OutOfRange)"

section \<open>The configuration\<close>

record ClientConfig =
  client_listen_ip :: string
  client_listen_port :: int

record MonitorConfig =
  monitor_listen_ip :: string
  monitor_listen_port :: int
  monitor_token :: string

record HttpConfig =
  http_listen_ip :: string
  http_listen_port :: int

record LogConfig =
  log_file_dir :: string
  log_file_name :: string
  log_binary_package :: bool

record MysqlConfig =
  mysql_server_addr :: string
  mysql_server_port :: int
  mysql_user :: string
  mysql_password :: string
  mysql_database :: string

record WhispConfig =
  client_config :: ClientConfig
  monitor_config :: MonitorConfig
  http_config :: HttpConfig
  log_config :: LogConfig
  mysql_config :: MysqlConfig

text \<open>What the library offers for nodes of type \<open>'n\<close>.\<close>

record 'n yaml =
  yaml_load :: "string \<Rightarrow> string + 'n"
  yaml_child :: "'n \<Rightarrow> string \<Rightarrow> string + 'n"
  yaml_defined :: "'n \<Rightarrow> bool"
  yaml_string :: "'n \<Rightarrow> string + string"
  yaml_int :: "'n \<Rightarrow> string + int"
  yaml_bool :: "'n \<Rightarrow> string + bool"

datatype thrown = YamlException string | StdException std_error

type_synonym loader = "WhispConfig \<Rightarrow> thrown option \<times> WhispConfig"

fun run_loaders :: "loader list \<Rightarrow> loader" where
  "run_loaders [] cfg = (None, cfg)"
| "run_loaders (l # ls) cfg =
     (case l cfg of (None, cfg1) \<Rightarrow> run_loaders ls cfg1 | (Some e, cfg1) \<Rightarrow> (Some e, cfg1))"

definition yaml_as :: "('n \<Rightarrow> string + 'a) \<Rightarrow> 'n \<Rightarrow> thrown + 'a" where
  "yaml_as f n = (case f n of Inl e \<Rightarrow> Inl (YamlException e) | Inr v \<Rightarrow> Inr v)"

definition yaml_stoi :: "'n yaml \<Rightarrow> 'n \<Rightarrow> thrown + int" where
  "yaml_stoi y n =
     (case yaml_string y n of
        Inl e \<Rightarrow> Inl (YamlException e)
      | Inr s \<Rightarrow> (case stoi s of Inl e \<Rightarrow> Inl (StdException e) | Inr v \<Rightarrow> Inr v))"

text \<open>One line of a section: \<^verbatim>\<open>if (section[key].IsDefined()) field = section[key].as<T>()\<close>.\<close>

definition load_field ::
  "'n yaml \<Rightarrow> 'n \<Rightarrow> string \<Rightarrow> ('n \<Rightarrow> thrown + 'a) \<Rightarrow> ('a \<Rightarrow> WhispConfig \<Rightarrow> WhispConfig) \<Rightarrow> loader" where
  "load_field y section_node key as_value assign cfg =
     (case yaml_child y section_node key of
        Inl e \<Rightarrow> (Some (YamlException e), cfg)
      | Inr n \<Rightarrow>
          if yaml_defined y n then
            (case as_value n of Inl e \<Rightarrow> (Some e, cfg) | Inr v \<Rightarrow> (None, assign v cfg))
          else (None, cfg))"

definition load_section :: "'n yaml \<Rightarrow> 'n \<Rightarrow> string \<Rightarrow> ('n \<Rightarrow> loader list) \<Rightarrow> loader" where
  "load_section y config key steps cfg =
     (case yaml_child y config key of
        Inl e \<Rightarrow> (Some (YamlException e), cfg)
      | Inr n \<Rightarrow> if yaml_defined y n then run_loaders (steps n) cfg else (None, cfg))"

definition client_fields :: "'n yaml \<Rightarrow> 'n \<Rightarrow> loader list" where
  "client_fields y n =
     [load_field y n ''listen_ip'' (yaml_as (yaml_string y))
        (\<lambda>v c. c\<lparr>client_config := (client_config c)\<lparr>client_listen_ip := v\<rparr>\<rparr>),
      load_field y n ''listen_port'' (yaml_as (yaml_int y))
        (\<lambda>v c. c\<lparr>client_config := (client_config c)\<lparr>client_listen_port := v\<rparr>\<rparr>)]"

definition monitor_fields :: "'n yaml \<Rightarrow> 'n \<Rightarrow> loader list" where
  "monitor_fields y n =
     [load_field y n ''listen_ip'' (yaml_as (yaml_string y))
        (\<lambda>v c. c\<lparr>monitor_config := (monitor_config c)\<lparr>monitor_listen_ip := v\<rparr>\<rparr>),
      load_field y n ''listen_port'' (yaml_as (yaml_int y))
        (\<lambda>v c. c\<lparr>monitor_config := (monitor_config c)\<lparr>monitor_listen_port := v\<rparr>\<rparr>),
      load_field y n ''token'' (yaml_as (yaml_string y))
        (\<lambda>v c. c\<lparr>monitor_config := (monitor_config c)\<lparr>monitor_token := v\<rparr>\<rparr>)]"

definition http_fields :: "'n yaml \<Rightarrow> 'n \<Rightarrow> loader list" where
  "http_fields y n =
     [load_field y n ''listen_ip'' (yaml_as (yaml_string y))
        (\<lambda>v c. c\<lparr>http_config := (http_config c)\<lparr>http_listen_ip := v\<rparr>\<rparr>),
      load_field y n ''listen_port'' (yaml_as (yaml_int y))
        (\<lambda>v c. c\<lparr>http_config := (http_config c)\<lparr>http_listen_port := v\<rparr>\<rparr>)]"

definition log_fields :: "'n yaml \<Rightarrow> 'n \<Rightarrow> loader list" where
  "log_fields y n =
     [load_field y n ''file_dir'' (yaml_as (yaml_string y))
        (\<lambda>v c. c\<lparr>log_config := (log_config c)\<lparr>log_file_dir := v\<rparr>\<rparr>),
      load_field y n ''file_name'' (yaml_as (yaml_string y))
        (\<lambda>v c. c\<lparr>log_config := (log_config c)\<lparr>log_file_name := v\<rparr>\<rparr>),
      load_field y n ''binary_package'' (yaml_as (yaml_bool y))
        (\<lambda>v c. c\<lparr>log_config := (log_config c)\<lparr>log_binary_package := v\<rparr>\<rparr>)]"

definition mysql_fields :: "'n yaml \<Rightarrow> 'n \<Rightarrow> loader list" where
  "mysql_fields y n =
     [load_field y n ''server_ip'' (yaml_as (yaml_string y))
        (\<lambda>v c. c\<lparr>mysql_config := (mysql_config c)\<lparr>mysql_server_addr := v\<rparr>\<rparr>),
      load_field y n ''server_port'' (yaml_stoi y)
        (\<lambda>v c. c\<lparr>mysql_config := (mysql_config c)\<lparr>mysql_server_port := v\<rparr>\<rparr>),
      load_field y n ''user'' (yaml_as (yaml_string y))
        (\<lambda>v c. c\<lparr>mysql_config := (mysql_config c)\<lparr>mysql_user := v\<rparr>\<rparr>),
      load_field y n ''password'' (yaml_as (yaml_string y))
        (\<lambda>v c. c\<lparr>mysql_config := (mysql_config c)\<lparr>mysql_password := v\<rparr>\<rparr>),
      load_field y n ''database'' (yaml_as (yaml_string y))
        (\<lambda>v c. c\<lparr>mysql_config := (mysql_config c)\<lparr>mysql_database := v\<rparr>\<rparr>)]"

text \<open>
  The result of the call is a truth value, or an exception that is not a
  \<^verbatim>\<open>YAML::Exception\<close> and leaves the function; the second component is what is written to
  the error output.
\<close>

definition whisp_load_config ::
  "'n yaml \<Rightarrow> string \<Rightarrow> WhispConfig \<Rightarrow> (std_error + bool) \<times> string \<times> WhispConfig" where
  "whisp_load_config y file_name cfg =
     (case yaml_load y file_name of
        Inl e \<Rightarrow> (Inr False, ''Error loading config file: '' @ e @ [CHR 0x0A], cfg)
      | Inr config \<Rightarrow>
          (case run_loaders
                  [load_section y config ''client'' (client_fields y), load_section y config ''monitor'' (monitor_fields y),
                   load_section y config ''http'' (http_fields y), load_section y config ''log'' (log_fields y),
                   load_section y config ''mysql'' (mysql_fields y)] cfg of
             (None, cfg1) \<Rightarrow> (Inr True, [], cfg1)
           | (Some (YamlException e), cfg1) \<Rightarrow> (Inr False, ''Error loading config file: '' @ e @ [CHR 0x0A], cfg1)
           | (Some (StdException e), cfg1) \<Rightarrow> (Inl e, [], cfg1)))"

definition line_of :: "string \<Rightarrow> string" where
  "line_of s = s @ [CHR 0x0A]"

definition whisp_print_config :: "WhispConfig \<Rightarrow> string" where
  "whisp_print_config cfg =
     line_of ''Client Config:'' @
     line_of (''  Listen IP: '' @ client_listen_ip (client_config cfg)) @
     line_of (''  Listen Port: '' @ dec_int (client_listen_port (client_config cfg))) @
     line_of ''Monitor Config:'' @
     line_of (''  Listen IP: '' @ monitor_listen_ip (monitor_config cfg)) @
     line_of (''  Listen Port: '' @ dec_int (monitor_listen_port (monitor_config cfg))) @
     line_of (''  Token: '' @ monitor_token (monitor_config cfg)) @
     line_of ''HTTP Config:'' @
     line_of (''  Listen IP: '' @ http_listen_ip (http_config cfg)) @
     line_of (''  Listen Port: '' @ dec_int (http_listen_port (http_config cfg))) @
     line_of ''Log Config:'' @
     line_of (''  File Directory: '' @ log_file_dir (log_config cfg)) @
     line_of (''  File Name: '' @ log_file_name (log_config cfg)) @
     line_of (''  Binary Package: '' @ (if log_binary_package (log_config cfg) then ''true'' else ''false'')) @
     line_of ''MySQL Config:'' @
     line_of (''  Server IP: '' @ mysql_server_addr (mysql_config cfg)) @
     line_of (''  Server Port: '' @ dec_int (mysql_server_port (mysql_config cfg))) @
     line_of (''  User: '' @ mysql_user (mysql_config cfg)) @
     line_of (''  Password: '' @ mysql_password (mysql_config cfg)) @
     line_of (''  Database: '' @ mysql_database (mysql_config cfg))"

section \<open>Lemmas\<close>

lemma is_digit_digit_char [simp]: "d < 10 \<Longrightarrow> is_digit (digit_char d)"
  by (simp add: is_digit_def of_digit_char)

lemma is_digit_dec_nat: "list_all is_digit (dec_nat n)"
  using dec_nat_chars by (fastforce simp: list_all_iff)

lemma dec_nat_not_empty [simp]: "dec_nat n \<noteq> []"
  by (subst dec_nat.simps) simp

lemma not_digit_space: "is_digit c \<Longrightarrow> \<not> is_space c \<and> c \<noteq> CHR ''-'' \<and> c \<noteq> CHR ''+''"
  by (auto simp: is_digit_def is_space_def Let_def)

lemma takeWhile_digits: "list_all is_digit ds \<Longrightarrow> takeWhile is_digit ds = ds"
  by (simp add: takeWhile_eq_all_conv list_all_iff)

lemma stoi_dec_int: "int32 n \<Longrightarrow> stoi (dec_int n) = Inr n"
proof -
  assume n: "int32 n"
  have c: "c_str (dec_int n) = dec_int n"
    using dec_int_no_nul [of n] by (auto simp: c_str_def takeWhile_eq_all_conv)
  have d: "takeWhile is_digit (dec_nat k) = dec_nat k" for k by (simp add: takeWhile_digits is_digit_dec_nat)
  obtain c cs where k: "dec_nat (nat \<bar>n\<bar>) = c # cs" by (cases "dec_nat (nat \<bar>n\<bar>)") simp_all
  then have dig: "is_digit c" using is_digit_dec_nat [of "nat \<bar>n\<bar>"] by simp
  show ?thesis
  proof (cases "n < 0")
    case True
    then have "sign_split (dropWhile is_space (dec_int n)) = (True, dec_nat (nat (- n)))"
      by (simp add: dec_int_def is_space_def)
    then show ?thesis using True n by (simp add: stoi_def c d)
  next
    case False
    then have "sign_split (dropWhile is_space (dec_int n)) = (False, dec_nat (nat n))"
      using k not_digit_space [OF dig] by (simp add: dec_int_def)
    then show ?thesis using False n by (simp add: stoi_def c d)
  qed
qed

lemma stoi_range: "stoi s = Inr v \<Longrightarrow> int32 v"
  by (auto simp: stoi_def Let_def split: prod.splits if_splits)

text \<open>
  A document: sections of named values, each a text that the library reads as it is, or as a
  number or a truth value by \<open>int_of\<close> and \<open>bool_of\<close>.
\<close>

definition yaml_document ::
  "'n yaml \<Rightarrow> (string \<Rightarrow> string + int) \<Rightarrow> (string \<Rightarrow> string + bool) \<Rightarrow> 'n \<Rightarrow> (string \<Rightarrow> string \<Rightarrow> string option) \<Rightarrow> bool" where
  "yaml_document y int_of bool_of config doc \<longleftrightarrow>
     (\<forall>s. \<exists>sec. yaml_child y config s = Inr sec \<and>
        (if yaml_defined y sec then
           \<forall>k. \<exists>n. yaml_child y sec k = Inr n \<and>
             (case doc s k of
                None \<Rightarrow> \<not> yaml_defined y n
              | Some t \<Rightarrow> yaml_defined y n \<and> yaml_string y n = Inr t \<and> yaml_int y n = int_of t \<and> yaml_bool y n = bool_of t)
         else \<forall>k. doc s k = None))"

definition pick :: "(string \<Rightarrow> string \<Rightarrow> string option) \<Rightarrow> string \<Rightarrow> string \<Rightarrow> (string \<Rightarrow> 'e + 'a) \<Rightarrow> 'a \<Rightarrow> 'a" where
  "pick doc s k conv old = (case doc s k of None \<Rightarrow> old | Some t \<Rightarrow> (case conv t of Inl _ \<Rightarrow> old | Inr v \<Rightarrow> v))"

definition readable :: "(string \<Rightarrow> string \<Rightarrow> string option) \<Rightarrow> string \<Rightarrow> string \<Rightarrow> (string \<Rightarrow> 'e + 'a) \<Rightarrow> bool" where
  "readable doc s k conv = (case doc s k of None \<Rightarrow> True | Some t \<Rightarrow> (case conv t of Inl _ \<Rightarrow> False | Inr _ \<Rightarrow> True))"

text \<open>The configuration that a document describes, on top of an earlier one.\<close>

definition described ::
  "(string \<Rightarrow> string + int) \<Rightarrow> (string \<Rightarrow> string + bool) \<Rightarrow> (string \<Rightarrow> string \<Rightarrow> string option) \<Rightarrow> WhispConfig \<Rightarrow> WhispConfig" where
  "described int_of bool_of doc cfg =
     (let txt = (\<lambda>s k old. pick doc s k (\<lambda>t. Inr t :: string + string) old)
      in \<lparr>client_config =
            \<lparr>client_listen_ip = txt ''client'' ''listen_ip'' (client_listen_ip (client_config cfg)),
             client_listen_port = pick doc ''client'' ''listen_port'' int_of (client_listen_port (client_config cfg))\<rparr>,
          monitor_config =
            \<lparr>monitor_listen_ip = txt ''monitor'' ''listen_ip'' (monitor_listen_ip (monitor_config cfg)),
             monitor_listen_port = pick doc ''monitor'' ''listen_port'' int_of (monitor_listen_port (monitor_config cfg)),
             monitor_token = txt ''monitor'' ''token'' (monitor_token (monitor_config cfg))\<rparr>,
          http_config =
            \<lparr>http_listen_ip = txt ''http'' ''listen_ip'' (http_listen_ip (http_config cfg)),
             http_listen_port = pick doc ''http'' ''listen_port'' int_of (http_listen_port (http_config cfg))\<rparr>,
          log_config =
            \<lparr>log_file_dir = txt ''log'' ''file_dir'' (log_file_dir (log_config cfg)),
             log_file_name = txt ''log'' ''file_name'' (log_file_name (log_config cfg)),
             log_binary_package = pick doc ''log'' ''binary_package'' bool_of (log_binary_package (log_config cfg))\<rparr>,
          mysql_config =
            \<lparr>mysql_server_addr = txt ''mysql'' ''server_ip'' (mysql_server_addr (mysql_config cfg)),
             mysql_server_port = pick doc ''mysql'' ''server_port'' stoi (mysql_server_port (mysql_config cfg)),
             mysql_user = txt ''mysql'' ''user'' (mysql_user (mysql_config cfg)),
             mysql_password = txt ''mysql'' ''password'' (mysql_password (mysql_config cfg)),
             mysql_database = txt ''mysql'' ''database'' (mysql_database (mysql_config cfg))\<rparr>\<rparr>)"

lemma load_field_doc:
  assumes "yaml_document y int_of bool_of config doc" and "yaml_child y config s = Inr sec" and "yaml_defined y sec"
    and "\<And>n t. yaml_string y n = Inr t \<Longrightarrow> yaml_int y n = int_of t \<Longrightarrow> yaml_bool y n = bool_of t \<Longrightarrow> as_value n = conv t"
  shows "load_field y sec k as_value f cfg =
    (case doc s k of None \<Rightarrow> (None, cfg)
     | Some t \<Rightarrow> (case conv t of Inl e \<Rightarrow> (Some e, cfg) | Inr v \<Rightarrow> (None, f v cfg)))"
proof -
  obtain n where n: "yaml_child y sec k = Inr n"
      "case doc s k of None \<Rightarrow> \<not> yaml_defined y n
       | Some t \<Rightarrow> yaml_defined y n \<and> yaml_string y n = Inr t \<and> yaml_int y n = int_of t \<and> yaml_bool y n = bool_of t"
  proof -
    obtain sec' where "yaml_child y config s = Inr sec'" "if yaml_defined y sec' then
        \<forall>k. \<exists>n. yaml_child y sec' k = Inr n \<and>
          (case doc s k of None \<Rightarrow> \<not> yaml_defined y n
           | Some t \<Rightarrow> yaml_defined y n \<and> yaml_string y n = Inr t \<and> yaml_int y n = int_of t \<and> yaml_bool y n = bool_of t)
      else \<forall>k. doc s k = None" using assms(1) unfolding yaml_document_def by blast
    then show thesis using assms(2,3) that by auto
  qed
  then show ?thesis using assms(4) [of n] by (cases "doc s k") (auto simp: load_field_def)
qed

text \<open>The four ways a field is read.\<close>

lemma load_fields_doc:
  assumes "yaml_document y int_of bool_of config doc" and "yaml_child y config s = Inr sec" and "yaml_defined y sec"
  shows "load_field y sec k (yaml_as (yaml_string y)) f cfg = (None, case doc s k of None \<Rightarrow> cfg | Some t \<Rightarrow> f t cfg)"
    and "readable doc s k int_of \<Longrightarrow> load_field y sec k (yaml_as (yaml_int y)) g cfg =
      (None, case doc s k of None \<Rightarrow> cfg | Some t \<Rightarrow> g (projr (int_of t)) cfg)"
    and "readable doc s k bool_of \<Longrightarrow> load_field y sec k (yaml_as (yaml_bool y)) h cfg =
      (None, case doc s k of None \<Rightarrow> cfg | Some t \<Rightarrow> h (projr (bool_of t)) cfg)"
    and "readable doc s k stoi \<Longrightarrow> load_field y sec k (yaml_stoi y) g cfg =
      (None, case doc s k of None \<Rightarrow> cfg | Some t \<Rightarrow> g (projr (stoi t)) cfg)"
  by (auto simp: load_field_doc [OF assms, where conv = Inr] load_field_doc [OF assms, where conv = "yaml_as int_of"]
      load_field_doc [OF assms, where conv = "yaml_as bool_of"]
      load_field_doc [OF assms, where conv = "\<lambda>t. case stoi t of Inl e \<Rightarrow> Inl (StdException e) | Inr v \<Rightarrow> Inr v"]
      yaml_as_def yaml_stoi_def readable_def split: option.splits sum.splits)

lemma load_section_doc:
  assumes "yaml_document y int_of bool_of config doc"
    and "\<And>sec. yaml_child y config s = Inr sec \<Longrightarrow> yaml_defined y sec \<Longrightarrow> run_loaders (steps sec) cfg = (None, f cfg)"
    and "\<forall>k. doc s k = None \<Longrightarrow> f cfg = cfg"
  shows "load_section y config s steps cfg = (None, f cfg)"
proof -
  obtain sec where "yaml_child y config s = Inr sec" "\<not> yaml_defined y sec \<longrightarrow> (\<forall>k. doc s k = None)"
    using assms(1) unfolding yaml_document_def by meson
  then show ?thesis using assms(2,3) by (auto simp: load_section_def)
qed

lemma load_client:
  assumes "yaml_document y int_of bool_of config doc" and "readable doc ''client'' ''listen_port'' int_of"
  shows "load_section y config ''client'' (client_fields y) cfg =
    (None, cfg\<lparr>client_config := client_config (described int_of bool_of doc cfg)\<rparr>)"
  using assms by (intro load_section_doc [OF assms(1)])
    (auto simp: client_fields_def load_fields_doc [OF assms(1)] described_def readable_def pick_def Let_def
      split: option.splits sum.splits)

lemma load_monitor:
  assumes "yaml_document y int_of bool_of config doc" and "readable doc ''monitor'' ''listen_port'' int_of"
  shows "load_section y config ''monitor'' (monitor_fields y) cfg =
    (None, cfg\<lparr>monitor_config := monitor_config (described int_of bool_of doc cfg)\<rparr>)"
  using assms by (intro load_section_doc [OF assms(1)])
    (auto simp: monitor_fields_def load_fields_doc [OF assms(1)] described_def readable_def pick_def Let_def
      split: option.splits sum.splits)

lemma load_http:
  assumes "yaml_document y int_of bool_of config doc" and "readable doc ''http'' ''listen_port'' int_of"
  shows "load_section y config ''http'' (http_fields y) cfg =
    (None, cfg\<lparr>http_config := http_config (described int_of bool_of doc cfg)\<rparr>)"
  using assms by (intro load_section_doc [OF assms(1)])
    (auto simp: http_fields_def load_fields_doc [OF assms(1)] described_def readable_def pick_def Let_def
      split: option.splits sum.splits)

lemma load_log:
  assumes "yaml_document y int_of bool_of config doc" and "readable doc ''log'' ''binary_package'' bool_of"
  shows "load_section y config ''log'' (log_fields y) cfg =
    (None, cfg\<lparr>log_config := log_config (described int_of bool_of doc cfg)\<rparr>)"
  using assms by (intro load_section_doc [OF assms(1)])
    (auto simp: log_fields_def load_fields_doc [OF assms(1)] described_def readable_def pick_def Let_def
      split: option.splits sum.splits)

lemma load_mysql:
  assumes "yaml_document y int_of bool_of config doc" and "readable doc ''mysql'' ''server_port'' stoi"
  shows "load_section y config ''mysql'' (mysql_fields y) cfg =
    (None, cfg\<lparr>mysql_config := mysql_config (described int_of bool_of doc cfg)\<rparr>)"
  using assms by (intro load_section_doc [OF assms(1)])
    (auto simp: mysql_fields_def load_fields_doc [OF assms(1)] described_def readable_def pick_def Let_def
      split: option.splits sum.splits)

text \<open>Loaders that keep a property of the configuration.\<close>

definition keeps :: "(WhispConfig \<Rightarrow> bool) \<Rightarrow> loader \<Rightarrow> bool" where
  "keeps P l \<longleftrightarrow> (\<forall>cfg. P cfg \<longrightarrow> P (snd (l cfg)))"

lemma run_loaders_keeps: "list_all (keeps P) ls \<Longrightarrow> keeps P (run_loaders ls)"
proof (induction ls)
  case (Cons l ls)
  then show ?case by (auto simp: keeps_def split: prod.split option.split)
qed (simp add: keeps_def)

lemma load_section_keeps: "(\<And>n. list_all (keeps P) (steps n)) \<Longrightarrow> keeps P (load_section y config s steps)"
  using run_loaders_keeps by (fastforce simp: keeps_def load_section_def split: sum.split)

lemma load_field_keeps:
  "(\<And>n v cfg. as_value n = Inr v \<Longrightarrow> P cfg \<Longrightarrow> P (f v cfg)) \<Longrightarrow> keeps P (load_field y sec k as_value f)"
  by (auto simp: keeps_def load_field_def split: sum.split)

text \<open>The members of type \<^verbatim>\<open>int\<close> hold values of that type.\<close>

definition config_typed :: "WhispConfig \<Rightarrow> bool" where
  "config_typed cfg \<longleftrightarrow>
     int32 (client_listen_port (client_config cfg)) \<and> int32 (monitor_listen_port (monitor_config cfg)) \<and>
     int32 (http_listen_port (http_config cfg)) \<and> int32 (mysql_server_port (mysql_config cfg))"

lemma fields_typed:
  assumes "\<forall>n v. yaml_int y n = Inr v \<longrightarrow> int32 v"
  shows "list_all (keeps config_typed) (client_fields y n)" "list_all (keeps config_typed) (monitor_fields y n)"
    "list_all (keeps config_typed) (http_fields y n)" "list_all (keeps config_typed) (log_fields y n)"
    "list_all (keeps config_typed) (mysql_fields y n)"
proof -
  have int: "yaml_as (yaml_int y) n = Inr v \<Longrightarrow> int32 v" "yaml_stoi y n = Inr v \<Longrightarrow> int32 v" for n v
    using assms stoi_range by (auto simp: yaml_as_def yaml_stoi_def split: sum.splits)
  show "list_all (keeps config_typed) (client_fields y n)" "list_all (keeps config_typed) (monitor_fields y n)"
    "list_all (keeps config_typed) (http_fields y n)" "list_all (keeps config_typed) (log_fields y n)"
    "list_all (keeps config_typed) (mysql_fields y n)"
    by (auto simp: client_fields_def monitor_fields_def http_fields_def log_fields_def mysql_fields_def config_typed_def
      intro!: load_field_keeps dest: int)
qed

lemma loads_described:
  assumes "yaml_load y file = Inr config" and "yaml_document y int_of bool_of config doc"
    and "readable doc ''client'' ''listen_port'' int_of" and "readable doc ''monitor'' ''listen_port'' int_of"
    and "readable doc ''http'' ''listen_port'' int_of" and "readable doc ''log'' ''binary_package'' bool_of"
    and "readable doc ''mysql'' ''server_port'' stoi"
  shows "whisp_load_config y file cfg = (Inr True, [], described int_of bool_of doc cfg)"
  using assms by (simp add: whisp_load_config_def load_client load_monitor load_http load_log load_mysql)
    (simp add: described_def Let_def)

section \<open>Properties\<close>

text \<open>
  C22: Loading a document in which every number and truth value that is present can be read succeeds
  and gives the configuration the document describes; fields it does not mention keep their
  value.
\<close>

theorem config_loaded:
  assumes "yaml_load y file = Inr config" and "yaml_document y int_of bool_of config doc"
    and "readable doc ''client'' ''listen_port'' int_of" and "readable doc ''monitor'' ''listen_port'' int_of"
    and "readable doc ''http'' ''listen_port'' int_of" and "readable doc ''log'' ''binary_package'' bool_of"
    and "readable doc ''mysql'' ''server_port'' stoi"
  shows "whisp_load_config y file cfg = (Inr True, [], described int_of bool_of doc cfg)"
  using loads_described [OF assms] .


text \<open>
  A database port that is not a number leaves the function as an exception the handler does not
  catch, with the fields before it assigned.
\<close>

lemma bad_port_escapes:
  assumes "yaml_load y file = Inr config" and "yaml_document y int_of bool_of config doc"
    and "readable doc ''client'' ''listen_port'' int_of" and "readable doc ''monitor'' ''listen_port'' int_of"
    and "readable doc ''http'' ''listen_port'' int_of" and "readable doc ''log'' ''binary_package'' bool_of"
    and "doc ''mysql'' ''server_port'' = Some t" and "stoi t = Inl e"
  shows "fst (whisp_load_config y file cfg) = Inl e \<and>
    client_config (snd (snd (whisp_load_config y file cfg))) = client_config (described int_of bool_of doc cfg)"
proof -
  obtain sec where sec: "yaml_child y config ''mysql'' = Inr sec" "yaml_defined y sec \<or> (\<forall>k. doc ''mysql'' k = None)"
    using assms(2) unfolding yaml_document_def by meson
  then have d: "yaml_defined y sec" using assms(7) by auto
  have "\<And>n t. yaml_string y n = Inr t \<Longrightarrow> yaml_stoi y n = (case stoi t of Inl e \<Rightarrow> Inl (StdException e) | Inr v \<Rightarrow> Inr v)"
    by (simp add: yaml_stoi_def)
  note port = load_field_doc [OF assms(2) sec(1) d, where as_value = "yaml_stoi y" and k = "''server_port''", OF this]
  have "\<exists>c'. load_section y config ''mysql'' (mysql_fields y) c = (Some (StdException e), c') \<and> client_config c' = client_config c" for c
    using assms(7,8) sec(1) d
    by (simp add: load_section_def mysql_fields_def load_fields_doc(1) [OF assms(2) sec(1) d] port split: option.splits)
  then obtain c' where c': "load_section y config ''mysql'' (mysql_fields y)
      (cfg\<lparr>client_config := client_config (described int_of bool_of doc cfg),
        monitor_config := monitor_config (described int_of bool_of doc cfg),
        http_config := http_config (described int_of bool_of doc cfg),
        log_config := log_config (described int_of bool_of doc cfg)\<rparr>) = (Some (StdException e), c')"
      "client_config c' = client_config (described int_of bool_of doc cfg)" by fastforce
  have "monitor_config (described int_of bool_of doc (c\<lparr>client_config := v\<rparr>)) = monitor_config (described int_of bool_of doc c)"
      "http_config (described int_of bool_of doc (c\<lparr>client_config := v, monitor_config := w\<rparr>)) = http_config (described int_of bool_of doc c)"
      "log_config (described int_of bool_of doc (c\<lparr>client_config := v, monitor_config := w, http_config := x\<rparr>)) = log_config (described int_of bool_of doc c)"
    for c v w x by (simp_all add: described_def Let_def)
  then show ?thesis using assms(1-6) c'
    by (simp add: whisp_load_config_def load_client load_monitor load_http load_log)
qed

text \<open>A document with two numbers.\<close>

definition demo_doc :: "string \<Rightarrow> string \<Rightarrow> string option" where
  "demo_doc s k = map_of [((''http'', ''listen_port''), ''12345''), ((''mysql'', ''server_port''), ''6603'')] (s, k)"

definition demo_int :: "string \<Rightarrow> string + int" where
  "demo_int t = (case stoi t of Inl _ \<Rightarrow> Inl ''bad conversion'' | Inr v \<Rightarrow> Inr v)"

definition demo_value :: "(string \<Rightarrow> string + 'a) \<Rightarrow> string list \<Rightarrow> string + 'a" where
  "demo_value f n = (case n of [s, k] \<Rightarrow> (case demo_doc s k of None \<Rightarrow> Inl ''bad conversion'' | Some t \<Rightarrow> f t) | _ \<Rightarrow> Inl ''bad conversion'')"

definition demo_yaml :: "string list yaml" where
  "demo_yaml =
     \<lparr>yaml_load = (\<lambda>f. Inr []), yaml_child = (\<lambda>n k. Inr (n @ [k])),
      yaml_defined = (\<lambda>n. case n of [s, k] \<Rightarrow> demo_doc s k \<noteq> None | _ \<Rightarrow> True),
      yaml_string = demo_value Inr, yaml_int = demo_value demo_int, yaml_bool = demo_value (\<lambda>t. Inr False)\<rparr>"

definition empty_config :: WhispConfig where
  "empty_config =
     \<lparr>client_config = \<lparr>client_listen_ip = [], client_listen_port = 0\<rparr>,
      monitor_config = \<lparr>monitor_listen_ip = [], monitor_listen_port = 0, monitor_token = []\<rparr>,
      http_config = \<lparr>http_listen_ip = [], http_listen_port = 0\<rparr>,
      log_config = \<lparr>log_file_dir = [], log_file_name = [], log_binary_package = False\<rparr>,
      mysql_config = \<lparr>mysql_server_addr = [], mysql_server_port = 0, mysql_user = [], mysql_password = [], mysql_database = []\<rparr>\<rparr>"

lemma stoi_demo: "stoi ''12345'' = Inr 12345" "stoi ''6603'' = Inr 6603"
  by code_simp+

lemma demo_document: "yaml_document demo_yaml demo_int (\<lambda>t. Inr False) [] demo_doc"
  by (auto simp: yaml_document_def demo_yaml_def demo_value_def split: option.split)

theorem config_loaded_witness:
  "whisp_load_config demo_yaml ''server_config.yml'' empty_config = (Inr True, [],
     empty_config\<lparr>http_config := (http_config empty_config)\<lparr>http_listen_port := 12345\<rparr>,
       mysql_config := (mysql_config empty_config)\<lparr>mysql_server_port := 6603\<rparr>\<rparr>)"
proof -
  have "yaml_load demo_yaml ''server_config.yml'' = Inr []" by (simp add: demo_yaml_def)
  from config_loaded [OF this demo_document, of empty_config] show ?thesis
    by (simp add: readable_def demo_doc_def demo_int_def stoi_demo described_def pick_def empty_config_def)
qed


end
