(* ===== verification/Whisp_Log.thy ===== *)
theory Whisp_Log
  imports Talko_Prelude "HOL-Library.Sublist"
begin

text \<open>
  \<^verbatim>\<open>WhispLog\<close> of \<^verbatim>\<open>log/whisp_log.{h,cpp}\<close>: lines are formatted by the calling thread and
  queued; a writer thread prints them and appends them to a log file, which it replaces when
  it has grown to the roll size. The disk is a map from file names to contents, standard
  output a list of lines. What the system supplies is an argument: the formatted text
  (\<^verbatim>\<open>vsnprintf\<close>, \<open>None\<close> for a negative result), the local time, the thread id, the
  success of \<^verbatim>\<open>fopen\<close> and the results of \<^verbatim>\<open>fwrite\<close>.

  The writer thread is a step relation, interleaved with the other threads at the points the
  mutex allows. The lists \<open>accepted\<close>, \<open>taken\<close>, \<open>created\<close> and \<open>on_file\<close> are history
  variables.
\<close>

section \<open>State\<close>

datatype LOG_LEVEL = LOG_LEVEL_TRACE | LOG_LEVEL_DEBUG | LOG_LEVEL_INFO | LOG_LEVEL_WARNING
  | LOG_LEVEL_ERROR | LOG_LEVEL_SYSERROR | LOG_LEVEL_FATAL | LOG_LEVEL_CRITICAL

fun level_num :: "LOG_LEVEL \<Rightarrow> nat" where
  "level_num LOG_LEVEL_TRACE = 0" | "level_num LOG_LEVEL_DEBUG = 1" | "level_num LOG_LEVEL_INFO = 2"
| "level_num LOG_LEVEL_WARNING = 3" | "level_num LOG_LEVEL_ERROR = 4" | "level_num LOG_LEVEL_SYSERROR = 5"
| "level_num LOG_LEVEL_FATAL = 6" | "level_num LOG_LEVEL_CRITICAL = 7"

definition MAX_LOG_LINE_LENGTH :: nat where "MAX_LOG_LINE_LENGTH = 256"

datatype writer_pc = Unstarted | Starting | Top | Take | Ended

record whisp_log =
  log_file :: "string option"
  log_name :: string
  log_id :: string
  truncate_flag :: bool
  cur_level :: LOG_LEVEL
  roll_size :: nat
  writen_size :: nat
  write_wating_lists :: "string list"
  exit_flag :: bool
  running_flag :: bool
  disk :: "string \<rightharpoonup> string"
  stdout :: "string list"
  writer :: writer_pc
  accepted :: "string list"
  taken :: "string list"
  created :: "string list"
  on_file :: "string list"

text \<open>
  \<^verbatim>\<open>log_init\<close> starts the writer thread; the list of waiting lines is a member the call does
  not touch. \<open>pid\<close> is the process number.
\<close>

definition log_init :: "string option \<Rightarrow> bool \<Rightarrow> nat \<Rightarrow> int \<Rightarrow> whisp_log \<Rightarrow> bool \<times> whisp_log" where
  "log_init log_file_name truncate_arg roll_arg pid l =
     (True, l\<lparr>truncate_flag := truncate_arg, roll_size := roll_arg,
        log_name := (case log_file_name of None \<Rightarrow> [] | Some n \<Rightarrow> n),
        log_id := snprintf 8 (zero_pad 5 pid), log_file := None, cur_level := LOG_LEVEL_INFO, writen_size := 0,
        exit_flag := False, running_flag := False, writer := Starting\<rparr>)"

text \<open>\<^verbatim>\<open>log_uninit\<close> before and after it waits for the writer thread.\<close>

definition log_uninit_begin :: "whisp_log \<Rightarrow> whisp_log" where
  "log_uninit_begin l = l\<lparr>running_flag := False, exit_flag := True\<rparr>"

definition log_uninit_end :: "whisp_log \<Rightarrow> whisp_log" where
  "log_uninit_end l = l\<lparr>log_file := None\<rparr>"

definition log_set_level :: "LOG_LEVEL \<Rightarrow> whisp_log \<Rightarrow> whisp_log" where
  "log_set_level levelv l =
     (if level_num levelv < level_num LOG_LEVEL_TRACE \<or> level_num levelv > level_num LOG_LEVEL_FATAL then l
      else l\<lparr>cur_level := levelv\<rparr>)"

definition log_isrunning :: "whisp_log \<Rightarrow> bool" where
  "log_isrunning l = running_flag l"

section \<open>Lines\<close>

record local_time =
  tm_year :: int
  tm_mon :: int
  tm_mday :: int
  tm_hour :: int
  tm_min :: int
  tm_sec :: int

definition get_time :: "local_time \<Rightarrow> int \<Rightarrow> string" where
  "get_time t usec = snprintf 64
     (''['' @ zero_pad 4 (tm_year t + 1900) @ ''-'' @ zero_pad 2 (tm_mon t + 1) @ ''-'' @ zero_pad 2 (tm_mday t) @ '' '' @
      zero_pad 2 (tm_hour t) @ '':'' @ zero_pad 2 (tm_min t) @ '':'' @ zero_pad 2 (tm_sec t) @ '':'' @
      zero_pad 3 (usec div 1000) @ '']'')"

fun level_tag :: "LOG_LEVEL \<Rightarrow> string" where
  "level_tag LOG_LEVEL_TRACE = ''[TRACE]''"
| "level_tag LOG_LEVEL_DEBUG = ''[DEBUG]''"
| "level_tag LOG_LEVEL_INFO = ''[INFO]''"
| "level_tag LOG_LEVEL_WARNING = ''[WARN]''"
| "level_tag LOG_LEVEL_ERROR = ''[ERROR]''"
| "level_tag LOG_LEVEL_SYSERROR = ''[SYSE]''"
| "level_tag LOG_LEVEL_FATAL = ''[FATAL]''"
| "level_tag LOG_LEVEL_CRITICAL = ''[CRITICAL]''"

definition set_line_perfix :: "LOG_LEVEL \<Rightarrow> local_time \<Rightarrow> int \<Rightarrow> string \<Rightarrow> string" where
  "set_line_perfix levelv t usec tid =
     level_tag levelv @ ''['' @ get_time t usec @ '']'' @ snprintf 32 (''['' @ c_str tid @ '']'')"

text \<open>The name of a new log file; \<^verbatim>\<open>strftime\<close> prints the time to the second.\<close>

definition log_file_time :: "local_time \<Rightarrow> string" where
  "log_file_time t = zero_pad 4 (tm_year t + 1900) @ zero_pad 2 (tm_mon t + 1) @ zero_pad 2 (tm_mday t) @
     zero_pad 2 (tm_hour t) @ zero_pad 2 (tm_min t) @ zero_pad 2 (tm_sec t)"

definition new_log_file :: "local_time \<Rightarrow> whisp_log \<Rightarrow> string" where
  "new_log_file t l = log_name l @ ''.'' @ log_file_time t @ ''.'' @ log_id l @ ''.log''"

text \<open>\<^verbatim>\<open>fopen\<close> with mode \<^verbatim>\<open>w+\<close> empties an existing file.\<close>

definition create_file :: "bool \<Rightarrow> string \<Rightarrow> whisp_log \<Rightarrow> bool \<times> whisp_log" where
  "create_file ok fname l =
     (if ok then (True, l\<lparr>log_file := Some fname, disk := (disk l)(fname \<mapsto> []), created := created l @ [fname]\<rparr>)
      else (False, l\<lparr>log_file := None\<rparr>))"

text \<open>
  The loop of \<^verbatim>\<open>write2file\<close>; \<open>rets\<close> tells how many bytes the system takes at each call
  of \<^verbatim>\<open>fwrite\<close>, which returns no more than it was given. When the list is used up before
  the data is, the loop has not ended.
\<close>

fun write_loop :: "nat list \<Rightarrow> string \<Rightarrow> string \<Rightarrow> (bool \<times> string) option" where
  "write_loop [] tmp content = None"
| "write_loop (r # rets) tmp content =
     (let ret = int (min r (length tmp))
      in if ret < 0 then Some (False, content)
         else let content' = content @ take (nat ret) tmp;
                  tmp' = (if ret \<le> int (length tmp) then drop (nat ret) tmp else tmp)
              in if tmp' = [] then Some (True, content') else write_loop rets tmp' content')"

definition write2file :: "nat list \<Rightarrow> string \<Rightarrow> whisp_log \<Rightarrow> (bool \<times> whisp_log) option" where
  "write2file rets data l =
     (case log_file l of
        None \<Rightarrow> None
      | Some f \<Rightarrow>
          map_option (\<lambda>(ok, content). (ok, l\<lparr>disk := (disk l)(f \<mapsto> content), on_file := on_file l @ [data]\<rparr>))
            (write_loop rets data (case disk l f of None \<Rightarrow> [] | Some c \<Rightarrow> c)))"

section \<open>Output\<close>

definition enqueue :: "string \<Rightarrow> whisp_log \<Rightarrow> whisp_log" where
  "enqueue s l = l\<lparr>write_wating_lists := write_wating_lists l @ [s], accepted := accepted l @ [s]\<rparr>"

text \<open>The common end of the two overloads; the record carries what the system supplies.\<close>

record sys_out =
  so_time :: local_time
  so_usec :: int
  so_tid :: string
  so_fopen :: bool
  so_fwrite :: "nat list"

definition emit_line :: "sys_out \<Rightarrow> LOG_LEVEL \<Rightarrow> string \<Rightarrow> whisp_log \<Rightarrow> (bool \<times> whisp_log) option" where
  "emit_line so levelv out_line l =
     (let line = (if log_name l \<noteq> [] then out_line @ [CHR 0x0A] else out_line)
      in if levelv \<noteq> LOG_LEVEL_FATAL then Some (True, enqueue line l)
         else let l1 = l\<lparr>stdout := stdout l @ [line]\<rparr>
              in if log_name l1 = [] then Some (True, l1)
                 else case (if log_file l1 = None then create_file (so_fopen so) (new_log_file (so_time so) l1) l1
                            else (True, l1)) of
                        (False, l2) \<Rightarrow> Some (False, l2)
                      | (True, l2) \<Rightarrow> map_option (\<lambda>(_, l3). (True, l3)) (write2file (so_fwrite so) line l2))"

text \<open>The formatted text with the terminating zero that \<^verbatim>\<open>msg_len + 1\<close> characters include.\<close>

definition log_output :: "sys_out \<Rightarrow> LOG_LEVEL \<Rightarrow> string option \<Rightarrow> whisp_log \<Rightarrow> (bool \<times> whisp_log) option" where
  "log_output so levelv text l =
     (if level_num levelv < level_num (cur_level l) \<and> levelv \<noteq> LOG_LEVEL_CRITICAL then Some (False, l)
      else case text of
             None \<Rightarrow> Some (False, l)
           | Some msg \<Rightarrow>
               let output_line = set_line_perfix levelv (so_time so) (so_usec so) (so_tid so) @ msg @ [CHR 0x00]
               in emit_line so levelv
                    (if truncate_flag l then take MAX_LOG_LINE_LENGTH output_line else output_line) l)"

definition log_output_at ::
  "sys_out \<Rightarrow> LOG_LEVEL \<Rightarrow> string \<Rightarrow> int \<Rightarrow> string option \<Rightarrow> whisp_log \<Rightarrow> (bool \<times> whisp_log) option" where
  "log_output_at so levelv file_name line_num text l =
     (if level_num levelv < level_num (cur_level l) \<and> levelv \<noteq> LOG_LEVEL_CRITICAL then Some (False, l)
      else case text of
             None \<Rightarrow> Some (False, l)
           | Some msg \<Rightarrow>
               let file_info = snprintf 512 (''['' @ c_str file_name @ '':'' @ dec_int line_num @ '']'');
                   log_msg = (if truncate_flag l then take MAX_LOG_LINE_LENGTH (msg @ [CHR 0x00]) else msg @ [CHR 0x00])
               in emit_line so levelv
                    (set_line_perfix levelv (so_time so) (so_usec so) (so_tid so) @ file_info @ log_msg) l)"

section \<open>Hexadecimal dumps\<close>

definition ull2str :: "nat \<Rightarrow> string" where
  "ull2str n = zero_pad 6 (int n)"

definition magic_num :: string where "magic_num = ''0123456789abcdef''"

definition hex_byte :: "byte \<Rightarrow> string" where
  "hex_byte b = [magic_num ! unat (drop_bit 4 b AND 15), magic_num ! unat (b AND 15)]"

text \<open>
  The loop of \<^verbatim>\<open>form_log\<close> over the bytes from position \<open>lsize\<close> on; \<open>headed\<close> tells that
  \<^verbatim>\<open>head_len\<close> is not 0.
\<close>

fun form_loop :: "nat \<Rightarrow> nat \<Rightarrow> bool \<Rightarrow> nat \<Rightarrow> string \<Rightarrow> byte list \<Rightarrow> nat \<times> string" where
  "form_loop buf_size lsize headed idx buf [] = (idx, buf)"
| "form_loop buf_size lsize headed idx buf (b # bs) =
     (if length buf + 10 < buf_size then
        (let (headed1, idx1, buf1) =
               (if lsize mod 32 = 0
                then (True, idx + 1, buf @ (if headed then [CHR 0x0A] else []) @ ull2str idx @ '' '')
                else (headed, idx, buf));
             buf2 = (if lsize mod 16 = 0 \<and> headed1 then buf1 @ '' '' else buf1)
         in form_loop buf_size (lsize + 1) headed1 idx1 (buf2 @ hex_byte b) bs)
      else (idx, buf))"

definition form_log :: "nat \<Rightarrow> nat \<Rightarrow> byte list \<Rightarrow> nat \<times> string" where
  "form_log idx buf_size bytes =
     (case form_loop buf_size 0 False idx [] bytes of (idx', buf) \<Rightarrow> (idx', buf @ [CHR 0x0A]))"

definition PRINT_SIZE :: nat where "PRINT_SIZE = 512"

function dump_loop :: "nat \<Rightarrow> byte list \<Rightarrow> string" where
  "dump_loop idx bytes =
     (if bytes = [] then []
      else case form_log idx (PRINT_SIZE * 3 + 8) (take PRINT_SIZE bytes) of
             (idx', tmpbuf) \<Rightarrow> tmpbuf @ dump_loop idx' (drop PRINT_SIZE bytes))"
  by pat_completeness auto

termination dump_loop
  by (relation "measure (\<lambda>(idx, bytes). length bytes)") (auto simp: PRINT_SIZE_def)

declare dump_loop.simps [simp del]

text \<open>\<open>address\<close> is the buffer's address printed as a \<^verbatim>\<open>long\<close>.\<close>

definition log_output_binary :: "int \<Rightarrow> byte list \<Rightarrow> whisp_log \<Rightarrow> bool \<times> whisp_log" where
  "log_output_binary address bytes l =
     (True, enqueue (''address['' @ dec_int address @ ''] size['' @ dec_int (int (length bytes)) @ ''] '' @ [CHR 0x0A] @
        dump_loop 0 bytes) l)"

section \<open>The writer thread\<close>

text \<open>One pass over the head of the loop, and one line taken from the list, which the mutex protects.\<close>

definition roll_file :: "bool \<Rightarrow> local_time \<Rightarrow> whisp_log \<Rightarrow> whisp_log" where
  "roll_file fopen_ok t l =
     (if log_name l \<noteq> [] \<and> (log_file l = None \<or> writen_size l \<ge> roll_size l) then
        let l1 = l\<lparr>writen_size := 0\<rparr>
        in case create_file fopen_ok (new_log_file t l1) l1 of
             (True, l2) \<Rightarrow> l2\<lparr>writer := Take\<rparr>
           | (False, l2) \<Rightarrow> l2\<lparr>writer := Ended\<rparr>
      else l\<lparr>writer := Take\<rparr>)"

definition take_line :: "nat list \<Rightarrow> whisp_log \<Rightarrow> whisp_log option" where
  "take_line rets l =
     (case write_wating_lists l of
        [] \<Rightarrow> if exit_flag l then Some (l\<lparr>writer := Ended\<rparr>) else None
      | out_line # rest \<Rightarrow>
          let l1 = l\<lparr>write_wating_lists := rest, stdout := stdout l @ [out_line], taken := taken l @ [out_line]\<rparr>
          in if log_name l1 = [] then Some (l1\<lparr>writer := Top\<rparr>)
             else case write2file rets out_line l1 of
                    None \<Rightarrow> None
                  | Some (False, l2) \<Rightarrow> Some (l2\<lparr>writer := Ended\<rparr>)
                  | Some (True, l2) \<Rightarrow> Some (l2\<lparr>writen_size := writen_size l2 + length out_line, writer := Top\<rparr>))"

inductive log_step :: "whisp_log \<Rightarrow> whisp_log \<Rightarrow> bool" where
  begin_writer: "writer l = Starting \<Longrightarrow> log_step l (l\<lparr>running_flag := True, writer := Top\<rparr>)"
| roll: "writer l = Top \<Longrightarrow> log_step l (roll_file ok t l)"
| take_one: "writer l = Take \<Longrightarrow> take_line rets l = Some l' \<Longrightarrow> log_step l l'"
| out_plain: "log_output so lev text l = Some (ok, l') \<Longrightarrow> log_step l l'"
| out_at: "log_output_at so lev file line text l = Some (ok, l') \<Longrightarrow> log_step l l'"
| binary: "log_step l (snd (log_output_binary addr bytes l))"
| level: "log_step l (log_set_level lev l)"
| uninit: "log_step l (log_uninit_begin l)"

definition fresh_log :: whisp_log where
  "fresh_log =
     \<lparr>log_file = None, log_name = [], log_id = [], truncate_flag = False, cur_level = LOG_LEVEL_INFO,
      roll_size = 0, writen_size = 0, write_wating_lists = [], exit_flag = False, running_flag = False,
      disk = Map.empty, stdout = [], writer = Unstarted, accepted = [], taken = [], created = [], on_file = []\<rparr>"

inductive log_reachable :: "string option \<Rightarrow> nat \<Rightarrow> whisp_log \<Rightarrow> bool" for nm roll where
  init: "log_reachable nm roll (snd (log_init nm trunc roll pid fresh_log))"
| step: "log_reachable nm roll l \<Longrightarrow> log_step l l' \<Longrightarrow> log_reachable nm roll l'"

section \<open>Every line once, in order\<close>

lemma write2file_frame:
  "write2file rets d l = Some (ok, l') \<Longrightarrow>
    \<exists>f c. log_file l = Some f \<and> write_loop rets d (case disk l f of None \<Rightarrow> [] | Some c \<Rightarrow> c) = Some (ok, c) \<and>
      l' = l\<lparr>disk := (disk l)(f \<mapsto> c), on_file := on_file l @ [d]\<rparr>"
  by (auto simp: write2file_def split: option.splits)

lemma create_file_frame:
  "create_file ok f l = (r, l') \<Longrightarrow>
    write_wating_lists l' = write_wating_lists l \<and> accepted l' = accepted l \<and> taken l' = taken l \<and>
    writer l' = writer l \<and> writen_size l' = writen_size l \<and> on_file l' = on_file l \<and> log_name l' = log_name l \<and>
    roll_size l' = roll_size l \<and> log_id l' = log_id l"
  by (auto simp: create_file_def split: if_splits)

lemma emit_line_queue:
  "emit_line so lev s l = Some (ok, l') \<Longrightarrow> accepted l = taken l @ write_wating_lists l \<Longrightarrow>
    accepted l' = taken l' @ write_wating_lists l'"
  by (auto simp: emit_line_def enqueue_def Let_def create_file_def split: if_splits option.splits prod.splits
      dest!: write2file_frame)

lemma take_line_queue:
  "take_line rets l = Some l' \<Longrightarrow> accepted l = taken l @ write_wating_lists l \<Longrightarrow>
    accepted l' = taken l' @ write_wating_lists l'"
  by (auto simp: take_line_def Let_def split: list.splits if_splits option.splits prod.splits bool.splits
      dest!: write2file_frame)

lemma log_step_queue:
  "log_step l l' \<Longrightarrow> accepted l = taken l @ write_wating_lists l \<Longrightarrow> accepted l' = taken l' @ write_wating_lists l'"
proof (induction rule: log_step.induct)
  case (roll l ok t)
  then show ?case
    by (auto simp: roll_file_def Let_def create_file_def split: if_splits prod.splits bool.splits)
next
  case (take_one l rets l')
  then show ?case using take_line_queue by blast
next
  case (out_plain so lev m l ok l')
  then show ?case using emit_line_queue by (auto simp: log_output_def Let_def split: if_splits option.splits)
next
  case (out_at so lev fl ln m l ok l')
  then show ?case using emit_line_queue by (auto simp: log_output_at_def Let_def split: if_splits option.splits)
qed (auto simp: log_output_binary_def enqueue_def log_set_level_def log_uninit_begin_def)

lemma log_reachable_queue: "log_reachable nm roll l \<Longrightarrow> accepted l = taken l @ write_wating_lists l"
proof (induction rule: log_reachable.induct)
  case init
  then show ?case by (simp add: log_init_def fresh_log_def)
next
  case step
  then show ?case using log_step_queue by blast
qed

section \<open>The files\<close>

lemma write_loop_appends: "write_loop rets tmp c = Some (ok, c') \<Longrightarrow> ok \<and> c' = c @ tmp"
proof (induction rets tmp c rule: write_loop.induct)
  case (2 r rets tmp content)
  then show ?case by (simp add: Let_def split: if_splits)
qed simp

lemma write_loop_Cons:
  "write_loop (r # rets) tmp c =
    (if drop r tmp = [] then Some (True, c @ take r tmp) else write_loop rets (drop r tmp) (c @ take r tmp))"
  by (simp add: Let_def min_def)

declare write_loop.simps(2) [simp del] write_loop_Cons [simp]

lemma write_loop_progress: "r > 0 \<Longrightarrow> length tmp \<le> k \<Longrightarrow> \<exists>c'. write_loop (replicate (Suc k) r) tmp c = Some (True, c')"
proof (induction k arbitrary: tmp c)
  case (Suc k)
  show ?case
  proof (cases "drop r tmp = []")
    case True
    then show ?thesis by simp
  next
    case False
    have "length (drop r tmp) \<le> k" using Suc.prems by simp
    then obtain c' where "write_loop (replicate (Suc k) r) (drop r tmp) (c @ take r tmp) = Some (True, c')"
      using Suc.IH [of "drop r tmp" "c @ take r tmp"] Suc.prems(1) by blast
    then show ?thesis using False by (simp only: replicate_Suc [of "Suc k"] write_loop_Cons if_False) simp
  qed
qed simp

definition contents :: "whisp_log \<Rightarrow> string \<Rightarrow> string" where
  "contents l f = (case disk l f of None \<Rightarrow> [] | Some c \<Rightarrow> c)"

definition file_inv :: "whisp_log \<Rightarrow> bool" where
  "file_inv l \<longleftrightarrow>
     concat (map (contents l) (created l)) = concat (on_file l) \<and> subseq (taken l) (on_file l) \<and>
     (case log_file l of
        None \<Rightarrow> writen_size l = 0 \<and> (\<forall>g \<in> set (created l). roll_size l \<le> length (contents l g))
      | Some f \<Rightarrow> (\<exists>fs. created l = fs @ [f] \<and> (\<forall>g \<in> set fs. roll_size l \<le> length (contents l g))) \<and>
          writen_size l \<le> length (contents l f))"

text \<open>The invariant concerns logs on file in runs whose files have different names.\<close>

definition files_ok :: "whisp_log \<Rightarrow> bool" where
  "files_ok l \<longleftrightarrow> (log_name l \<noteq> [] \<and> distinct (created l) \<longrightarrow> file_inv l)"

lemma file_inv_frame:
  assumes "created l' = created l" "disk l' = disk l" "on_file l' = on_file l" "taken l' = taken l"
    "log_file l' = log_file l" "writen_size l' = writen_size l" "roll_size l' = roll_size l" "log_name l' = log_name l"
  shows "files_ok l' = files_ok l"
proof -
  have "contents l' = contents l" using assms(2) by (simp add: contents_def [abs_def])
  then show ?thesis unfolding files_ok_def file_inv_def by (simp only: assms)
qed

lemma create_ok:
  assumes "files_ok l" and "log_file l = None \<or> roll_size l \<le> writen_size l"
    and "create_file ok f (l\<lparr>writen_size := w\<rparr>) = (r, l')" and "w = 0 \<or> log_file l = None \<and> w = writen_size l"
  shows "files_ok l'"
proof (cases "log_name l \<noteq> [] \<and> distinct (created l') \<and> ok")
  case True
  then have c: "created l' = created l @ [f]" "log_file l' = Some f" "disk l' = (disk l)(f \<mapsto> [])" "on_file l' = on_file l"
      "taken l' = taken l" "writen_size l' = w" "roll_size l' = roll_size l" and inv: "file_inv l" "f \<notin> set (created l)"
    using assms(1,3) by (auto simp: create_file_def files_ok_def)
  have w: "w = 0" using assms(4) inv(1) by (auto simp: file_inv_def)
  have same: "contents l' g = contents l g" if "g \<in> set (created l)" for g
    using that c(3) inv(2) by (auto simp: contents_def)
  have "roll_size l \<le> length (contents l g)" if "g \<in> set (created l)" for g
    using inv(1) assms(2) that by (auto simp: file_inv_def split: option.splits)
  then have "\<forall>g \<in> set (created l). roll_size l' \<le> length (contents l' g)" using same c(7) by simp
  moreover have "concat (map (contents l') (created l')) = concat (on_file l')"
    using inv(1) c(1,3,4) same by (simp add: file_inv_def contents_def cong: map_cong)
  ultimately have "file_inv l'" using inv(1) c w by (simp add: file_inv_def)
  then show ?thesis by (simp add: files_ok_def)
next
  case False
  show ?thesis
  proof (cases ok)
    case True
    then show ?thesis using False assms(3) by (auto simp: files_ok_def create_file_def)
  next
    case False
    then have l': "l' = l\<lparr>writen_size := w, log_file := None\<rparr>" using assms(3) by (simp add: create_file_def)
    then have ct: "contents l' = contents l" by (simp add: contents_def [abs_def])
    have "file_inv l'" if "file_inv l"
      using that assms(2,4) unfolding file_inv_def ct by (auto simp: l' split: option.splits)
    then show ?thesis using assms(1) by (simp add: files_ok_def l')
  qed
qed

lemma write_ok:
  assumes "files_ok l" and "write2file rets d l = Some (ok, l')"
  shows "files_ok l' \<and> files_ok (l'\<lparr>taken := taken l' @ [d], writen_size := writen_size l' + length d\<rparr>)"
proof (cases "log_name l \<noteq> [] \<and> distinct (created l)")
  case True
  obtain f where f: "log_file l = Some f" "l' = l\<lparr>disk := (disk l)(f \<mapsto> contents l f @ d), on_file := on_file l @ [d]\<rparr>"
    using write2file_frame [OF assms(2)] write_loop_appends by (fastforce simp: contents_def)
  have inv: "file_inv l" using assms(1) True by (simp add: files_ok_def)
  then obtain fs where fs: "created l = fs @ [f]" "\<forall>g \<in> set fs. roll_size l \<le> length (contents l g)"
      "writen_size l \<le> length (contents l f)"
    using f(1) by (auto simp: file_inv_def)
  have new: "contents l' f = contents l f @ d" "\<And>g. g \<in> set fs \<Longrightarrow> contents l' g = contents l g"
    using f(2) True fs(1) by (auto simp: contents_def)
  have "concat (map (contents l') (created l')) = concat (on_file l')"
    using inv f(2) fs(1) new by (simp add: file_inv_def cong: map_cong)
  moreover have "subseq (taken l @ [d]) (on_file l @ [d])" "subseq (taken l) (on_file l @ [d])"
    using inv by (auto simp: file_inv_def intro: list_emb_append_mono list_emb_prefix)
  ultimately show ?thesis using f fs new
    by (auto simp: files_ok_def file_inv_def contents_def [abs_def])
next
  case False
  then show ?thesis using write2file_frame [OF assms(2)] by (auto simp: files_ok_def)
qed

lemma roll_ok: "files_ok l \<Longrightarrow> files_ok (roll_file ok t l)"
proof (cases "log_name l \<noteq> [] \<and> (log_file l = None \<or> writen_size l \<ge> roll_size l)")
  case True
  assume l: "files_ok l"
  obtain r l2 where c: "create_file ok (new_log_file t (l\<lparr>writen_size := 0\<rparr>)) (l\<lparr>writen_size := 0\<rparr>) = (r, l2)"
    by (metis surj_pair)
  have "files_ok l2" using create_ok [OF l _ c] True by blast
  moreover have "files_ok (l2\<lparr>writer := w\<rparr>) = files_ok l2" for w by (rule file_inv_frame) simp_all
  ultimately show ?thesis using True c by (simp add: roll_file_def Let_def split: bool.splits)
next
  case False
  assume l: "files_ok l"
  have "files_ok (l\<lparr>writer := Take\<rparr>) = files_ok l" by (rule file_inv_frame) simp_all
  then show ?thesis using False l by (auto simp: roll_file_def)
qed

lemma take_ok:
  assumes "files_ok l" and "take_line rets l = Some l'"
  shows "files_ok l'"
proof (cases "write_wating_lists l")
  case Nil
  have "files_ok (l\<lparr>writer := Ended\<rparr>) = files_ok l" by (rule file_inv_frame) simp_all
  then show ?thesis using Nil assms by (simp add: take_line_def split: if_splits)
next
  case (Cons x xs)
  let ?l1 = "l\<lparr>write_wating_lists := xs, stdout := stdout l @ [x], taken := taken l @ [x]\<rparr>"
  show ?thesis
  proof (cases "log_name l = []")
    case True
    then show ?thesis using assms(2) Cons by (auto simp: take_line_def files_ok_def)
  next
    case False
    then obtain ok l2 where w: "write2file rets x ?l1 = Some (ok, l2)" and
        l': "l' = (if ok then l2\<lparr>writen_size := writen_size l2 + length x, writer := Top\<rparr> else l2\<lparr>writer := Ended\<rparr>)"
      using assms(2) Cons by (auto simp: take_line_def Let_def split: option.splits bool.splits)
    obtain f c where f: "log_file l = Some f" "write_loop rets x (contents l f) = Some (ok, c)"
        "l2 = ?l1\<lparr>disk := (disk l)(f \<mapsto> c), on_file := on_file l @ [x]\<rparr>"
      using write2file_frame [OF w] by (auto simp: contents_def)
    let ?k = "l\<lparr>disk := (disk l)(f \<mapsto> c), on_file := on_file l @ [x]\<rparr>"
    have "write2file rets x l = Some (ok, ?k)" using f(1,2) by (simp add: write2file_def contents_def)
    from write_ok [OF assms(1) this]
    have k: "files_ok (?k\<lparr>taken := taken l @ [x], writen_size := writen_size l + length x\<rparr>)" by simp
    have ok: "ok" using write_loop_appends [OF f(2)] by simp
    have "files_ok l' = files_ok (?k\<lparr>taken := taken l @ [x], writen_size := writen_size l + length x\<rparr>)"
      by (rule file_inv_frame) (simp_all add: l' f(3) ok)
    then show ?thesis using k by simp
  qed
qed

lemma emit_ok:
  assumes "files_ok l" and "emit_line so lev s l = Some (ok, l')"
  shows "files_ok l'"
proof (cases "lev \<noteq> LOG_LEVEL_FATAL \<or> log_name l = []")
  case True
  have "files_ok (enqueue x l) = files_ok l" for x by (rule file_inv_frame) (simp_all add: enqueue_def)
  moreover have "files_ok (l\<lparr>stdout := x\<rparr>) = files_ok l" for x by (rule file_inv_frame) simp_all
  ultimately show ?thesis using assms True by (auto simp: emit_line_def Let_def split: if_splits)
next
  case False
  let ?s = "s @ [CHR 0x0A]"
  let ?l1 = "l\<lparr>stdout := stdout l @ [?s]\<rparr>"
  have l1: "files_ok ?l1" using assms(1) by (subst file_inv_frame [of _ l]) simp_all
  obtain r l2 where l2: "(if log_file ?l1 = None then create_file (so_fopen so) (new_log_file (so_time so) ?l1) ?l1
      else (True, ?l1)) = (r, l2)" by (metis surj_pair)
  have "files_ok l2"
  proof (cases "log_file ?l1 = None")
    case True
    then have c: "create_file (so_fopen so) (new_log_file (so_time so) ?l1) (?l1\<lparr>writen_size := writen_size l\<rparr>) = (r, l2)"
      using l2 by simp
    show ?thesis by (rule create_ok [OF l1 _ c]) (use True in simp_all)
  next
    case False
    then show ?thesis using l1 l2 by auto
  qed
  then show ?thesis using assms(2) False l2 write_ok
    by (auto simp: emit_line_def Let_def split: if_splits option.splits bool.splits)
qed

lemma log_step_files: "log_step l l' \<Longrightarrow> files_ok l \<Longrightarrow> files_ok l'"
proof (induction rule: log_step.induct)
  case (begin_writer l)
  then show ?case by (subst file_inv_frame [of _ l]) simp_all
next
  case (roll l ok t)
  then show ?case by (intro roll_ok)
next
  case (take_one l rets l')
  then show ?case using take_ok by blast
next
  case (out_plain so lev m l ok l')
  then show ?case using emit_ok by (auto simp: log_output_def Let_def split: if_splits option.splits)
next
  case (out_at so lev fl ln m l ok l')
  then show ?case using emit_ok by (auto simp: log_output_at_def Let_def split: if_splits option.splits)
next
  case (binary l addr bytes)
  then show ?case by (subst file_inv_frame [of _ l]) (simp_all add: log_output_binary_def enqueue_def)
next
  case (level l lev)
  then show ?case by (subst file_inv_frame [of _ l]) (simp_all add: log_set_level_def)
next
  case (uninit l)
  then show ?case by (subst file_inv_frame [of _ l]) (simp_all add: log_uninit_begin_def)
qed

lemma log_reachable_files: "log_reachable nm roll l \<Longrightarrow> files_ok l"
proof (induction rule: log_reachable.induct)
  case init
  then show ?case by (simp add: log_init_def fresh_log_def files_ok_def file_inv_def)
next
  case step
  then show ?case using log_step_files by blast
qed

lemma create_file_consts: "create_file ok f l = (r, l') \<Longrightarrow> log_name l' = log_name l \<and> roll_size l' = roll_size l"
  by (auto simp: create_file_def split: if_splits)

lemma emit_consts: "emit_line so lev s l = Some (ok, l') \<Longrightarrow> log_name l' = log_name l \<and> roll_size l' = roll_size l"
  by (auto simp: emit_line_def enqueue_def Let_def create_file_def split: if_splits option.splits prod.splits
      dest!: write2file_frame)

lemma log_step_consts: "log_step l l' \<Longrightarrow> log_name l' = log_name l \<and> roll_size l' = roll_size l"
proof (induction rule: log_step.induct)
  case (roll l ok t)
  then show ?case by (auto simp: roll_file_def Let_def create_file_def)
next
  case (take_one l rets l')
  then show ?case
    by (auto simp: take_line_def Let_def split: list.splits if_splits option.splits prod.splits bool.splits
        dest!: write2file_frame)
next
  case (out_plain so lev m l ok l')
  then show ?case using emit_consts by (auto simp: log_output_def Let_def split: if_splits option.splits)
next
  case (out_at so lev fl ln m l ok l')
  then show ?case using emit_consts by (auto simp: log_output_at_def Let_def split: if_splits option.splits)
qed (auto simp: log_output_binary_def enqueue_def log_set_level_def log_uninit_begin_def)

lemma log_reachable_consts:
  "log_reachable nm roll l \<Longrightarrow> log_name l = (case nm of None \<Rightarrow> [] | Some n \<Rightarrow> n) \<and> roll_size l = roll"
proof (induction rule: log_reachable.induct)
  case init
  then show ?case by (simp add: log_init_def)
next
  case step
  then show ?case using log_step_consts by metis
qed

section \<open>Dumps\<close>

text \<open>The reference: one row for each 32 bytes, in two groups of 16, numbered from \<open>i\<close>.\<close>

definition dump_row :: "nat \<Rightarrow> byte list \<Rightarrow> string" where
  "dump_row i bs =
     ull2str i @ ''  '' @ concat (map hex_byte (take 16 bs)) @
     (if length bs > 16 then '' '' @ concat (map hex_byte (drop 16 bs)) else [])"

function dump_rows :: "nat \<Rightarrow> byte list \<Rightarrow> string list" where
  "dump_rows i bs = (if bs = [] then [] else dump_row i (take 32 bs) # dump_rows (i + 1) (drop 32 bs))"
  by pat_completeness auto

termination dump_rows
  by (relation "measure (\<lambda>(i, bs). length bs)") auto

declare dump_rows.simps [simp del]

text \<open>What one byte at position \<open>k\<close> of a row adds.\<close>

definition dump_piece :: "nat \<Rightarrow> nat \<Rightarrow> byte \<Rightarrow> string" where
  "dump_piece i k b = (if k = 0 then ull2str i @ '' '' else []) @ (if k mod 16 = 0 then '' '' else []) @ hex_byte b"

fun dump_pieces :: "nat \<Rightarrow> nat \<Rightarrow> byte list \<Rightarrow> string" where
  "dump_pieces i k [] = []"
| "dump_pieces i k (b # bs) = dump_piece i k b @ dump_pieces i (Suc k) bs"

lemma dump_pieces_inner: "0 < k \<Longrightarrow> k + length bs \<le> 16 \<or> 16 < k \<and> k + length bs \<le> 32 \<Longrightarrow>
    dump_pieces i k bs = concat (map hex_byte bs)"
proof (induction bs arbitrary: k)
  case (Cons b bs)
  have "k mod 16 \<noteq> 0"
  proof
    assume "k mod 16 = 0"
    then obtain q where "k = 16 * q" by (auto simp: mod_eq_0_iff_dvd)
    then show False using Cons.prems by (cases q; cases "q - 1") auto
  qed
  then show ?case using Cons.IH [of "Suc k"] Cons.prems by (auto simp: dump_piece_def)
qed simp

lemma dump_pieces_append: "dump_pieces i k (xs @ ys) = dump_pieces i k xs @ dump_pieces i (k + length xs) ys"
  by (induction xs arbitrary: k) simp_all

lemma dump_pieces_row:
  assumes "bs \<noteq> []" and "length bs \<le> 32"
  shows "dump_pieces i 0 bs = dump_row i bs"
proof -
  obtain b bs' where b: "take 16 bs = b # bs'" using assms(1) by (cases bs) auto
  have "dump_pieces i 1 bs' = concat (map hex_byte bs')"
    using arg_cong [OF b, of length] by (intro dump_pieces_inner) auto
  then have 1: "dump_pieces i 0 (take 16 bs) = ull2str i @ ''  '' @ concat (map hex_byte (take 16 bs))"
    by (simp add: b dump_piece_def)
  have 2: "dump_pieces i 16 (drop 16 bs) = (if length bs > 16 then '' '' @ concat (map hex_byte (drop 16 bs)) else [])"
  proof (cases "drop 16 bs")
    case (Cons c cs)
    have "dump_pieces i 17 cs = concat (map hex_byte cs)"
      using arg_cong [OF Cons, of length] assms(2) by (intro dump_pieces_inner) auto
    moreover have "length bs > 16" using Cons by (metis drop_all list.distinct(1) not_le)
    ultimately show ?thesis by (simp add: Cons dump_piece_def)
  qed simp
  have "dump_pieces i 0 bs = dump_pieces i 0 (take 16 bs) @ dump_pieces i (length (take 16 bs)) (drop 16 bs)"
    using dump_pieces_append [of i 0 "take 16 bs" "drop 16 bs"] by simp
  also have "dump_pieces i (length (take 16 bs)) (drop 16 bs) = dump_pieces i 16 (drop 16 bs)"
    by (cases "16 \<le> length bs") simp_all
  finally show ?thesis using 1 2 by (simp add: dump_row_def)
qed

lemma form_loop_inner:
  "0 < lsize mod 32 \<Longrightarrow> lsize mod 32 + length xs \<le> 32 \<Longrightarrow> length buf + 3 * length xs + 10 < S \<Longrightarrow>
    form_loop S lsize True idx buf (xs @ ys) =
      form_loop S (lsize + length xs) True idx (buf @ dump_pieces i (lsize mod 32) xs) ys"
proof (induction xs arbitrary: lsize buf)
  case (Cons x xs)
  have m: "lsize mod 16 = lsize mod 32 mod 16" by (simp add: mod_mod_cancel)
  let ?buf = "buf @ dump_piece i (lsize mod 32) x"
  have "length ?buf \<le> length buf + 3" using Cons.prems(1) by (simp add: dump_piece_def hex_byte_def)
  show ?case
  proof (cases xs)
    case Nil
    then show ?thesis using Cons.prems m by (simp add: dump_piece_def Let_def)
  next
    case (Cons y zs)
    then have s: "Suc lsize mod 32 = Suc (lsize mod 32)" using Cons.prems(2) by (simp add: mod_Suc)
    have "form_loop S lsize True idx buf ((x # xs) @ ys) = form_loop S (Suc lsize) True idx ?buf (xs @ ys)"
      using Cons.prems m by (simp add: dump_piece_def Let_def)
    also have "\<dots> = form_loop S (Suc lsize + length xs) True idx (?buf @ dump_pieces i (Suc (lsize mod 32)) xs) ys"
      using Cons.IH [of "Suc lsize" ?buf] Cons.prems \<open>length ?buf \<le> length buf + 3\<close> s by simp
    finally show ?thesis by simp
  qed
qed simp

lemma form_loop_row:
  assumes "lsize mod 32 = 0" and "xs \<noteq> []" and "length xs \<le> 32" and "length buf + 120 < S" and "length (ull2str idx) = 6"
  shows "form_loop S lsize headed idx buf (xs @ ys) =
    form_loop S (lsize + length xs) True (idx + 1)
      (buf @ (if headed then [CHR 0x0A] else []) @ dump_row idx xs) ys"
proof -
  obtain x xs' where x: "xs = x # xs'" using assms(2) by (cases xs) auto
  let ?b = "buf @ (if headed then [CHR 0x0A] else []) @ dump_piece idx 0 x"
  have m: "lsize mod 16 = 0" using assms(1) by (metis mod_mod_cancel dvd_def mod_0 mult_2_right numeral_Bit0 numeral_times_numeral)
  have len: "length ?b \<le> length buf + 11" using assms(5) by (simp add: dump_piece_def hex_byte_def)
  have "form_loop S lsize headed idx buf (xs @ ys) = form_loop S (Suc lsize) True (idx + 1) ?b (xs' @ ys)"
    using assms(1,4) m by (simp add: x dump_piece_def Let_def)
  also have "\<dots> = form_loop S (Suc lsize + length xs') True (idx + 1) (?b @ dump_pieces idx 1 xs') ys"
    using form_loop_inner [of "Suc lsize" xs' ?b S "idx + 1" ys idx] assms(1,3,4) len by (simp add: mod_Suc x)
  also have "?b @ dump_pieces idx 1 xs' = buf @ (if headed then [CHR 0x0A] else []) @ dump_row idx xs"
    using dump_pieces_row [OF assms(2,3), of idx] by (simp add: x)
  finally show ?thesis by (simp add: x)
qed

lemma length_ull2str: "i < 1000000 \<Longrightarrow> length (ull2str i) = 6"
  using length_dec_nat [of 6 i] by (simp add: ull2str_def zero_pad_def)

lemma length_hex: "length (concat (map hex_byte bs)) = 2 * length bs"
  by (induction bs) (simp_all add: hex_byte_def)

lemma length_dump_row: "length bs \<le> 32 \<Longrightarrow> length (ull2str i) = 6 \<Longrightarrow> length (dump_row i bs) \<le> 73"
  by (auto simp: dump_row_def length_hex)

text \<open>The rows with a line end before each but, without a header so far, the first.\<close>

definition nl_rows :: "bool \<Rightarrow> string list \<Rightarrow> string" where
  "nl_rows headed rows = (case rows of [] \<Rightarrow> [] | r # rs \<Rightarrow> (if headed then [CHR 0x0A] else []) @ r @ concat (map (\<lambda>r. CHR 0x0A # r) rs))"

lemma nl_rows_True: "nl_rows True rows = concat (map (\<lambda>r. CHR 0x0A # r) rows)"
  by (cases rows) (simp_all add: nl_rows_def)

lemma nl_rows_end: "rows \<noteq> [] \<Longrightarrow> nl_rows False rows @ [CHR 0x0A] = concat (map (\<lambda>r. r @ [CHR 0x0A]) rows)"
proof (induction rows)
  case (Cons r rs)
  then show ?case by (cases rs) (simp_all add: nl_rows_def)
qed simp

lemma form_loop_rows:
  "length bs \<le> 32 * n \<Longrightarrow> lsize mod 32 = 0 \<Longrightarrow> length buf + 74 * n + 120 < S \<Longrightarrow> idx + n \<le> 1000000 \<Longrightarrow>
    form_loop S lsize headed idx buf bs = (idx + length (dump_rows idx bs), buf @ nl_rows headed (dump_rows idx bs))"
proof (induction n arbitrary: bs lsize buf idx headed)
  case 0
  then show ?case by (simp add: dump_rows.simps nl_rows_def)
next
  case (Suc n)
  show ?case
  proof (cases "bs = []")
    case True
    then show ?thesis by (simp add: dump_rows.simps nl_rows_def)
  next
    case False
    let ?x = "take 32 bs" and ?y = "drop 32 bs"
    let ?b = "buf @ (if headed then [CHR 0x0A] else []) @ dump_row idx ?x"
    have u: "length (ull2str idx) = 6" using Suc.prems(4) by (intro length_ull2str) simp
    have b: "length ?b \<le> length buf + 74" using length_dump_row [of ?x idx] u by simp
    have "form_loop S lsize headed idx buf (?x @ ?y) = form_loop S (lsize + length ?x) True (idx + 1) ?b ?y"
      using Suc.prems False u by (intro form_loop_row) auto
    also have "\<dots> = (idx + 1 + length (dump_rows (idx + 1) ?y), ?b @ nl_rows True (dump_rows (idx + 1) ?y))"
    proof (cases "?y = []")
      case True
      then show ?thesis by (simp add: dump_rows.simps nl_rows_def)
    next
      case False
      then have "(lsize + length ?x) mod 32 = 0" using Suc.prems(2) by (simp add: min_def)
      then show ?thesis using Suc.prems b by (intro Suc.IH) auto
    qed
    finally show ?thesis
      using False by (subst (1 2) dump_rows.simps) (simp add: nl_rows_True, simp add: nl_rows_def)
  qed
qed

lemma dump_rows_append:
  "length xs = 32 * n \<Longrightarrow> dump_rows i (xs @ ys) = dump_rows i xs @ dump_rows (i + n) ys \<and> length (dump_rows i xs) = n"
proof (induction n arbitrary: i xs)
  case (Suc n)
  then have ne: "xs \<noteq> []" and d: "length (drop 32 xs) = 32 * n" "take 32 (xs @ ys) = take 32 xs" "drop 32 (xs @ ys) = drop 32 xs @ ys"
    by auto
  have "dump_rows i (xs @ ys) = dump_row i (take 32 xs) # dump_rows (i + 1) (drop 32 xs @ ys)"
    using ne by (subst dump_rows.simps) (simp only: d, simp)
  then show ?case using ne Suc.IH [OF d(1), of "i + 1"] by (simp add: dump_rows.simps [of i xs])
qed (simp add: dump_rows.simps)

lemma form_log_rows:
  assumes "bs \<noteq> []" and "length bs \<le> PRINT_SIZE" and "idx + 16 \<le> 1000000"
  shows "form_log idx (PRINT_SIZE * 3 + 8) bs =
    (idx + length (dump_rows idx bs), concat (map (\<lambda>r. r @ [CHR 0x0A]) (dump_rows idx bs)))"
proof -
  have "dump_rows idx bs \<noteq> []" using assms(1) by (simp add: dump_rows.simps)
  then show ?thesis
    using form_loop_rows [of bs 16 0 "[]" "PRINT_SIZE * 3 + 8" idx False] assms(2,3)
    by (simp add: form_log_def PRINT_SIZE_def nl_rows_end)
qed

lemma dump_loop_rows:
  "length bs \<le> PRINT_SIZE * k \<Longrightarrow> idx + 16 * k \<le> 1000000 \<Longrightarrow>
    dump_loop idx bs = concat (map (\<lambda>r. r @ [CHR 0x0A]) (dump_rows idx bs))"
proof (induction k arbitrary: idx bs)
  case 0
  then show ?case by (simp add: dump_loop.simps dump_rows.simps)
next
  case (Suc k)
  show ?case
  proof (cases "bs = []")
    case True
    then show ?thesis by (simp add: dump_loop.simps dump_rows.simps)
  next
    case False
    let ?x = "take PRINT_SIZE bs" and ?y = "drop PRINT_SIZE bs"
    have f: "form_log idx (PRINT_SIZE * 3 + 8) ?x =
        (idx + length (dump_rows idx ?x), concat (map (\<lambda>r. r @ [CHR 0x0A]) (dump_rows idx ?x)))"
      using False Suc.prems(2) by (intro form_log_rows) (auto simp: PRINT_SIZE_def)
    show ?thesis
    proof (cases "?y = []")
      case True
      then show ?thesis using False f by (simp add: dump_loop.simps [of idx bs]) (simp add: dump_loop.simps)
    next
      case y: False
      then have x: "length ?x = 32 * 16" by (simp add: PRINT_SIZE_def)
      have rows: "dump_rows idx bs = dump_rows idx ?x @ dump_rows (idx + 16) ?y" "length (dump_rows idx ?x) = 16"
        using dump_rows_append [OF x, of idx ?y] by simp_all
      have "dump_loop (idx + 16) ?y = concat (map (\<lambda>r. r @ [CHR 0x0A]) (dump_rows (idx + 16) ?y))"
        using Suc.prems by (intro Suc.IH) (auto simp: PRINT_SIZE_def)
      then show ?thesis using False f rows by (simp add: dump_loop.simps [of idx bs])
    qed
  qed
qed

section \<open>Properties\<close>

text \<open>
  whatever threads log and whenever they do, the lines the writer thread has taken are a
  prefix of the lines accepted, in the order of acceptance and each once; the rest waits. The
  writer stops for the end of the program only when nothing waits.
\<close>

theorem log_lines_once:
  assumes "log_reachable nm roll l"
  shows "accepted l = taken l @ write_wating_lists l \<and>
    (writer l = Take \<longrightarrow> (\<forall>l'. take_line rets l = Some l' \<and> taken l' = taken l \<longrightarrow> exit_flag l \<and> accepted l = taken l))"
proof -
  have q: "accepted l = taken l @ write_wating_lists l" using log_reachable_queue [OF assms] .
  have "exit_flag l \<and> write_wating_lists l = []" if "take_line rets l = Some l'" "taken l' = taken l" for l'
    using that by (auto simp: take_line_def Let_def split: list.splits if_splits option.splits prod.splits bool.splits
        dest!: write2file_frame)
  then show ?thesis using q by auto
qed

text \<open>A log on file with roll size 5 that has accepted a dump of two bytes.\<close>

definition demo_log :: whisp_log where
  "demo_log = snd (log_output_binary 0 [18, 255] (snd (log_init (Some ''L'') False 5 77 fresh_log)))"

lemma demo_log_reachable: "log_reachable (Some ''L'') 5 demo_log"
  unfolding demo_log_def by (rule log_reachable.step [OF log_reachable.init log_step.binary])

lemmas demo_log_simps = demo_log_def log_output_binary_def log_init_def fresh_log_def enqueue_def

theorem log_lines_once_witness: "accepted demo_log = write_wating_lists demo_log"
  using log_lines_once [OF demo_log_reachable] by (simp add: demo_log_simps)


definition demo_time :: local_time where
  "demo_time = \<lparr>tm_year = 125, tm_mon = 0, tm_mday = 2, tm_hour = 3, tm_min = 4, tm_sec = 5\<rparr>"

text \<open>The demonstration log after its writer has opened a file and written the line.\<close>

definition demo_log_written :: whisp_log where
  "demo_log_written = the (take_line [100] (roll_file True demo_time (demo_log\<lparr>running_flag := True, writer := Top\<rparr>)))"

lemma demo_log_written_reachable: "log_reachable (Some ''L'') 5 demo_log_written"
proof -
  let ?a = "demo_log\<lparr>running_flag := True, writer := Top\<rparr>"
  let ?b = "roll_file True demo_time ?a"
  have "log_step demo_log ?a" by (rule log_step.begin_writer) (simp add: demo_log_simps)
  then have "log_reachable (Some ''L'') 5 ?a" by (rule log_reachable.step [OF demo_log_reachable])
  moreover have "log_step ?a ?b" by (rule log_step.roll) simp
  ultimately have b: "log_reachable (Some ''L'') 5 ?b" by (rule log_reachable.step)
  have w: "writer ?b = Take" by (simp add: roll_file_def create_file_def Let_def demo_log_simps)
  have "take_line [100] ?b \<noteq> None" by code_simp
  then have "take_line [100] ?b = Some demo_log_written" unfolding demo_log_written_def by simp
  then show ?thesis using log_reachable.step [OF b log_step.take_one [OF w]] by blast
qed


text \<open>
  Two files of the same second have the same name, and opening the second one empties the
  first: what was written before the roll is lost.
\<close>

lemma roll_same_second_truncates:
  assumes "log_name l \<noteq> []" and "log_file l = Some (new_log_file t l)" and "roll_size l \<le> writen_size l"
  shows "contents (roll_file True t l) (new_log_file t l) = []"
  using assms by (simp add: roll_file_def create_file_def new_log_file_def contents_def Let_def)

text \<open>
  the dump of a buffer of fewer than 15 megabytes is its bytes in rows of 32, numbered from
  0, whatever the size of the portions it is produced in; nothing is cut at the end of the
  print buffer.
\<close>

theorem binary_dump_rows:
  assumes "length bytes < 15000000"
  shows "log_output_binary address bytes l =
    (True, enqueue (''address['' @ dec_int address @ ''] size['' @ dec_int (int (length bytes)) @ ''] '' @ [CHR 0x0A] @
       concat (map (\<lambda>r. r @ [CHR 0x0A]) (dump_rows 0 bytes))) l)"
  using dump_loop_rows [of bytes 30000 0] assms by (simp add: log_output_binary_def PRINT_SIZE_def)

theorem binary_dump_rows_witness:
  "write_wating_lists demo_log = [''address[0] size[2] '' @ [CHR 0x0A] @ ''000000  12ff'' @ [CHR 0x0A]]"
proof -
  have "dump_rows 0 [18, 255] = [''000000  12ff'']" "dec_int 0 = ''0''" "dec_int 2 = ''2''" by code_simp+
  then show ?thesis
    using binary_dump_rows [of "[18, 255]" 0 "snd (log_init (Some ''L'') False 5 77 fresh_log)"]
    by (simp add: demo_log_def enqueue_def) (simp add: log_init_def fresh_log_def)
qed

end
