(* ===== verification/Conn_Pool.thy ===== *)
theory Conn_Pool
  imports Talko_Prelude "HOL-Library.Multiset"
begin

text \<open>
  The two pools of database connections: \<^verbatim>\<open>MysqlConn\<close> and \<^verbatim>\<open>MysqlConnPool\<close> of
  \<^verbatim>\<open>database/whisp_mysqlconn_pool.{h,cpp}\<close>, and \<^verbatim>\<open>MySQLConnectionPool\<close> of
  \<^verbatim>\<open>database/db_mysqlconn_pool.h\<close>. Connections are numbered in the order of their
  creation. The MySQL client is a parameter: whether opening a session succeeds and whether it
  runs a statement are arguments. A wait on the condition variable ends with a connection or,
  when the queue is still empty, with the timeout; every operation holds the mutex throughout.
\<close>

section \<open>MysqlConn\<close>

text \<open>The session pointer of a connection; \<open>ok\<close> tells whether the library throws.\<close>

record mysql_conn =
  session :: bool

definition MysqlConn :: mysql_conn where
  "MysqlConn = \<lparr>session = False\<rparr>"

definition mysql_connect :: "bool \<Rightarrow> mysql_conn \<Rightarrow> bool \<times> mysql_conn" where
  "mysql_connect ok c = (if ok then (True, c\<lparr>session := True\<rparr>) else (False, c))"

definition mysql_disconnect :: "mysql_conn \<Rightarrow> mysql_conn" where
  "mysql_disconnect c = (if session c then c\<lparr>session := False\<rparr> else c)"

definition mysql_execute :: "(string \<Rightarrow> bool) \<Rightarrow> string \<Rightarrow> mysql_conn \<Rightarrow> bool" where
  "mysql_execute runs sql c = (if \<not> session c then False else runs sql)"

definition MysqlConn_destroy :: "mysql_conn \<Rightarrow> mysql_conn" where
  "MysqlConn_destroy c = (if session c then c\<lparr>session := False\<rparr> else c)"

section \<open>MysqlConnPool\<close>

text \<open>The queue holds shared pointers, which may be null.\<close>

record mysql_pool =
  conns :: "nat \<Rightarrow> mysql_conn"
  conn_queue :: "nat option list"
  database :: string
  pool_size :: nat

definition MysqlConnPool :: "(nat \<Rightarrow> bool) \<Rightarrow> string \<Rightarrow> nat \<Rightarrow> mysql_pool" where
  "MysqlConnPool opens db n =
     \<lparr>conns = (\<lambda>i. snd (mysql_connect (opens i) MysqlConn)),
      conn_queue = map Some (filter (\<lambda>i. fst (mysql_connect (opens i) MysqlConn)) [0..<n]),
      database = db, pool_size = n\<rparr>"

definition get_conn :: "mysql_pool \<Rightarrow> nat option \<times> mysql_pool" where
  "get_conn p =
     (case conn_queue p of
        [] \<Rightarrow> (None, p)
      | conn # rest \<Rightarrow> (conn, p\<lparr>conn_queue := rest\<rparr>))"

text \<open>The destructor disconnects what is in the queue; a null pointer in it is called through.\<close>

fun drain_queue :: "nat option list \<Rightarrow> (nat \<Rightarrow> mysql_conn) \<Rightarrow> (nat \<Rightarrow> mysql_conn) option" where
  "drain_queue [] cs = Some cs"
| "drain_queue (None # q) cs = None"
| "drain_queue (Some c # q) cs = drain_queue q (cs(c := mysql_disconnect (cs c)))"

definition MysqlConnPool_destroy :: "mysql_pool \<Rightarrow> mysql_pool option" where
  "MysqlConnPool_destroy p = map_option (\<lambda>cs. p\<lparr>conns := cs, conn_queue := []\<rparr>) (drain_queue (conn_queue p) (conns p))"

definition release_conn :: "nat option \<Rightarrow> mysql_pool \<Rightarrow> mysql_pool" where
  "release_conn conn p = p\<lparr>conn_queue := conn_queue p @ [conn]\<rparr>"

text \<open>\<open>None\<close>: a call through the null pointer that \<^verbatim>\<open>get_conn\<close> returns after its timeout.\<close>

definition with_conn ::
  "(mysql_conn \<Rightarrow> bool) \<Rightarrow> mysql_pool \<Rightarrow> (bool \<times> mysql_pool) option" where
  "with_conn act p =
     (case get_conn p of
        (None, p') \<Rightarrow> None
      | (Some c, p') \<Rightarrow> Some (act (conns p' c), p'))"

definition check_db_exist :: "(string \<Rightarrow> bool) \<Rightarrow> mysql_pool \<Rightarrow> (bool \<times> mysql_pool) option" where
  "check_db_exist runs p =
     with_conn (mysql_execute runs
       (''SELECT SCHEMA_NAME FROM INFORMATION_SCHEMA.SCHEMATA WHERE SCHEMA_NAME = '' @ [CHR 0x27] @ database p @ [CHR 0x27])) p"

definition create_db :: "(string \<Rightarrow> bool) \<Rightarrow> mysql_pool \<Rightarrow> (bool \<times> mysql_pool) option" where
  "create_db runs p =
     with_conn (\<lambda>c. let _ = mysql_execute runs (''CREATE DATABASE '' @ database p) c in True) p"

record table_field =
  field_name :: string
  field_type :: string
  field_desc :: string

record table_info =
  table_name :: string
  table_fields :: "(string \<times> table_field) list"
  table_key :: string

definition check_table_exist :: "(string \<Rightarrow> bool) \<Rightarrow> table_info \<Rightarrow> mysql_pool \<Rightarrow> (bool \<times> mysql_pool) option" where
  "check_table_exist runs t p =
     with_conn (mysql_execute runs
       (''SELECT TABLE_NAME FROM INFORMATION_SCHEMA.TABLES WHERE TABLE_SCHEMA = '' @ [CHR 0x27] @ database p @
        [CHR 0x27] @ '' AND TABLE_NAME = '' @ [CHR 0x27] @ table_name t @ [CHR 0x27])) p"

definition create_table_sql :: "table_info \<Rightarrow> string" where
  "create_table_sql t =
     (let query = ''CREATE TABLE '' @ table_name t @ '' ('' @
            concat (map (\<lambda>(_, f). field_name f @ '' '' @ field_type f @ '' '' @ field_desc f @ '', '') (table_fields t))
      in take (length query - 2) query @ '') '' @ table_key t)"

definition create_table :: "(string \<Rightarrow> bool) \<Rightarrow> table_info \<Rightarrow> mysql_pool \<Rightarrow> (bool \<times> mysql_pool) option" where
  "create_table runs t p = with_conn (\<lambda>c. let _ = mysql_execute runs (create_table_sql t) c in True) p"

definition update_table_sql :: "table_info \<Rightarrow> string list" where
  "update_table_sql t =
     map (\<lambda>(_, f). ''ALTER TABLE '' @ table_name t @ '' ADD COLUMN '' @ field_name f @ '' '' @ field_type f @ '' '' @ field_desc f)
       (table_fields t)"

definition update_table :: "(string \<Rightarrow> bool) \<Rightarrow> table_info \<Rightarrow> mysql_pool \<Rightarrow> (bool \<times> mysql_pool) option" where
  "update_table runs t p =
     (case table_fields t of
        [] \<Rightarrow> Some (True, snd (get_conn p))
      | _ \<Rightarrow> with_conn (\<lambda>c. let _ = map (\<lambda>q. mysql_execute runs q c) (update_table_sql t) in True) p)"

section \<open>MySQLConnectionPool\<close>

record session_pool =
  conn_pool :: "nat list"
  created_sessions :: nat

text \<open>
  The loop of \<^verbatim>\<open>Init\<close>: \<open>opens\<close> are the results of the attempts to open a session. It goes
  on until the pool has its size; when the results are used up before that, it has not ended.
  The size is compared as an unsigned 64-bit number.
\<close>

fun init_loop :: "nat \<Rightarrow> bool list \<Rightarrow> session_pool \<Rightarrow> nat \<Rightarrow> (session_pool \<times> nat) option" where
  "init_loop target opens p success_count =
     (if length (conn_pool p) < target then
        (case opens of
           [] \<Rightarrow> None
         | ok # rest \<Rightarrow>
             if ok
             then init_loop target rest (p\<lparr>conn_pool := conn_pool p @ [created_sessions p],
                                           created_sessions := created_sessions p + 1\<rparr>) (success_count + 1)
             else init_loop target rest p success_count)
      else Some (p, success_count))"

datatype init_result = InitDone nat | PoolFull | InitThrows

definition pool_Init :: "bool list \<Rightarrow> int \<Rightarrow> session_pool \<Rightarrow> (init_result \<times> session_pool) option" where
  "pool_Init opens size_arg p =
     (let target = nat (size_arg mod 2 ^ 64)
      in map_option (\<lambda>(p1, success_count).
           (if success_count = 0 \<and> length (conn_pool p1) = target then PoolFull
            else if success_count = 0 then InitThrows
            else InitDone success_count, p1)) (init_loop target opens p 0))"

text \<open>\<open>None\<close>: the exception for the timeout.\<close>

definition GetConnection :: "session_pool \<Rightarrow> (nat \<times> session_pool) option" where
  "GetConnection p =
     (case conn_pool p of [] \<Rightarrow> None | conn # rest \<Rightarrow> Some (conn, p\<lparr>conn_pool := rest\<rparr>))"

definition ReleaseConnection :: "bool \<Rightarrow> nat option \<Rightarrow> session_pool \<Rightarrow> session_pool" where
  "ReleaseConnection reopens conn p =
     (case conn of
        Some c \<Rightarrow> p\<lparr>conn_pool := conn_pool p @ [c]\<rparr>
      | None \<Rightarrow>
          if reopens
          then p\<lparr>conn_pool := conn_pool p @ [created_sessions p], created_sessions := created_sessions p + 1\<rparr>
          else p)"

definition GetConnectionPoolSize :: "session_pool \<Rightarrow> nat" where
  "GetConnectionPoolSize p = length (conn_pool p)"

text \<open>The destructor closes the idle sessions, which are the first component of the result.\<close>

definition SessionPool_destroy :: "session_pool \<Rightarrow> nat list \<times> session_pool" where
  "SessionPool_destroy p = (conn_pool p, p\<lparr>conn_pool := []\<rparr>)"

section \<open>Lending\<close>

text \<open>Clients of a pool: each takes a connection or gives back the \<open>i\<close>-th of those held.\<close>

datatype client_op = Take | Give nat

fun serve_clients ::
  "('s \<Rightarrow> (nat \<times> 's) option) \<Rightarrow> (nat \<Rightarrow> 's \<Rightarrow> 's) \<Rightarrow> client_op list \<Rightarrow> 's \<times> nat list \<Rightarrow> 's \<times> nat list" where
  "serve_clients get put [] st = st"
| "serve_clients get put (Take # ops) (s, held) =
     (case get s of
        None \<Rightarrow> serve_clients get put ops (s, held)
      | Some (c, s') \<Rightarrow> serve_clients get put ops (s', held @ [c]))"
| "serve_clients get put (Give i # ops) (s, held) =
     (if i < length held
      then serve_clients get put ops (put (held ! i) s, take i held @ drop (Suc i) held)
      else serve_clients get put ops (s, held))"

text \<open>
  The contract of a pool: it lends the connection that has been idle longest, and takes
  connections back at the end.
\<close>

locale connection_pool =
  fixes ok :: "'s \<Rightarrow> bool"
    and idle :: "'s \<Rightarrow> nat list"
    and get :: "'s \<Rightarrow> (nat \<times> 's) option"
    and put :: "nat \<Rightarrow> 's \<Rightarrow> 's"
  assumes get_empty: "ok s \<Longrightarrow> idle s = [] \<Longrightarrow> get s = None"
    and get_first: "ok s \<Longrightarrow> idle s = c # cs \<Longrightarrow> \<exists>s'. get s = Some (c, s') \<and> ok s' \<and> idle s' = cs"
    and put_last: "ok s \<Longrightarrow> ok (put c s) \<and> idle (put c s) = idle s @ [c]"
begin

lemma get_cases: "ok s \<Longrightarrow> get s = None \<and> idle s = [] \<or> (\<exists>c s'. get s = Some (c, s') \<and> ok s' \<and> idle s = c # idle s')"
  using get_empty get_first by (cases "idle s") fastforce+

lemma serve_clients_conserve:
  "ok s \<Longrightarrow> serve_clients get put ops (s, held) = (s', held') \<Longrightarrow>
    ok s' \<and> mset (idle s') + mset held' = mset (idle s) + mset held"
proof (induction ops arbitrary: s held)
  case (Cons op ops)
  show ?case
  proof (cases op)
    case Take
    show ?thesis
    proof (cases "get s")
      case None
      then show ?thesis using Cons.IH Cons.prems Take by simp
    next
      case (Some r)
      then obtain c s1 where "get s = Some (c, s1)" "ok s1" "idle s = c # idle s1"
        using get_cases [OF Cons.prems(1)] by auto
      then show ?thesis using Cons.IH [of s1 "held @ [c]"] Cons.prems Take by simp
    qed
  next
    case (Give i)
    show ?thesis
    proof (cases "i < length held")
      case True
      have "mset held = mset (take i held @ held ! i # drop (Suc i) held)" using id_take_nth_drop [OF True] by simp
      then show ?thesis
        using Cons.IH [of "put (held ! i) s" "take i held @ drop (Suc i) held"] Cons.prems Give put_last [OF Cons.prems(1)] True
        by simp
    next
      case False
      then show ?thesis using Cons.IH Cons.prems Give by simp
    qed
  qed
qed simp

end

definition take_conn :: "mysql_pool \<Rightarrow> (nat \<times> mysql_pool) option" where
  "take_conn p = (case get_conn p of (None, p') \<Rightarrow> None | (Some c, p') \<Rightarrow> Some (c, p'))"

definition queue_ok :: "mysql_pool \<Rightarrow> bool" where
  "queue_ok p \<longleftrightarrow> None \<notin> set (conn_queue p)"

definition idle_conns :: "mysql_pool \<Rightarrow> nat list" where
  "idle_conns p = map the (conn_queue p)"

interpretation mysql: connection_pool queue_ok idle_conns take_conn "\<lambda>c. release_conn (Some c)"
proof
  fix p :: mysql_pool and c cs
  show "queue_ok p \<Longrightarrow> idle_conns p = [] \<Longrightarrow> take_conn p = None"
    by (simp add: idle_conns_def take_conn_def get_conn_def)
  show "queue_ok p \<Longrightarrow> queue_ok (release_conn (Some c) p) \<and> idle_conns (release_conn (Some c) p) = idle_conns p @ [c]"
    by (simp add: queue_ok_def idle_conns_def release_conn_def)
  assume "queue_ok p" and "idle_conns p = c # cs"
  then obtain rest where "conn_queue p = Some c # rest" "None \<notin> set rest" "cs = map the rest"
    by (cases "conn_queue p") (auto simp: queue_ok_def idle_conns_def)
  then show "\<exists>p'. take_conn p = Some (c, p') \<and> queue_ok p' \<and> idle_conns p' = cs"
    by (simp add: take_conn_def get_conn_def queue_ok_def idle_conns_def)
qed

interpretation sessions: connection_pool "\<lambda>_. True" conn_pool GetConnection "\<lambda>c. ReleaseConnection reopens (Some c)"
  by unfold_locales (simp_all add: GetConnection_def ReleaseConnection_def)

section \<open>Initialisation\<close>

declare init_loop.simps [simp del]

lemma init_loop_opens:
  "init_loop target opens p n =
    (if count_list opens True \<ge> target - length (conn_pool p)
     then Some (p\<lparr>conn_pool := conn_pool p @ [created_sessions p..<created_sessions p + (target - length (conn_pool p))],
                  created_sessions := created_sessions p + (target - length (conn_pool p))\<rparr>,
                n + (target - length (conn_pool p)))
     else None)"
proof (induction opens arbitrary: p n)
  case Nil
  show ?case by (subst init_loop.simps) simp
next
  case (Cons ok rest)
  show ?case
  proof (cases "length (conn_pool p) < target")
    case less: True
    then have s: "target - length (conn_pool p) = Suc (target - Suc (length (conn_pool p)))" by simp
    show ?thesis
    proof (cases ok)
      case True
      then show ?thesis using less Cons.IH by (subst init_loop.simps) (simp add: s upt_conv_Cons del: upt_Suc)
    next
      case False
      then show ?thesis using less Cons.IH by (subst init_loop.simps) simp
    qed
  next
    case False
    then show ?thesis by (subst init_loop.simps) simp
  qed
qed

lemma drain_queue_total: "None \<notin> set q \<Longrightarrow> drain_queue q cs \<noteq> None"
  by (induction q cs rule: drain_queue.induct) simp_all

lemma drain_queue_closes:
  "drain_queue q cs = Some cs' \<Longrightarrow> session (cs' c) \<longleftrightarrow> session (cs c) \<and> Some c \<notin> set q"
  by (induction q cs rule: drain_queue.induct) (auto simp: mysql_disconnect_def split: if_splits)

text \<open>Destroying a pool with nothing lent closes every connection that was ever opened.\<close>

lemma pool_destroy_closes:
  "\<exists>p. MysqlConnPool_destroy (MysqlConnPool opens db n) = Some p \<and> conn_queue p = [] \<and> (\<forall>c < n. \<not> session (conns p c))"
proof -
  let ?p = "MysqlConnPool opens db n"
  have "None \<notin> set (conn_queue ?p)" by (auto simp: MysqlConnPool_def)
  then obtain cs where d: "drain_queue (conn_queue ?p) (conns ?p) = Some cs" using drain_queue_total by blast
  have "\<not> session (cs c)" if "c < n" for c
    using drain_queue_closes [OF d, of c] that by (auto simp: MysqlConnPool_def mysql_connect_def MysqlConn_def split: if_splits)
  then show ?thesis using d by (simp add: MysqlConnPool_destroy_def)
qed

section \<open>Properties\<close>

text \<open>
  C40: whatever clients take and give back, the connections of a \<^verbatim>\<open>MysqlConnPool\<close> that are
  idle or held are exactly those its constructor could open, and none is held twice or both
  held and idle.
\<close>

theorem mysql_pool_lends_once:
  "case serve_clients take_conn (\<lambda>c. release_conn (Some c)) ops (MysqlConnPool opens db n, []) of
     (p, held) \<Rightarrow> None \<notin> set (conn_queue p) \<and>
       mset (map the (conn_queue p)) + mset held = mset (filter opens [0..<n]) \<and>
       distinct (map the (conn_queue p) @ held)"
proof -
  let ?p0 = "MysqlConnPool opens db n"
  obtain p held where r: "serve_clients take_conn (\<lambda>c. release_conn (Some c)) ops (?p0, []) = (p, held)"
    by (metis surj_pair)
  have "queue_ok ?p0" "idle_conns ?p0 = filter opens [0..<n]"
    by (auto simp: queue_ok_def idle_conns_def MysqlConnPool_def mysql_connect_def comp_def)
  then have c: "queue_ok p" "mset (idle_conns p) + mset held = mset (filter opens [0..<n])"
    using mysql.serve_clients_conserve [OF _ r] by simp_all
  then have m: "mset (idle_conns p @ held) = mset (filter opens [0..<n])" by simp
  have "distinct (filter opens [0..<n])" by simp
  then have "distinct (idle_conns p @ held)" using mset_eq_imp_distinct_iff [OF m] by simp
  then show ?thesis using c r by (simp add: queue_ok_def idle_conns_def)
qed

text \<open>
  \<^verbatim>\<open>Init\<close> of \<^verbatim>\<open>MySQLConnectionPool\<close> on an empty pool ends exactly when as many attempts
  succeed as the pool is to have connections, and then the pool is full; afterwards lending
  keeps all connections, each once.
\<close>

theorem session_pool_Init:
  assumes "0 \<le> k" and "k < 2 ^ 31" and "p0 = \<lparr>conn_pool = [], created_sessions = 0\<rparr>"
  shows "if count_list opens True \<ge> nat k
    then \<exists>p. pool_Init opens k p0 = Some (if k = 0 then PoolFull else InitDone (nat k), p) \<and>
           GetConnectionPoolSize p = nat k \<and>
           (case serve_clients GetConnection (\<lambda>c. ReleaseConnection reopens (Some c)) ops (p, []) of
              (p', held) \<Rightarrow> mset (conn_pool p') + mset held = mset [0..<nat k])
    else pool_Init opens k p0 = None"
proof (cases "count_list opens True \<ge> nat k")
  case True
  let ?p = "\<lparr>conn_pool = [0..<nat k], created_sessions = nat k\<rparr>"
  have "k mod 2 ^ 64 = k" using assms(1,2) by (intro mod_pos_pos_trivial) auto
  then have "pool_Init opens k p0 = Some (if k = 0 then PoolFull else InitDone (nat k), ?p)"
    using True assms(1,3) by (auto simp: pool_Init_def Let_def init_loop_opens)
  moreover have "case serve_clients GetConnection (\<lambda>c. ReleaseConnection reopens (Some c)) ops (?p, []) of
      (p', held) \<Rightarrow> mset (conn_pool p') + mset held = mset [0..<nat k]"
    using sessions.serve_clients_conserve [of reopens ops ?p "[]"] by (auto split: prod.splits)
  ultimately show ?thesis using True by (auto simp: GetConnectionPoolSize_def)
next
  case False
  have "k mod 2 ^ 64 = k" using assms(1,2) by (intro mod_pos_pos_trivial) auto
  then show ?thesis using False assms(3) by (auto simp: pool_Init_def Let_def init_loop_opens)
qed

theorem session_pool_Init_witness:
  "\<exists>p. pool_Init [True, False, True] 2 \<lparr>conn_pool = [], created_sessions = 0\<rparr> = Some (InitDone 2, p) \<and>
     GetConnectionPoolSize p = 2"
  using session_pool_Init [of 2 "\<lparr>conn_pool = [], created_sessions = 0\<rparr>" "[True, False, True]" True "[]"] by auto

text \<open>
  The five helpers that look after the schema take a connection out of the pool and never
  give it back; on an empty pool they call through the null pointer. The existence checks
  report whether the query could be run, not what it found.
\<close>

lemma schema_helpers_leak:
  assumes "conn_queue p = Some c # rest" and "p' = p\<lparr>conn_queue := rest\<rparr>" and "session (conns p c)"
  shows "check_db_exist (\<lambda>_. True) p = Some (True, p')" "create_db (\<lambda>_. False) p = Some (True, p')"
    "check_table_exist (\<lambda>_. True) t p = Some (True, p')" "create_table (\<lambda>_. False) t p = Some (True, p')"
    "update_table (\<lambda>_. False) t p = Some (True, p')"
  using assms by (simp_all add: check_db_exist_def create_db_def check_table_exist_def create_table_def update_table_def
      with_conn_def get_conn_def mysql_execute_def split: list.splits)

lemma schema_helpers_empty:
  "conn_queue p = [] \<Longrightarrow> check_db_exist runs p = None \<and> create_db runs p = None \<and> create_table runs t p = None"
  by (simp add: check_db_exist_def create_db_def create_table_def with_conn_def get_conn_def)

end
