(* ===== verification/Main_Program.thy ===== *)
theory Main_Program
  imports Config Whisp_Log Conn_Pool
begin

text \<open>
  The program itself: \<^verbatim>\<open>main.cpp\<close>, \<^verbatim>\<open>util/daemon_run.cpp\<close> and the factory of
  \<^verbatim>\<open>database/whisp_sqlconn_factory.h\<close>.

  What the surroundings answer (the options \<^verbatim>\<open>getopt\<close> reports, the results of \<^verbatim>\<open>fork\<close>,
  \<^verbatim>\<open>open\<close>, \<^verbatim>\<open>opendir\<close> and \<^verbatim>\<open>mkdir\<close>, the YAML library, the connections of the database) is
  the record \<open>surroundings\<close>. What the program does is a list of events; the log and the pool are
  those of the theories \<open>Whisp_Log\<close> and \<open>Conn_Pool\<close>.
\<close>

section \<open>Running as a daemon\<close>

datatype open_file = Terminal | DevNull | File string

record process =
  files :: "int \<rightharpoonup> open_file"
  own_session :: bool
  sigchld_ignored :: bool
  stdout_text :: string

datatype daemon_result = Exits int process | Continues process

definition dup2 :: "int \<Rightarrow> int \<Rightarrow> process \<Rightarrow> process" where
  "dup2 oldfd newfd p = p\<lparr>files := (files p)(newfd := files p oldfd)\<rparr>"

text \<open>\<open>pid\<close> and \<open>null_fd\<close> are the results of \<^verbatim>\<open>fork\<close> and of opening \<^verbatim>\<open>/dev/null\<close>.\<close>

definition daemon_run :: "int \<Rightarrow> int \<Rightarrow> process \<Rightarrow> daemon_result" where
  "daemon_run pid null_fd p =
     (let p1 = p\<lparr>sigchld_ignored := True\<rparr>
      in if pid < 0 then Exits (- 1) (p1\<lparr>stdout_text := stdout_text p1 @ ''fork error'' @ [CHR 0x0A]\<rparr>)
         else if pid > 0 then Exits 0 p1
         else
           let p2 = p1\<lparr>own_session := True\<rparr>;
               p3 = (if null_fd \<noteq> - 1
                     then dup2 null_fd 2 (dup2 null_fd 1 (dup2 null_fd 0 (p2\<lparr>files := (files p2)(null_fd \<mapsto> DevNull)\<rparr>)))
                     else p2);
               p4 = (if null_fd > 2 then p3\<lparr>files := (files p3)(null_fd := None)\<rparr> else p3)
           in Continues p4)"

definition prog_exit :: "int \<Rightarrow> process \<Rightarrow> daemon_result" where
  "prog_exit signo p =
     Exits 0 (p\<lparr>stdout_text := stdout_text p @ ''Received signal '' @ dec_int signo @ '', exiting...'' @ [CHR 0x0A]\<rparr>)"

definition parse_arguments :: "char list \<Rightarrow> int \<Rightarrow> int \<Rightarrow> process \<Rightarrow> daemon_result" where
  "parse_arguments opts pid null_fd p =
     (let bdaemon = fold (\<lambda>ch b. if ch = CHR ''d'' then True else b) opts False
      in if bdaemon
         then daemon_run pid null_fd (p\<lparr>stdout_text := stdout_text p @ ''server run in daemon mode.'' @ [CHR 0x0A]\<rparr>)
         else Continues p)"

section \<open>The factory\<close>

record conn_factory =
  fac_host :: string
  fac_port :: int
  fac_user :: string
  fac_password :: string
  fac_database :: string
  fac_pool_size :: nat

text \<open>\<open>opens host port user password db i\<close> tells whether the \<open>i\<close>-th attempt to connect succeeds.\<close>

type_synonym conn_opens = "string \<Rightarrow> int \<Rightarrow> string \<Rightarrow> string \<Rightarrow> string \<Rightarrow> nat \<Rightarrow> bool"

definition create_mysqlconn_pool :: "conn_opens \<Rightarrow> conn_factory \<Rightarrow> mysql_pool" where
  "create_mysqlconn_pool opens f =
     MysqlConnPool (opens (fac_host f) (fac_port f) (fac_user f) (fac_password f) (fac_database f))
       (fac_database f) (fac_pool_size f)"

section \<open>The main function\<close>

record 'n surroundings =
  getopt_results :: "char list"
  fork_pid :: int
  devnull_fd :: int
  yaml_lib :: "'n yaml"
  start_config :: WhispConfig
  opendir_ok :: "string \<Rightarrow> bool"
  mkdir_ok :: "string \<Rightarrow> bool"
  error_text :: string
  db_opens :: conn_opens

datatype main_event =
    SetSignal string string
  | Cout string
  | Cerr string
  | Mkdir string
  | Closedir bool
  | LogInit string
  | LogOutput LOG_LEVEL string
  | PoolCreated mysql_pool
  | LogUninit

text \<open>How the process ends: with an exit status, or by an exception that nobody catches.\<close>

datatype main_end = Status int | Terminated

definition config_path :: string where
  "config_path = ''/home/dev1/talko/server/src/config/server_config.yml''"

definition endl :: string where
  "endl = [CHR 0x0A]"

definition load_config_values :: "(string \<times> string) list \<Rightarrow> string option" where
  "load_config_values vs = map_option fst (find (\<lambda>(name, v). v = []) vs)"

text \<open>The part of \<^verbatim>\<open>main\<close> after the log is started.\<close>

definition main_database :: "'n surroundings \<Rightarrow> WhispConfig \<Rightarrow> main_end \<times> main_event list" where
  "main_database e cfg =
     (let my = mysql_config cfg
      in case load_config_values
             [(''whisp_config.mysql_config.mysql_server_addr'', mysql_server_addr my),
              (''whisp_config.mysql_config.user'', mysql_user my),
              (''whisp_config.mysql_config.password'', mysql_password my),
              (''whisp_config.mysql_config.database'', mysql_database my)] of
           Some name \<Rightarrow> (Status 1, [LogOutput LOG_LEVEL_ERROR (''[MAIN] Get '' @ name @ '' fail'')])
         | None \<Rightarrow>
             let factory = \<lparr>fac_host = mysql_server_addr my, fac_port = mysql_server_port my, fac_user = mysql_user my,
                   fac_password = mysql_password my, fac_database = mysql_database my, fac_pool_size = 5\<rparr>
             in (Status 0,
                 [LogOutput LOG_LEVEL_INFO (''[MAIN] Load mysql config: addr = '' @ c_str (mysql_server_addr my) @
                    '', port = '' @ dec_int (mysql_server_port my) @ '', user = '' @ c_str (mysql_user my) @
                    '', password = '' @ c_str (mysql_password my) @ '', database = '' @ c_str (mysql_database my)),
                  PoolCreated (create_mysqlconn_pool (db_opens e) factory),
                  LogUninit, Cout (''[MAIN] log uninit return true'' @ endl)]))"

text \<open>The part that finds the directory of the log and starts it.\<close>

definition log_dir :: "WhispConfig \<Rightarrow> string" where
  "log_dir cfg =
     (if length (log_file_dir (log_config cfg)) = 0 then ''/var/log/whisplog'' else log_file_dir (log_config cfg))"

definition log_path :: "WhispConfig \<Rightarrow> string" where
  "log_path cfg = log_dir cfg @
     (if length (log_file_name (log_config cfg)) = 0 then ''default_log'' else log_file_name (log_config cfg))"

definition main_log :: "'n surroundings \<Rightarrow> WhispConfig \<Rightarrow> main_end \<times> main_event list" where
  "main_log e cfg =
     (let shown = [Cout (''log file path is : '' @ log_dir cfg @ endl)];
          found = opendir_ok e (c_str (log_dir cfg))
      in if \<not> found \<and> \<not> mkdir_ok e (c_str (log_dir cfg))
         then (Status 1, shown @ [Mkdir (c_str (log_dir cfg)), Cerr (''create base dir error, '' @ log_dir cfg @ error_text e)])
         else
           let made = (if found then [] else [Mkdir (c_str (log_dir cfg))])
           in case main_database e cfg of
                (r, evs) \<Rightarrow>
                  (r, shown @ made @ [Closedir found, Cout (''log file is : '' @ log_path cfg @ endl), LogInit (c_str (log_path cfg)),
                       Cout (''log init return true'' @ endl), LogOutput LOG_LEVEL_INFO ''[MAIN] Init log module success''] @ evs))"

definition main_config :: "'n surroundings \<Rightarrow> main_end \<times> main_event list" where
  "main_config e =
     (case whisp_load_config (yaml_lib e) config_path (start_config e) of
        (Inl _, err, _) \<Rightarrow> (Terminated, [])
      | (Inr loaded, err, cfg) \<Rightarrow>
          (case main_log e cfg of
             (r, evs) \<Rightarrow>
               (r, (if loaded then [Cout (whisp_print_config cfg)]
                    else [Cerr (err @ ''Failed to load config.yml!'' @ endl)]) @ evs)))"

text \<open>The first line of output, in UTF-8.\<close>

definition banner :: string where
  "banner = ''[Main] '' @ map char_of [0xE6, 0x9C, 0x8D, 0xE5, 0x8A, 0xA1, 0xE5, 0x99, 0xA8, 0xE5, 0x90, 0xAF, 0xE5, 0x8A, 0xA8,
     0xE4, 0xB8, 0xAD :: nat] @ ''...'' @ endl"

definition main_prog :: "'n surroundings \<Rightarrow> process \<Rightarrow> main_end \<times> main_event list" where
  "main_prog e p =
     (let begin_events = [Cout banner, SetSignal ''SIGCHLD'' ''SIG_DFL'', SetSignal ''SIGPIPE'' ''SIG_IGN'',
            SetSignal ''SIGINT'' ''prog_exit'', SetSignal ''SIGTERM'' ''prog_exit'']
      in case parse_arguments (getopt_results e) (fork_pid e) (devnull_fd e) p of
           Exits status _ \<Rightarrow> (Status status, begin_events)
         | Continues _ \<Rightarrow> (case main_config e of (r, evs) \<Rightarrow> (r, begin_events @ evs)))"

section \<open>Lemmas\<close>

lemma daemon_flag: "fold (\<lambda>ch b. if ch = CHR ''d'' then True else b) opts b \<longleftrightarrow> b \<or> CHR ''d'' \<in> set opts"
  by (induction opts arbitrary: b) auto

lemma load_config_values_None: "load_config_values vs = None \<longleftrightarrow> (\<forall>v \<in> snd ` set vs. v \<noteq> [])"
  by (induction vs) (auto simp: load_config_values_def)

section \<open>Properties\<close>

text \<open>
  The daemon: the parent leaves, the child has its own session, reads from and writes to
  \<^verbatim>\<open>/dev/null\<close>, and keeps no other new descriptor.
\<close>

theorem daemon_detached:
  assumes "null_fd \<ge> 0" and "files p null_fd = None \<or> null_fd \<le> 2"
  shows "\<exists>p'. daemon_run 0 null_fd p = Continues p' \<and> own_session p' \<and>
    files p' = (files p)(0 \<mapsto> DevNull, 1 \<mapsto> DevNull, 2 \<mapsto> DevNull)"
proof -
  consider "null_fd = 0" | "null_fd = 1" | "null_fd = 2" | "null_fd > 2" "files p null_fd = None" using assms by linarith
  then show ?thesis by cases (auto simp: daemon_run_def dup2_def Let_def fun_eq_iff)
qed

text \<open>A run that starts the log once, before anything is logged, and ends it once, after everything.\<close>

fun plain_event :: "main_event \<Rightarrow> bool" where
  "plain_event (LogInit _) = False"
| "plain_event LogUninit = False"
| "plain_event (LogOutput _ _) = False"
| "plain_event (PoolCreated _) = False"
| "plain_event _ = True"

definition starts_and_ends_log :: "main_event list \<Rightarrow> bool" where
  "starts_and_ends_log evs \<longleftrightarrow>
     (\<exists>a path b c. evs = a @ [LogInit path] @ b @ [LogUninit] @ c \<and> list_all plain_event (a @ c) \<and>
        LogUninit \<notin> set b \<and> (\<forall>path. LogInit path \<notin> set b))"

definition mysql_complete :: "WhispConfig \<Rightarrow> bool" where
  "mysql_complete cfg \<longleftrightarrow> mysql_server_addr (mysql_config cfg) \<noteq> [] \<and> mysql_user (mysql_config cfg) \<noteq> [] \<and>
     mysql_password (mysql_config cfg) \<noteq> [] \<and> mysql_database (mysql_config cfg) \<noteq> []"

definition mysql_factory :: "WhispConfig \<Rightarrow> conn_factory" where
  "mysql_factory cfg = (let my = mysql_config cfg in
     \<lparr>fac_host = mysql_server_addr my, fac_port = mysql_server_port my, fac_user = mysql_user my,
      fac_password = mysql_password my, fac_database = mysql_database my, fac_pool_size = 5\<rparr>)"

lemma main_database_cases:
  assumes "main_database e cfg = (r, evs)"
  shows "if mysql_complete cfg
    then r = Status 0 \<and> (\<exists>line. evs = [LogOutput LOG_LEVEL_INFO line,
      PoolCreated (create_mysqlconn_pool (db_opens e) (mysql_factory cfg)), LogUninit, Cout (''[MAIN] log uninit return true'' @ endl)])
    else r = Status 1 \<and> (\<exists>line. evs = [LogOutput LOG_LEVEL_ERROR line])"
proof (cases "mysql_complete cfg")
  case True
  then have "mysql_server_addr (mysql_config cfg) \<noteq> []" "mysql_user (mysql_config cfg) \<noteq> []"
    "mysql_password (mysql_config cfg) \<noteq> []" "mysql_database (mysql_config cfg) \<noteq> []" by (simp_all add: mysql_complete_def)
  then show ?thesis using assms True by (auto simp: main_database_def load_config_values_def mysql_factory_def Let_def)
next
  case False
  let ?vs = "[(''whisp_config.mysql_config.mysql_server_addr'', mysql_server_addr (mysql_config cfg)),
        (''whisp_config.mysql_config.user'', mysql_user (mysql_config cfg)),
        (''whisp_config.mysql_config.password'', mysql_password (mysql_config cfg)),
        (''whisp_config.mysql_config.database'', mysql_database (mysql_config cfg))]"
  have "load_config_values ?vs \<noteq> None" using False by (auto simp: load_config_values_None mysql_complete_def)
  then obtain n where "load_config_values ?vs = Some n" by blast
  then show ?thesis using assms False unfolding main_database_def Let_def by auto
qed

lemma main_log_started:
  assumes "main_database e cfg = (r', evs')" and "opendir_ok e (c_str (log_dir cfg)) \<or> mkdir_ok e (c_str (log_dir cfg))"
  shows "\<exists>a b. main_log e cfg = (r', a @ [LogInit (c_str (log_path cfg))] @ b @ evs') \<and>
    list_all plain_event a \<and> LogUninit \<notin> set b \<and> (\<forall>path. LogInit path \<notin> set b)"
proof -
  let ?found = "opendir_ok e (c_str (log_dir cfg))"
  let ?a = "[Cout (''log file path is : '' @ log_dir cfg @ endl)] @ (if ?found then [] else [Mkdir (c_str (log_dir cfg))]) @
    [Closedir ?found, Cout (''log file is : '' @ log_path cfg @ endl)]"
  let ?b = "[Cout (''log init return true'' @ endl), LogOutput LOG_LEVEL_INFO ''[MAIN] Init log module success'']"
  have "main_log e cfg = (r', ?a @ [LogInit (c_str (log_path cfg))] @ ?b @ evs')"
    using assms(2) by (auto simp: main_log_def Let_def assms(1))
  then show ?thesis by (intro exI [of _ ?a] exI [of _ ?b]) simp
qed

text \<open>
  C37: The program returns 0 exactly when it gets through to the end: the configuration read (or
  found unreadable, which it survives), a directory for the log found or made, and the four
  values of the database present. Then the log is started once, before anything is logged, and
  ended once, after the pool of five connections is made; otherwise a log that was started is
  not ended.
\<close>

theorem main_runs_to_end:
  assumes "whisp_load_config (yaml_lib e) config_path (start_config e) = (Inr loaded, err, cfg)"
    and "main_config e = (r, evs)"
  shows "(if (opendir_ok e (c_str (log_dir cfg)) \<or> mkdir_ok e (c_str (log_dir cfg))) \<and> mysql_complete cfg
    then r = Status 0 \<and> starts_and_ends_log evs \<and>
      PoolCreated (create_mysqlconn_pool (db_opens e) (mysql_factory cfg)) \<in> set evs
    else r = Status 1 \<and> LogUninit \<notin> set evs)"
proof -
  let ?ok = "opendir_ok e (c_str (log_dir cfg)) \<or> mkdir_ok e (c_str (log_dir cfg))"
  let ?pre = "if loaded then [Cout (whisp_print_config cfg)] else [Cerr (err @ ''Failed to load config.yml!'' @ endl)]"
  obtain r' evs' where d: "main_database e cfg = (r', evs')" by fastforce
  note m = main_database_cases [OF d]
  obtain l where l: "main_log e cfg = (r, l)" and evs: "evs = ?pre @ l"
    using assms by (auto simp: main_config_def split: prod.splits)
  have pre: "list_all plain_event ?pre" "LogUninit \<notin> set ?pre" by simp_all
  show ?thesis
  proof (cases ?ok)
    case True
    obtain a b where ab: "r = r'" "l = a @ [LogInit (c_str (log_path cfg))] @ b @ evs'"
        "list_all plain_event a" "LogUninit \<notin> set b" "\<And>path. LogInit path \<notin> set b"
      using main_log_started [OF d True] l by (metis prod.inject)
    show ?thesis
    proof (cases "mysql_complete cfg")
      case True
      then obtain line where e: "evs' = [LogOutput LOG_LEVEL_INFO line, PoolCreated (create_mysqlconn_pool (db_opens e) (mysql_factory cfg)),
          LogUninit, Cout (''[MAIN] log uninit return true'' @ endl)]" "r' = Status 0" using m by auto
      have "starts_and_ends_log evs" unfolding starts_and_ends_log_def evs using ab(2-5) e(1) pre(1)
        by (intro exI [of _ "?pre @ a"] exI [of _ "c_str (log_path cfg)"] exI [of _ "b @ take 2 evs'"] exI [of _ "drop 3 evs'"]) simp
      then show ?thesis using ab(1,2) evs e True \<open>?ok\<close> by simp
    next
      case False
      have "LogUninit \<notin> set a" using ab(3) by (auto simp: list_all_iff)
      then show ?thesis using False m ab evs pre(2) by auto
    qed
  next
    case False
    then show ?thesis using l evs pre(2) by (auto simp: main_log_def Let_def)
  qed
qed

theorem daemon_detached_witness:
  "\<exists>p'. daemon_run 0 3 \<lparr>files = [0 \<mapsto> Terminal, 1 \<mapsto> Terminal, 2 \<mapsto> Terminal], own_session = False, sigchld_ignored = False,
     stdout_text = []\<rparr> = Continues p' \<and> files p' 1 = Some DevNull \<and> files p' 3 = None"
  using daemon_detached [of 3 "\<lparr>files = [0 \<mapsto> Terminal, 1 \<mapsto> Terminal, 2 \<mapsto> Terminal], own_session = False,
    sigchld_ignored = False, stdout_text = []\<rparr>"] by auto

text \<open>A run in which the directory has to be made and the file gives the ports only.\<close>

definition demo_surroundings :: "string list surroundings" where
  "demo_surroundings =
     \<lparr>getopt_results = [], fork_pid = 0, devnull_fd = 3, yaml_lib = demo_yaml,
      start_config = empty_config\<lparr>mysql_config := \<lparr>mysql_server_addr = ''h'', mysql_server_port = 0, mysql_user = ''u'',
        mysql_password = ''p'', mysql_database = ''d''\<rparr>\<rparr>,
      opendir_ok = (\<lambda>_. False), mkdir_ok = (\<lambda>_. True), error_text = [], db_opens = (\<lambda>_ _ _ _ _ _. True)\<rparr>"

theorem main_runs_to_end_witness:
  "fst (main_config demo_surroundings) = Status 0 \<and> starts_and_ends_log (snd (main_config demo_surroundings))"
proof -
  let ?e = demo_surroundings
  let ?r = "whisp_load_config (yaml_lib ?e) config_path (start_config ?e)"
  have "yaml_load demo_yaml config_path = Inr []" by (simp add: demo_yaml_def)
  moreover have "yaml_lib ?e = demo_yaml" by (simp add: demo_surroundings_def)
  moreover have "readable demo_doc s k demo_int" "readable demo_doc s k stoi" "readable demo_doc s k (\<lambda>t. Inr False :: string + bool)"
    for s k by (auto simp: readable_def demo_doc_def demo_int_def stoi_demo split: option.splits if_splits)
  ultimately have "?r = (Inr True, [], described demo_int (\<lambda>t. Inr False) demo_doc (start_config ?e))"
    using loads_described [OF _ demo_document] by simp
  moreover have "mysql_complete (described demo_int (\<lambda>t. Inr False) demo_doc (start_config ?e))"
    by (simp add: mysql_complete_def described_def pick_def demo_doc_def demo_surroundings_def)
  ultimately show ?thesis
    using main_runs_to_end [of ?e True "[]" _ "fst (main_config ?e)" "snd (main_config ?e)"]
    by (auto simp: demo_surroundings_def)
qed

end
