(* ===== verification/Net_Server.thy ===== *)
theory Net_Server
  imports Talko_Prelude
begin

text \<open>
  \<^verbatim>\<open>Server\<close> of \<^verbatim>\<open>service/net_server.{h,cpp}\<close>, a small reactor on one epoll descriptor.

  The state holds the open descriptors and the interest list of the epoll descriptor; the
  results of system calls are arguments. Closing a descriptor takes it off the interest list.
  \<open>closes\<close> is the list of all descriptors passed to \<^verbatim>\<open>close\<close>. The list of worker threads is
  never filled by the source, so joining them does nothing.
\<close>

section \<open>Operations\<close>

datatype net_log = NetError string | NetInfo string | NetWarn string | NetDebug string

record net_server =
  server_fd :: int
  epoll_fd :: int
  running :: bool
  open_fds :: "int set"
  interest :: "int set"
  closes :: "int list"
  net_logs :: "net_log list"

definition net_log :: "net_log \<Rightarrow> net_server \<Rightarrow> net_server" where
  "net_log e s = s\<lparr>net_logs := net_logs s @ [e]\<rparr>"

definition opened :: "int \<Rightarrow> net_server \<Rightarrow> net_server" where
  "opened d s = s\<lparr>open_fds := insert d (open_fds s)\<rparr>"

definition net_close :: "int \<Rightarrow> net_server \<Rightarrow> net_server" where
  "net_close d s = s\<lparr>open_fds := open_fds s - {d}, interest := interest s - {d}, closes := closes s @ [d]\<rparr>"

definition epoll_add :: "int \<Rightarrow> net_server \<Rightarrow> net_server" where
  "epoll_add d s = s\<lparr>interest := insert d (interest s)\<rparr>"

text \<open>\<open>sfd\<close>, \<open>bind_ok\<close>, \<open>listen_ok\<close>, \<open>efd\<close> and \<open>ctl_ok\<close> are the results of the calls of the constructor.\<close>

definition Server :: "int \<Rightarrow> bool \<Rightarrow> bool \<Rightarrow> int \<Rightarrow> bool \<Rightarrow> int \<Rightarrow> net_server" where
  "Server sfd bind_ok listen_ok efd ctl_ok port =
     (let s0 = \<lparr>server_fd = - 1, epoll_fd = - 1, running = False, open_fds = {}, interest = {}, closes = [], net_logs = []\<rparr>;
          s1 = s0\<lparr>server_fd := sfd\<rparr>
      in if sfd = - 1 then net_log (NetError ''Socket creation failed!'') s1
         else
           let s2 = opened sfd s1
           in if \<not> bind_ok then net_close sfd (net_log (NetError ''Bind failed!'') s2)
              else if \<not> listen_ok then net_close sfd (net_log (NetError ''Listen failed!'') s2)
              else
                let s3 = s2\<lparr>epoll_fd := efd\<rparr>
                in if efd = - 1 then net_close sfd (net_log (NetError ''Epoll create failed!'') s3)
                   else
                     let s4 = opened efd s3
                     in if \<not> ctl_ok then net_close efd (net_close sfd (net_log (NetError ''Epoll ctl failed!'') s4))
                        else net_log (NetInfo (''Server initialized and listening on port '' @ dec_int port)) (epoll_add sfd s4))"

definition net_stop :: "net_server \<Rightarrow> net_server" where
  "net_stop s = net_log (NetInfo ''Server stopped.'') (s\<lparr>running := False\<rparr>)"

definition net_destroy :: "net_server \<Rightarrow> net_server" where
  "net_destroy s =
     (let s1 = net_stop s;
          s2 = (if server_fd s1 \<noteq> - 1 then net_log (NetInfo ''Server socket closed.'') (net_close (server_fd s1) s1) else s1)
      in if epoll_fd s2 \<noteq> - 1 then net_log (NetInfo ''Epoll file descriptor closed.'') (net_close (epoll_fd s2) s2) else s2)"

text \<open>\<open>data\<close> is what the call of \<^verbatim>\<open>read\<close> stores, \<open>bytes_read\<close> its result.\<close>

definition process_message :: "int \<Rightarrow> int \<Rightarrow> string \<Rightarrow> net_server \<Rightarrow> net_server" where
  "process_message client_fd bytes_read data s =
     (if bytes_read \<le> 0
      then net_close client_fd (net_log (NetWarn (''Client '' @ dec_int client_fd @ '' disconnected.'')) s)
      else net_log (NetDebug (''Received message: '' @ take (nat bytes_read) data)) s)"

text \<open>An event with the answers to the calls it leads to.\<close>

record net_event =
  ev_fd :: int
  accept_result :: int
  add_ok :: bool
  read_result :: int
  read_data :: string

definition handle_one :: "net_event \<Rightarrow> net_server \<Rightarrow> net_server" where
  "handle_one ev s =
     (if ev_fd ev = server_fd s then
        if accept_result ev = - 1 then net_log (NetError ''Accept failed!'') s
        else
          let s1 = opened (accept_result ev) s
          in if \<not> add_ok ev
             then net_close (accept_result ev) (net_log (NetError ''Epoll ctl failed for client!'') s1)
             else net_log (NetInfo ''New client connected.'') (epoll_add (accept_result ev) s1)
      else process_message (ev_fd ev) (read_result ev) (read_data ev) s)"

definition handle_events :: "int \<Rightarrow> net_event list \<Rightarrow> net_server \<Rightarrow> net_server" where
  "handle_events num_events evs s =
     (if num_events = - 1 then net_log (NetError ''Epoll wait failed!'') s
      else fold handle_one (take (nat num_events) evs) s)"

text \<open>
  \<^verbatim>\<open>start\<close>, with the results of the successive waits; a wait for which there is no result does
  not return. \<open>stop_seen\<close> tells that another thread has called \<^verbatim>\<open>stop\<close> before the test.
\<close>

fun serve_rounds :: "(bool \<times> int \<times> net_event list) list \<Rightarrow> net_server \<Rightarrow> net_server" where
  "serve_rounds [] s = s"
| "serve_rounds ((stop_seen, num_events, evs) # rounds) s =
     (let s1 = (if stop_seen then net_stop s else s)
      in if running s1 then serve_rounds rounds (handle_events num_events evs s1) else s1)"

definition net_start :: "(bool \<times> int \<times> net_event list) list \<Rightarrow> net_server \<Rightarrow> net_server" where
  "net_start rounds s = serve_rounds rounds (net_log (NetInfo ''Server started, awaiting events...'') (s\<lparr>running := True\<rparr>))"

section \<open>Lemmas\<close>

text \<open>
  A server that is set up: its two descriptors are open, the listening one is watched, and the
  watched descriptors are open.
\<close>

definition net_inv :: "net_server \<Rightarrow> bool" where
  "net_inv s \<longleftrightarrow> server_fd s \<in> interest s \<and> epoll_fd s \<notin> interest s \<and> open_fds s = insert (epoll_fd s) (interest s) \<and>
     - 1 \<notin> interest s \<and> epoll_fd s \<noteq> - 1"

lemma net_inv_frame [simp]: "net_inv (net_log e s) = net_inv s" "net_inv (s\<lparr>running := b\<rparr>) = net_inv s"
  by (simp_all add: net_inv_def net_log_def)

text \<open>
  The kernel's part: \<^verbatim>\<open>accept\<close> gives a descriptor that was not open, and \<^verbatim>\<open>epoll_wait\<close>
  reports watched descriptors, each once.
\<close>

fun events_ok :: "net_event list \<Rightarrow> net_server \<Rightarrow> bool" where
  "events_ok [] s = True"
| "events_ok (ev # evs) s =
     (ev_fd ev \<in> interest s \<and> (accept_result ev = - 1 \<or> accept_result ev \<notin> open_fds s) \<and> events_ok evs (handle_one ev s))"

fun rounds_ok :: "(bool \<times> int \<times> net_event list) list \<Rightarrow> net_server \<Rightarrow> bool" where
  "rounds_ok [] s = True"
| "rounds_ok ((stop_seen, num_events, evs) # rounds) s =
     (let s1 = (if stop_seen then net_stop s else s)
      in running s1 \<longrightarrow> (num_events = - 1 \<or> events_ok (take (nat num_events) evs) s1) \<and> rounds_ok rounds (handle_events num_events evs s1))"

lemmas net_ops = net_log_def opened_def net_close_def epoll_add_def

lemma handle_one_frame [simp]: "server_fd (handle_one ev s) = server_fd s" "epoll_fd (handle_one ev s) = epoll_fd s"
  by (simp_all add: handle_one_def process_message_def net_ops Let_def)

lemma handle_one_sets:
  "open_fds (handle_one ev s) =
    (if ev_fd ev = server_fd s then
       if accept_result ev = - 1 then open_fds s
       else if add_ok ev then insert (accept_result ev) (open_fds s) else open_fds s - {accept_result ev}
     else if read_result ev \<le> 0 then open_fds s - {ev_fd ev} else open_fds s)"
  "interest (handle_one ev s) =
    (if ev_fd ev = server_fd s then
       if accept_result ev = - 1 then interest s
       else if add_ok ev then insert (accept_result ev) (interest s) else interest s - {accept_result ev}
     else if read_result ev \<le> 0 then interest s - {ev_fd ev} else interest s)"
  by (simp_all add: handle_one_def process_message_def net_ops Let_def)

lemma handle_one_inv:
  assumes "net_inv s" and "ev_fd ev \<in> interest s" and "accept_result ev = - 1 \<or> accept_result ev \<notin> open_fds s"
  shows "net_inv (handle_one ev s)"
proof -
  let ?c = "accept_result ev"
  have inv: "server_fd s \<in> interest s" "epoll_fd s \<notin> interest s" "open_fds s = insert (epoll_fd s) (interest s)"
    "- 1 \<notin> interest s" "epoll_fd s \<noteq> - 1" using assms(1) by (simp_all add: net_inv_def)
  have e: "ev_fd ev \<noteq> epoll_fd s" using assms(2) inv(2) by auto
  show ?thesis
  proof (cases "ev_fd ev = server_fd s")
    case True
    show ?thesis
    proof (cases "?c = - 1")
      case False
      then have "?c \<notin> open_fds s" using assms(3) by blast
      then have "?c \<noteq> epoll_fd s" "?c \<notin> interest s" by (simp_all add: inv(3))
      moreover from this have "?c \<noteq> server_fd s" using inv(1) by metis
      ultimately show ?thesis using True False inv
        by (cases "add_ok ev") (simp_all add: net_inv_def handle_one_sets insert_Diff_if insert_commute)
    qed (use True assms(1) in \<open>simp add: net_inv_def handle_one_sets\<close>)
  next
    case False
    then show ?thesis using inv e
      by (cases "read_result ev \<le> 0") (simp_all add: net_inv_def handle_one_sets insert_Diff_if)
  qed
qed

lemma handle_all_inv: "net_inv s \<Longrightarrow> events_ok evs s \<Longrightarrow> net_inv (fold handle_one evs s)"
  by (induction evs arbitrary: s) (simp_all add: handle_one_inv)

lemma net_inv_stop: "net_inv s \<Longrightarrow> net_inv (net_stop s)"
  by (simp add: net_stop_def)

lemma serve_rounds_inv: "net_inv s \<Longrightarrow> rounds_ok rounds s \<Longrightarrow> net_inv (serve_rounds rounds s)"
proof (induction rounds s rule: serve_rounds.induct)
  case (2 stop_seen num_events evs rounds s)
  let ?s1 = "if stop_seen then net_stop s else s"
  have s1: "net_inv ?s1" using "2.prems"(1) net_inv_stop by simp
  show ?case
  proof (cases "running ?s1")
    case True
    have "net_inv (handle_events num_events evs ?s1)"
    proof (cases "num_events = - 1")
      case True
      then show ?thesis using s1 by (simp add: handle_events_def)
    next
      case False
      then have "events_ok (take (nat num_events) evs) ?s1" using "2.prems"(2) \<open>running ?s1\<close> by (simp add: Let_def)
      then show ?thesis using False handle_all_inv [OF s1] unfolding handle_events_def by simp
    qed
    then show ?thesis using "2.IH" [OF refl True] "2.prems"(2) True by (simp add: Let_def)
  qed (use s1 in \<open>simp add: Let_def\<close>)
qed simp

lemma Server_inv:
  "sfd \<noteq> - 1 \<Longrightarrow> efd \<noteq> - 1 \<Longrightarrow> sfd \<noteq> efd \<Longrightarrow> net_inv (Server sfd True True efd True port)"
  by (auto simp: Server_def net_inv_def net_ops Let_def)

section \<open>Properties\<close>

text \<open>
  C38: However the events of a server fall, each descriptor it holds is one it watches, or the epoll
  descriptor itself: a client is watched from the moment it is accepted until its end is read,
  and then closed. Destroying the server closes its own two descriptors and leaves those of the
  remaining clients open.
\<close>

theorem net_server_descriptors:
  assumes "sfd \<noteq> - 1" and "efd \<noteq> - 1" and "sfd \<noteq> efd"
    and "rounds_ok rounds (net_log (NetInfo ''Server started, awaiting events...'') ((Server sfd True True efd True port)\<lparr>running := True\<rparr>))"
    and "s = net_start rounds (Server sfd True True efd True port)"
  shows "open_fds s = insert (epoll_fd s) (interest s) \<and> server_fd s \<in> interest s \<and> epoll_fd s \<notin> interest s \<and>
    (\<forall>ev. ev_fd ev \<in> interest s - {server_fd s} \<longrightarrow>
      open_fds (handle_one ev s) = (if read_result ev \<le> 0 then open_fds s - {ev_fd ev} else open_fds s)) \<and>
    open_fds (net_destroy s) = interest s - {server_fd s}"
proof -
  have "net_inv (net_log (NetInfo ''Server started, awaiting events...'') ((Server sfd True True efd True port)\<lparr>running := True\<rparr>))"
    using Server_inv [OF assms(1-3)] by simp
  then have inv: "net_inv s" using serve_rounds_inv assms(4,5) unfolding net_start_def by simp
  then have "server_fd s \<noteq> - 1" "epoll_fd s \<noteq> - 1" by (auto simp: net_inv_def)
  then have "open_fds (net_destroy s) = open_fds s - {server_fd s, epoll_fd s}"
    by (auto simp: net_destroy_def net_stop_def net_ops Let_def)
  moreover have "open_fds (handle_one ev s) = (if read_result ev \<le> 0 then open_fds s - {ev_fd ev} else open_fds s)"
    if "ev_fd ev \<in> interest s - {server_fd s}" for ev using that by (simp add: handle_one_sets)
  ultimately show ?thesis using inv by (auto simp: net_inv_def)
qed

text \<open>One client connects, sends a line and leaves; another stays.\<close>

theorem net_server_descriptors_witness:
  "open_fds (net_destroy (net_start
     [(False, 1, [\<lparr>ev_fd = 3, accept_result = 5, add_ok = True, read_result = 0, read_data = []\<rparr>]),
      (False, 2, [\<lparr>ev_fd = 3, accept_result = 6, add_ok = True, read_result = 0, read_data = []\<rparr>,
                  \<lparr>ev_fd = 5, accept_result = - 1, add_ok = True, read_result = 0, read_data = []\<rparr>])]
     (Server 3 True True 4 True 80))) = {6}"
proof -
  let ?rounds = "[(False, 1, [\<lparr>ev_fd = 3, accept_result = 5, add_ok = True, read_result = 0, read_data = []\<rparr>]),
      (False, 2, [\<lparr>ev_fd = 3, accept_result = 6, add_ok = True, read_result = 0, read_data = []\<rparr>,
                  \<lparr>ev_fd = 5, accept_result = - 1, add_ok = True, read_result = 0, read_data = []\<rparr>])]"
  let ?s = "net_start ?rounds (Server 3 True True 4 True 80)"
  have r: "rounds_ok ?rounds (net_log (NetInfo ''Server started, awaiting events...'') ((Server 3 True True 4 True 80)\<lparr>running := True\<rparr>))"
    by (simp add: Server_def net_ops handle_events_def handle_one_def process_message_def Let_def numeral_2_eq_2)
  have "interest ?s = {3, 6}" "server_fd ?s = 3"
    by (auto simp: net_start_def Server_def net_ops handle_events_def handle_one_def process_message_def Let_def numeral_2_eq_2)
  then show ?thesis using net_server_descriptors [OF _ _ _ r refl] by simp
qed

text \<open>
  A constructor that fails after the socket exists closes it but keeps its number; the
  destructor closes it again, when the number may belong to somebody else.
\<close>

lemma failed_server_closes_twice:
  assumes "sfd \<noteq> - 1" and "\<not> (bind_ok \<and> listen_ok \<and> efd \<noteq> - 1 \<and> ctl_ok)" and "sfd \<noteq> efd"
  shows "count_list (closes (net_destroy (Server sfd bind_ok listen_ok efd ctl_ok port))) sfd = 2"
  using assms by (auto simp: Server_def net_destroy_def net_stop_def net_ops Let_def)

text \<open>
  A server whose constructor failed can still be started; its waits fail at once and it repeats
  them without end.
\<close>

lemma failed_server_spins:
  assumes "\<forall>r \<in> set rounds. \<not> fst r \<and> fst (snd r) = - 1" and "running s"
  shows "net_logs (serve_rounds rounds s) = net_logs s @ replicate (length rounds) (NetError ''Epoll wait failed!'') \<and>
    running (serve_rounds rounds s)"
  using assms
proof (induction rounds s rule: serve_rounds.induct)
  case (2 stop_seen num_events evs rounds s)
  then show ?case by (simp add: handle_events_def net_log_def)
qed simp

end
