(* ===== verification/Loop_Setup.thy ===== *)
theory Loop_Setup
  imports Event_Loop Acceptor
begin

text \<open>
  Construction and destruction of an \<^verbatim>\<open>EventLoop\<close> (\<^verbatim>\<open>network/event_loop.{h,cpp}\<close>): the
  wake-up descriptor with its channel, and the thread-local pointer to the loop of the thread.
  \<open>loop_env\<close> is what the members work on outside the loop object. Loops are named by address;
  logging at level FATAL does not end the process.
\<close>

section \<open>Operations\<close>

record loop_env =
  env_sys :: sock_sys
  loop_in_thread :: "nat option"

record ('t, 'k) built_loop =
  this_loop :: nat
  wakeup_fd :: int
  wakeup_channel :: caddr
  loop_state :: "('t, 'k) event_loop"

definition env_log :: "string \<Rightarrow> loop_env \<Rightarrow> loop_env" where
  "env_log msg v = v\<lparr>env_sys := add_log (Fatal msg) (env_sys v)\<rparr>"

definition get_curthread_eventloop :: "loop_env \<Rightarrow> nat option" where
  "get_curthread_eventloop v = loop_in_thread v"

text \<open>\<open>r\<close> is the result of \<^verbatim>\<open>eventfd\<close>, \<open>name\<close> the address of the loop as text.\<close>

definition create_wakeup_fd :: "int \<Rightarrow> string \<Rightarrow> loop_env \<Rightarrow> bool \<times> int \<times> loop_env" where
  "create_wakeup_fd r name v =
     (if r < 0 then (False, r, env_log (''Unable to create wakeup eventfd, EventLoop: 0x'' @ name) v)
      else (True, r, v\<lparr>env_sys := sys_open r (env_sys v)\<rparr>))"

text \<open>
  \<open>ch\<close> is the address of the wake-up channel, \<open>st\<close> the channels of the program, \<open>k\<close> the kernel
  with the new epoll descriptor and \<open>q\<close> the new timer queue.
\<close>

definition EventLoop_create ::
  "'k epoll_ctl \<Rightarrow> int \<Rightarrow> string \<Rightarrow> nat \<Rightarrow> caddr \<Rightarrow> (caddr \<Rightarrow> channel) \<Rightarrow> 'k \<Rightarrow> Timer_Queue.timer_queue \<Rightarrow> loop_env \<Rightarrow>
   ('t, 'k) built_loop \<times> loop_env" where
  "EventLoop_create ctl r name this ch st k q v =
     (case create_wakeup_fd r name v of
        (_, wfd, v1) \<Rightarrow>
          let p0 = EpollPoller (st(ch := new_channel wfd)) k;
              v2 = (if loop_in_thread v1 \<noteq> None then env_log ''Another EventLoop  exists in this thread '' v1
                    else v1\<lparr>loop_in_thread := Some this\<rparr>);
              p1 = set_chan ch (set_read_callback True (chan p0 ch)) p0;
              p2 = snd (enable_reading ctl ch p1)
          in (\<lparr>this_loop = this, wakeup_fd = wfd, wakeup_channel = ch, loop_state = EventLoop q p2\<rparr>, v2))"

definition abort_not_in_loop_thread :: "string \<Rightarrow> loop_env \<Rightarrow> loop_env" where
  "abort_not_in_loop_thread ids v = env_log (''EventLoop::abortNotInLoopThread - EventLoop '' @ ids) v"

definition assert_in_loop_thread :: "bool \<Rightarrow> string \<Rightarrow> loop_env \<Rightarrow> loop_env" where
  "assert_in_loop_thread in_loop ids v = (if \<not> in_loop then abort_not_in_loop_thread ids v else v)"

definition EventLoop_destroy ::
  "'k epoll_ctl \<Rightarrow> string \<Rightarrow> bool \<Rightarrow> string \<Rightarrow> ('t, 'k) built_loop \<Rightarrow> loop_env \<Rightarrow> 'k epoll_poller \<times> loop_env" where
  "EventLoop_destroy ctl errtext in_loop ids b v =
     (let v1 = assert_in_loop_thread in_loop ids v;
          p1 = snd (disable_all ctl (wakeup_channel b) (poller (loop_state b)));
          p2 = channel_remove ctl (wakeup_channel b) p1;
          v2 = v1\<lparr>env_sys := socks_close errtext (wakeup_fd b) (env_sys v1)\<rparr>
      in (p2, v2\<lparr>loop_in_thread := None\<rparr>))"

definition print_active_channels :: "('t, 'k) event_loop \<Rightarrow> string list" where
  "print_active_channels l = map (\<lambda>a. ''{'' @ c_str (revents_2_string (chan (poller l) a)) @ ''}'') (active_channels l)"

section \<open>Properties\<close>

text \<open>
  A loop that is built without an error watches its wake-up descriptor for reading and nothing
  else and is the loop of its thread; destroyed, it has no channel, its descriptor is closed and
  the thread has no loop.
\<close>

theorem loop_setup:
  assumes "0 \<le> r" and "fd_table (env_sys v) r = None" and "loop_in_thread v = None"
    and "\<And>a. a \<noteq> ch \<Longrightarrow> index (st a) = new_index"
    and "EventLoop_create ctl r name this ch st k q v = (b, v1)"
    and "EventLoop_destroy ctl errtext True ids b v1 = (p, v2)"
  shows "reg_ok (poller (loop_state b)) \<and> channels (poller (loop_state b)) = [r \<mapsto> ch] \<and>
    events (chan (poller (loop_state b)) ch) = read_event \<and> has_read_callback (chan (poller (loop_state b)) ch) \<and>
    kernel (poller (loop_state b)) = snd (ctl CTL_ADD r read_event ch k) \<and> get_curthread_eventloop v1 = Some this \<and>
    \<not> has_channel ch p \<and> fd_table (env_sys v2) = fd_table (env_sys v) \<and> get_curthread_eventloop v2 = None"
proof -
  let ?p = "poller (loop_state b)"
  have b: "wakeup_channel b = ch" "wakeup_fd b = r" "loop_in_thread v1 = Some this"
      "fd_table (env_sys v1) = (fd_table (env_sys v))(r \<mapsto> OtherFd)"
    using assms(1,3,5) by (auto simp: EventLoop_create_def create_wakeup_fd_def sys_open_def Let_def)
  have pd: "?p = snd (enable_reading ctl ch (set_chan ch ((new_channel r)\<lparr>has_read_callback := True\<rparr>)
      (EpollPoller (st(ch := new_channel r)) k)))"
    using assms(1,5) by (auto simp: EventLoop_create_def create_wakeup_fd_def EventLoop_def EpollPoller_def Let_def)
  have p: "channels ?p = [r \<mapsto> ch]" "chan ?p = st(ch := (new_channel r)\<lparr>has_read_callback := True, events := read_event, index := added_index\<rparr>)"
      "kernel ?p = snd (ctl CTL_ADD r read_event ch k)"
    unfolding pd by (simp_all add: enable_reading_def set_events_def update_channel_def EpollPoller_def new_channel_def index_consts
      Channel_Poller.poller_update_def set_chan_def set_index_def case_prod_beta Let_def)
  have reg: "reg_ok ?p" using assms(4) by (auto simp: reg_ok_def p index_consts new_channel_def)
  have "\<not> has_channel ch p" using unregistered [OF reg] assms(6) b(1) by (auto simp: EventLoop_destroy_def Let_def)
  moreover have "fd_table (env_sys v2) = fd_table (env_sys v)" "loop_in_thread v2 = None"
    using assms(2,6) b by (auto simp: EventLoop_destroy_def assert_in_loop_thread_def socks_close_def Let_def fun_eq_iff)
  ultimately show ?thesis using reg p b(3) by (simp add: get_curthread_eventloop_def new_channel_def)
qed

definition demo_env :: loop_env where
  "demo_env = \<lparr>env_sys = \<lparr>fd_table = Map.empty, sock_logs = []\<rparr>, loop_in_thread = None\<rparr>"

definition demo_built :: "(unit, unit) built_loop \<times> loop_env" where
  "demo_built = EventLoop_create (\<lambda>op d ev c k. (True, k)) 3 ''1'' 1 0 (\<lambda>_. new_channel 0) () demo_queue demo_env"

theorem loop_setup_witness:
  "channels (poller (loop_state (fst demo_built))) = [3 \<mapsto> 0] \<and> get_curthread_eventloop (snd demo_built) = Some 1"
proof -
  let ?ctl = "\<lambda>op d ev c k. (True, k)"
  obtain b v1 where b: "demo_built = (b, v1)" by fastforce
  obtain p v2 where p: "EventLoop_destroy ?ctl [] True [] b v1 = (p, v2)" by fastforce
  have "0 \<le> (3 :: int)" "fd_table (env_sys demo_env) 3 = None" "loop_in_thread demo_env = None"
    "\<And>a :: nat. a \<noteq> 0 \<Longrightarrow> index (new_channel 0) = new_index"
    by (simp_all add: demo_env_def new_channel_def new_index_def)
  from loop_setup [OF this b [unfolded demo_built_def] p] show ?thesis by (simp add: b)
qed

text \<open>
  Building a second loop in a thread is only logged; destroying it takes the pointer to the
  first loop away.
\<close>

lemma second_loop_clears_first:
  assumes "loop_in_thread v = Some l1" and "EventLoop_create ctl r name l2 ch st k q v = (b, v1)"
    and "EventLoop_destroy ctl errtext in_loop ids b v1 = (p, v2)"
  shows "get_curthread_eventloop v1 = Some l1 \<and> get_curthread_eventloop v2 = None"
  using assms by (auto simp: EventLoop_create_def create_wakeup_fd_def EventLoop_destroy_def get_curthread_eventloop_def
    env_log_def Let_def split: if_splits)

end
