(* ===== verification/Conn_Events.thy ===== *)
theory Conn_Events
  imports Tcp_Connection
begin

text \<open>
  A connection in its event loop: what the events the poller reports for its channel make of
  it. The constructor of \<^verbatim>\<open>TcpConnection\<close> binds its four handlers to the channel
  (\<^verbatim>\<open>network/tcp_connect.cpp\<close>), \<^verbatim>\<open>EventLoop::loop\<close> polls and calls \<^verbatim>\<open>Channel::handle_event\<close>,
  which calls the handlers the reported mask asks for, one after the other.
\<close>

section \<open>Definitions\<close>

text \<open>The results of the system calls the handlers make during one event.\<close>

record conn_io =
  io_read :: int
  io_bytes :: "byte list"
  io_errno :: int
  io_write :: int

fun run_callback ::
  "'k epoll_ctl \<Rightarrow> conn_io \<Rightarrow> (byte_buffer \<Rightarrow> byte_buffer) \<Rightarrow> callback_call \<Rightarrow> 'k tcp_connection \<Rightarrow> 'k tcp_connection" where
  "run_callback ctl io on_msg CloseCallback c = handle_close ctl c"
| "run_callback ctl io on_msg ErrorCallback c = handle_error ctl c"
| "run_callback ctl io on_msg (ReadCallback t) c = Tcp_Connection.handle_read ctl (io_read io) (io_bytes io) (io_errno io) t on_msg c"
| "run_callback ctl io on_msg WriteCallback c = handle_write ctl (io_write io) c"

definition conn_event ::
  "'k epoll_ctl \<Rightarrow> conn_io \<Rightarrow> (byte_buffer \<Rightarrow> byte_buffer) \<Rightarrow> timestamp \<Rightarrow> 'k tcp_connection \<Rightarrow> 'k tcp_connection" where
  "conn_event ctl io on_msg t c = fold (run_callback ctl io on_msg) (handle_event (conn_channel c) t) c"

text \<open>
  A turn of the loop in which the poll reports the mask \<open>ev\<close> for this connection only: the
  channel is handled when the poller hands it out.
\<close>

definition conn_turn ::
  "'k epoll_ctl \<Rightarrow> conn_io \<Rightarrow> (byte_buffer \<Rightarrow> byte_buffer) \<Rightarrow> int \<Rightarrow> mask \<Rightarrow> 'k tcp_connection \<Rightarrow> 'k tcp_connection" where
  "conn_turn ctl io on_msg clock ev c =
     (case poll 1 [(ev, chan_addr c)] clock (loop_poller c) of
        (t, active, p) \<Rightarrow> fold (\<lambda>a. conn_event ctl io on_msg t) active (c\<lparr>loop_poller := p\<rparr>))"

text \<open>
  Turns in which the socket is writable and takes \<open>w i\<close> bytes in the \<open>i\<close>-th turn, or all there
  are when there are fewer.
\<close>

fun drain_turns :: "'k epoll_ctl \<Rightarrow> (byte_buffer \<Rightarrow> byte_buffer) \<Rightarrow> (nat \<Rightarrow> nat) \<Rightarrow> nat \<Rightarrow> 'k tcp_connection \<Rightarrow> 'k tcp_connection" where
  "drain_turns ctl on_msg w 0 c = c"
| "drain_turns ctl on_msg w (Suc k) c =
     (let c' = drain_turns ctl on_msg w k c;
          io = \<lparr>io_read = 0, io_bytes = [], io_errno = 0, io_write = int (min (w k) (length (outgoing c')))\<rparr>
      in conn_turn ctl io on_msg 0 POLLOUT c')"

section \<open>The handlers stay bound\<close>

definition hooks :: "channel \<Rightarrow> bool \<times> bool \<times> bool \<times> bool" where
  "hooks c = (has_read_callback c, has_write_callback c, has_close_callback c, has_error_callback c)"

abbreviation conn_hooks :: "'k tcp_connection \<Rightarrow> bool \<times> bool \<times> bool \<times> bool" where
  "conn_hooks c \<equiv> hooks (conn_channel c)"

lemma update_channel_hooks: "hooks (chan (snd (update_channel ctl a p)) b) = hooks (chan p b)"
  by (simp add: update_channel_def Let_def case_prod_beta bool.case_eq_if hooks_def poller_update_def set_index_def set_chan_def)

lemma set_events_hooks: "hooks (chan (snd (set_events ctl a ev p)) b) = hooks (chan p b)"
  by (simp add: set_events_def update_channel_hooks) (simp add: hooks_def set_chan_def)

lemma channel_remove_hooks: "hooks (chan (channel_remove ctl a p) b) = hooks (chan p b)"
  by (simp add: channel_remove_def remove_channel_def Let_def hooks_def poller_update_def set_index_def set_chan_def case_prod_beta)

lemma on_channel_hooks [simp]:
  "conn_hooks (snd (on_channel (enable_reading ctl) c)) = conn_hooks c"
  "conn_hooks (snd (on_channel (enable_writing ctl) c)) = conn_hooks c"
  "conn_hooks (snd (on_channel (disable_writing ctl) c)) = conn_hooks c"
  "conn_hooks (snd (on_channel (disable_all ctl) c)) = conn_hooks c"
  "conn_hooks (c\<lparr>loop_poller := channel_remove ctl a (loop_poller c)\<rparr>) = conn_hooks c"
  by (simp_all add: on_channel_def conn_channel_def case_prod_beta enable_reading_def enable_writing_def disable_writing_def
      disable_all_def set_events_hooks channel_remove_hooks)

lemma conn_channel_frame [simp]:
  "conn_channel (c\<lparr>wire := w\<rparr>) = conn_channel c" "conn_channel (c\<lparr>output_buffer := b\<rparr>) = conn_channel c"
  "conn_channel (c\<lparr>calls := k\<rparr>) = conn_channel c" "conn_channel (c\<lparr>state := s\<rparr>) = conn_channel c"
  "conn_channel (c\<lparr>shut := x\<rparr>) = conn_channel c" "conn_channel (c\<lparr>queued := q\<rparr>) = conn_channel c"
  "conn_channel (c\<lparr>input_buffer := i\<rparr>) = conn_channel c" "conn_channel (queue_task t c) = conn_channel c"
  "conn_channel (shutdown_in_loop c) = conn_channel c" "conn_channel (conn_set_write_complete_callback cb c) = conn_channel c"
  "conn_channel (set_high_water_mark_callback cb h c) = conn_channel c"
  by (simp_all add: conn_channel_def queue_task_def shutdown_in_loop_def conn_set_write_complete_callback_def
      set_high_water_mark_callback_def)

lemma handle_close_hooks [simp]: "conn_hooks (handle_close ctl c) = conn_hooks c"
  by (simp add: handle_close_def Let_def)

lemma send_in_loop_hooks [simp]: "conn_hooks (send_in_loop ctl n err data c) = conn_hooks c"
proof -
  have "conn_channel (snd (snd (snd (try_write n err data c)))) = conn_channel c" by (simp add: try_write_def Let_def)
  then show ?thesis by (simp add: send_in_loop_def Let_def case_prod_beta)
qed

lemma handler_hooks [simp]:
  "conn_hooks (handle_write ctl n c) = conn_hooks c"
  "conn_hooks (Tcp_Connection.handle_read ctl n d err t on_msg c) = conn_hooks c"
  "conn_hooks (conn_established ctl c) = conn_hooks c" "conn_hooks (conn_destroyed ctl c) = conn_hooks c"
  by (simp_all add: handle_write_def Tcp_Connection.handle_read_def handle_error_def conn_established_def conn_destroyed_def
      Let_def case_prod_beta bool.case_eq_if)

lemma conn_step_hooks: "conn_step ctl s s' \<Longrightarrow> conn_hooks (fst s') = conn_hooks (fst s)"
proof (induction rule: conn_step.induct)
  case (task c t ts c0 n acc err)
  then show ?case by (cases t) (simp_all add: force_close_in_loop_def)
next
  case (loop_goes_on p c ev acc)
  then show ?case by (simp add: conn_channel_def hooks_def)
qed (simp_all add: send_def shutdown_def force_close_def handle_error_def Let_def)

lemma conn_reachable_hooks: "conn_reachable ctl s \<Longrightarrow> conn_hooks (fst s) = (True, True, True, True)"
proof (induction rule: conn_reachable.induct)
  case (new nm sockfd a p)
  then show ?case by (simp add: TcpConnection_def conn_channel_def hooks_def)
next
  case (step s s')
  then show ?case using conn_step_hooks by metis
qed

section \<open>One event\<close>

text \<open>When a handler ends the connection, for a connection whose channel asks for write events or not.\<close>

fun closes :: "conn_io \<Rightarrow> bool \<Rightarrow> callback_call \<Rightarrow> bool" where
  "closes io w CloseCallback = True"
| "closes io w ErrorCallback = True"
| "closes io w (ReadCallback t) = (io_read io \<le> 0)"
| "closes io w WriteCallback = (w \<and> io_write io \<le> 0)"

abbreviation closings :: "'k tcp_connection \<Rightarrow> nat" where
  "closings c \<equiv> count_list (calls c) CallClose"

lemma handle_close_effect:
  "state (handle_close ctl c) = kDisconnected"
  "closings (handle_close ctl c) = closings c + (if state c = kDisconnected then 0 else 1)"
  by (simp_all add: handle_close_frame)

lemma handle_read_effect:
  assumes "c' = Tcp_Connection.handle_read ctl n d err t on_msg c"
  shows "state c' = (if n \<le> 0 then kDisconnected else state c)"
    and "closings c' = closings c + (if n \<le> 0 \<and> state c \<noteq> kDisconnected then 1 else 0)"
    and "0 < n \<Longrightarrow> writing c' = writing c"
proof -
  have "fst (snd (bb_read_fd (input_buffer c) n d err)) = n" by (simp add: bb_read_fd_def Let_def)
  then show "state c' = (if n \<le> 0 then kDisconnected else state c)"
    "closings c' = closings c + (if n \<le> 0 \<and> state c \<noteq> kDisconnected then 1 else 0)" "0 < n \<Longrightarrow> writing c' = writing c"
    by (simp_all add: assms Tcp_Connection.handle_read_def handle_error_def Let_def case_prod_beta handle_close_effect)
qed

lemma handle_write_effect:
  assumes "c' = handle_write ctl n c"
  shows "state c' = (if writing c \<and> n \<le> 0 then kDisconnected else state c)"
    and "closings c' = closings c + (if writing c \<and> n \<le> 0 \<and> state c \<noteq> kDisconnected then 1 else 0)"
  by (simp_all add: assms handle_write_def Let_def handle_close_effect)

lemma fold_callbacks:
  assumes "WriteCallback \<notin> set ks" and "c' = fold (run_callback ctl io on_msg) ks c" and "e \<longleftrightarrow> list_ex (closes io False) ks"
  shows "state c' = (if e then kDisconnected else state c) \<and>
    closings c' = closings c + (if e \<and> state c \<noteq> kDisconnected then 1 else 0) \<and> (\<not> e \<longrightarrow> writing c' = writing c)"
  using assms
proof (induction ks arbitrary: c e)
  case (Cons k ks)
  let ?c = "run_callback ctl io on_msg k c"
  have "state ?c = (if closes io False k then kDisconnected else state c)"
    "closings ?c = closings c + (if closes io False k \<and> state c \<noteq> kDisconnected then 1 else 0)"
    "\<not> closes io False k \<longrightarrow> writing ?c = writing c"
    using Cons.prems(1) by (cases k; simp add: handle_error_def handle_close_effect handle_read_effect [OF refl])+
  with Cons.IH [of ?c, OF _ _ refl] Cons.prems show ?case by auto
qed simp

text \<open>The conditions under which \<^verbatim>\<open>handle_event\<close> calls the four handlers.\<close>

definition hangup :: "mask \<Rightarrow> bool" where "hangup r \<longleftrightarrow> r AND POLLHUP \<noteq> 0 \<and> r AND POLLIN = 0"
definition fault :: "mask \<Rightarrow> bool" where "fault r \<longleftrightarrow> r AND (POLLERR OR POLLNVAL) \<noteq> 0"
definition input_ready :: "mask \<Rightarrow> bool" where "input_ready r \<longleftrightarrow> r AND (POLLIN OR POLLPRI OR POLLRDHUP) \<noteq> 0"
definition output_ready :: "mask \<Rightarrow> bool" where "output_ready r \<longleftrightarrow> r AND POLLOUT \<noteq> 0"

lemma handle_event_bound:
  assumes "hooks ch = (True, True, True, True)" and "r = revents ch"
  shows "handle_event ch t =
    (if hangup r then [CloseCallback] else []) @ (if fault r then [ErrorCallback] else []) @
    (if input_ready r then [ReadCallback t] else []) @ (if output_ready r then [WriteCallback] else [])"
  using assms by (simp add: handle_event_def hooks_def hangup_def fault_def input_ready_def output_ready_def)

section \<open>Turns of a writable socket\<close>

text \<open>A connection the poller hands out, with output pending.\<close>

definition sending :: "'k tcp_connection \<Rightarrow> bool" where
  "sending c \<longleftrightarrow> conn_hooks c = (True, True, True, True) \<and> has_channel (chan_addr c) (loop_poller c) \<and>
     bb_wf (output_buffer c) \<and> writing c \<and> outgoing c \<noteq> []"

text \<open>What is left to do when the last byte has been written.\<close>

definition drained :: "'k tcp_connection \<Rightarrow> 'k tcp_connection \<Rightarrow> bool" where
  "drained c c' \<longleftrightarrow> outgoing c' = [] \<and> \<not> writing c' \<and> state c' = state c \<and> calls c' = calls c \<and>
     (has_write_complete c \<longrightarrow> WriteCompleteTask \<in> set (queued c')) \<and> (state c = kDisconnecting \<longrightarrow> shut c')"

lemma poll_hands_out:
  assumes "has_channel a p"
  obtains p' where "poll 1 [(ev, a)] clock p = (now clock, [a], p')" and "chan p' = (chan p)(a := set_revents ev (chan p a))"
    and "channels p' = channels p"
proof -
  have "fill_active_channels [(ev, a)] p [] = ([a], set_chan a (set_revents ev (chan p a)) p)"
    using assms by (simp add: has_channel_def)
  then show thesis using that by (simp add: poll_def set_chan_def)
qed

lemma turn_is_write:
  assumes "sending c"
  obtains c1 where "conn_turn ctl io on_msg clock POLLOUT c = handle_write ctl (io_write io) c1" and "sending c1"
    and "wire c1 = wire c" "output_buffer c1 = output_buffer c" "state c1 = state c" "calls c1 = calls c"
      "queued c1 = queued c" "has_write_complete c1 = has_write_complete c" "chan_addr c1 = chan_addr c"
proof -
  have s: "conn_hooks c = (True, True, True, True)" "has_channel (chan_addr c) (loop_poller c)" "writing c"
    using assms by (simp_all add: sending_def)
  obtain p' where p': "poll 1 [(POLLOUT, chan_addr c)] clock (loop_poller c) = (now clock, [chan_addr c], p')"
    "chan p' = (chan (loop_poller c))(chan_addr c := set_revents POLLOUT (conn_channel c))"
    "channels p' = channels (loop_poller c)"
    using poll_hands_out [OF s(2)] unfolding conn_channel_def by metis
  let ?c = "c\<lparr>loop_poller := p'\<rparr>"
  have ch: "conn_channel ?c = set_revents POLLOUT (conn_channel c)" by (simp add: conn_channel_def p'(2))
  then have h: "conn_hooks ?c = (True, True, True, True)" using s(1) by (simp add: hooks_def)
  have r: "POLLOUT = revents (conn_channel ?c)" by (simp add: ch)
  have "handle_event (conn_channel ?c) (now clock) = [WriteCallback]"
    unfolding handle_event_bound [OF h r]
    by (simp add: hangup_def fault_def input_ready_def output_ready_def POLLOUT_def POLLHUP_def POLLERR_def POLLNVAL_def
        POLLIN_def POLLPRI_def POLLRDHUP_def)
  then have "conn_turn ctl io on_msg clock POLLOUT c = handle_write ctl (io_write io) ?c"
    by (simp add: conn_turn_def p'(1) conn_event_def)
  moreover have "writing ?c" using s(3) writing_loop_goes_on [of p' c POLLOUT] p'(2) by simp
  then have "sending ?c" using assms h p'(2,3) by (simp add: sending_def has_channel_def outgoing_def conn_channel_def)
  ultimately show thesis using that by simp
qed

lemma write_some:
  assumes "sending c" and "0 < n" and "n \<le> length (outgoing c)" and c'_def: "c' = handle_write ctl (int n) c"
  shows "wire c' = wire c @ take n (outgoing c)" and "outgoing c' = drop n (outgoing c)"
    and "n < length (outgoing c) \<Longrightarrow> sending c' \<and> state c' = state c \<and> calls c' = calls c \<and>
      has_write_complete c' = has_write_complete c"
    and "n = length (outgoing c) \<Longrightarrow> drained c c'"
proof -
  have wf: "bb_wf (output_buffer c)" "writing c" using assms(1) by (simp_all add: sending_def)
  define c1 where "c1 = c\<lparr>wire := wire c @ take n (outgoing c), output_buffer := fst (bb_retrieve (output_buffer c) n)\<rparr>"
  have le: "n \<le> length (bb_content (output_buffer c))" using assms(3) by (simp add: outgoing_def)
  have wf1: "bb_wf (output_buffer c1)" using bbq.get_inv [OF wf(1)] by (simp add: c1_def)
  have "take n (outgoing c) @ outgoing c1 = outgoing c" using bbq.get_splits [OF wf(1) le] by (simp add: c1_def outgoing_def)
  then have o1: "outgoing c1 = drop n (outgoing c)" by (metis append_same_eq append_take_drop_id same_append_eq)
  have rd: "bb_bytes_readable (output_buffer c1) = 0 \<longleftrightarrow> n = length (outgoing c)"
    using readable_content [OF wf1] o1 assms(3) by (auto simp: outgoing_def)
  have c': "c' = (if n = length (outgoing c) then
      let c2 = snd (on_channel (disable_writing ctl) c1);
          c3 = (if has_write_complete c2 then queue_task WriteCompleteTask c2 else c2)
      in if state c3 = kDisconnecting then shutdown_in_loop c3 else c3 else c1)"
    using wf(2) assms(2) rd peeked_content [OF wf(1)]
    by (simp add: c'_def handle_write_def c1_def outgoing_def Let_def)
  have f: "output_buffer c' = output_buffer c1" "wire c' = wire c1" "state c' = state c1" "calls c' = calls c1"
    by (simp_all add: c' Let_def)
  show "wire c' = wire c @ take n (outgoing c)" using f(2) by (simp add: c1_def)
  show "outgoing c' = drop n (outgoing c)" using f(1) o1 by (simp add: outgoing_def)
  show "sending c' \<and> state c' = state c \<and> calls c' = calls c \<and> has_write_complete c' = has_write_complete c"
    if "n < length (outgoing c)"
    using that assms(1) wf1 o1 by (simp add: c' sending_def) (simp add: c1_def)
  show "drained c c'" if "n = length (outgoing c)"
    using that channel_writing(2) [of ctl c1] f o1
    by (auto simp: drained_def c' Let_def outgoing_def shutdown_in_loop_def) (simp_all add: c1_def queue_task_def)
qed

lemma turn_writes:
  assumes "sending c" and "0 < n" and "n \<le> length (outgoing c)" and "c' = conn_turn ctl (io\<lparr>io_write := int n\<rparr>) on_msg clock POLLOUT c"
  shows "wire c' @ outgoing c' = wire c @ outgoing c" and "length (outgoing c') = length (outgoing c) - n"
    and "n < length (outgoing c) \<Longrightarrow> sending c' \<and> state c' = state c \<and> calls c' = calls c \<and>
      has_write_complete c' = has_write_complete c"
    and "n = length (outgoing c) \<Longrightarrow> drained c c'"
proof -
  obtain c1 where t: "c' = handle_write ctl (int n) c1" and s1: "sending c1"
    and f: "wire c1 = wire c" "output_buffer c1 = output_buffer c" "state c1 = state c" "calls c1 = calls c"
      "has_write_complete c1 = has_write_complete c"
    using turn_is_write [OF assms(1), of ctl "io\<lparr>io_write := int n\<rparr>" on_msg clock] assms(4) by auto
  have o: "outgoing c1 = outgoing c" by (simp add: outgoing_def f(2))
  note w = write_some [OF s1 assms(2) _ t, unfolded o, OF assms(3)]
  show "wire c' @ outgoing c' = wire c @ outgoing c" using w(1,2) f(1) by simp
  show "length (outgoing c') = length (outgoing c) - n" using w(2) by simp
  show "sending c' \<and> state c' = state c \<and> calls c' = calls c \<and> has_write_complete c' = has_write_complete c"
    if "n < length (outgoing c)" using w(3) [OF that] f by simp
  show "drained c c'" if "n = length (outgoing c)" using w(4) [OF that] f by (simp add: drained_def)
qed

text \<open>As long as output is pending, every turn writes at least one byte of it.\<close>

lemma drain_progress:
  assumes "sending c" and "\<And>i. 0 < w i" and "c' = drain_turns ctl on_msg w k c"
    and "\<And>i. i < k \<Longrightarrow> outgoing (drain_turns ctl on_msg w i c) \<noteq> []"
  shows "wire c' @ outgoing c' = wire c @ outgoing c \<and> length (outgoing c') + k \<le> length (outgoing c) \<and>
    (if outgoing c' = [] then drained c c'
     else sending c' \<and> state c' = state c \<and> calls c' = calls c \<and> has_write_complete c' = has_write_complete c)"
  using assms(3,4)
proof (induction k arbitrary: c')
  case 0
  then show ?case using assms(1) by (simp add: sending_def)
next
  case (Suc k)
  let ?d = "drain_turns ctl on_msg w k c"
  let ?n = "min (w k) (length (outgoing ?d))"
  have ne: "outgoing ?d \<noteq> []" using Suc.prems(2) by simp
  have ih: "wire ?d @ outgoing ?d = wire c @ outgoing c" "length (outgoing ?d) + k \<le> length (outgoing c)"
    "sending ?d" "state ?d = state c" "calls ?d = calls c" "has_write_complete ?d = has_write_complete c"
    using Suc.IH [OF refl] Suc.prems(2) ne by auto
  have n: "0 < ?n" "?n \<le> length (outgoing ?d)" using ne assms(2) by auto
  have "c' = conn_turn ctl (\<lparr>io_read = 0, io_bytes = [], io_errno = 0, io_write = 0\<rparr>\<lparr>io_write := int ?n\<rparr>) on_msg 0 POLLOUT ?d"
    using Suc.prems(1) by (simp add: Let_def)
  note t = turn_writes [OF ih(3) n this]
  have len: "length (outgoing c') + Suc k \<le> length (outgoing c)" using t(2) ih(2) n by linarith
  show ?case
  proof (cases "?n = length (outgoing ?d)")
    case True
    then have "drained c c'" using t(4) ih(4-6) by (simp add: drained_def)
    moreover have "outgoing c' = []" using t(2) True by simp
    ultimately show ?thesis using t(1) ih(1) len by simp
  next
    case False
    then have "sending c' \<and> state c' = state c \<and> calls c' = calls c \<and> has_write_complete c' = has_write_complete c"
      using t(3) n(2) ih(4-6) by (metis le_neq_implies_less)
    moreover from this have "outgoing c' \<noteq> []" by (simp add: sending_def)
    ultimately show ?thesis using t(1) ih(1) len by simp
  qed
qed

lemma sending_drains:
  assumes "sending c" and "\<And>i. 0 < w i"
  obtains k where "k \<le> length (outgoing c)" and "drained c (drain_turns ctl on_msg w k c)"
    and "wire (drain_turns ctl on_msg w k c) = wire c @ outgoing c"
proof -
  let ?done = "\<lambda>k. outgoing (drain_turns ctl on_msg w k c) = []"
  have ex: "\<exists>k \<le> length (outgoing c). ?done k"
    using drain_progress [OF assms refl, of "length (outgoing c)" ctl on_msg] nat_less_le by fastforce
  define k where "k = (LEAST k. ?done k)"
  obtain j where j: "j \<le> length (outgoing c)" "?done j" using ex by blast
  have k: "?done k" "k \<le> j" unfolding k_def using j(2) by (rule LeastI, rule Least_le)
  have "outgoing (drain_turns ctl on_msg w i c) \<noteq> []" if "i < k" for i
    using that not_less_Least [of i ?done] by (simp add: k_def)
  note p = drain_progress [OF assms refl, where k = k and ctl = ctl and on_msg = on_msg, OF this]
  show thesis using that [of k] p k j(1) by simp
qed

lemma reachable_sending:
  assumes "conn_reachable ctl (c, acc)" and "state c \<noteq> kDisconnected" and "outgoing c \<noteq> []"
    and "has_channel (chan_addr c) (loop_poller c)"
  shows "sending c \<and> wire c @ outgoing c = acc"
  using conn_reachable_stream [OF assms(1)] conn_reachable_hooks [OF assms(1)] assms(2-4)
  by (simp add: sending_def stream_inv_def write_interest_def)

section \<open>Properties\<close>

text \<open>
  C10: pending output is always delivered to a socket that keeps taking some. From any state of
  an open connection whose channel the poller knows, if the poll reports the socket writable in
  turn after turn and each write takes at least one byte, however few, then after at most as many
  turns as there are bytes pending every byte the connection ever accepted is on the wire, the
  channel no longer asks for write events, the connection is in the state it was in, the write
  complete callback is queued when there is one, and a shutdown that waited for the output has
  been carried out.
\<close>

theorem writable_socket_drains:
  assumes "conn_reachable ctl (c, acc)" and "state c \<noteq> kDisconnected" and "outgoing c \<noteq> []"
    and "has_channel (chan_addr c) (loop_poller c)" and "\<And>i. 0 < w i"
  shows "\<exists>k \<le> length (outgoing c). \<exists>c'. c' = drain_turns ctl on_msg w k c \<and> wire c' = acc \<and> outgoing c' = [] \<and>
    \<not> writing c' \<and> state c' = state c \<and> calls c' = calls c \<and>
    (has_write_complete c \<longrightarrow> WriteCompleteTask \<in> set (queued c')) \<and> (state c = kDisconnecting \<longrightarrow> shut c')"
proof -
  have s: "sending c" "wire c @ outgoing c = acc" using reachable_sending [OF assms(1-4)] by simp_all
  obtain k where "k \<le> length (outgoing c)" "drained c (drain_turns ctl on_msg w k c)"
    "wire (drain_turns ctl on_msg w k c) = wire c @ outgoing c"
    by (rule sending_drains [OF s(1) assms(5), where ctl = ctl and on_msg = on_msg])
  with s(2) show ?thesis unfolding drained_def by metis
qed

text \<open>The connection of the examples after a send of which the socket took two bytes.\<close>

definition demo_pending :: "(int \<rightharpoonup> mask \<times> caddr) tcp_connection" where
  "demo_pending = send list_kernel True 2 0 [1, 2, 3, 4, 5] demo_conn"

lemma set_events_channel:
  assumes "index (chan p a) = added_index" and "ev \<noteq> 0"
  shows "has_channel a (snd (set_events list_kernel a ev p)) = has_channel a p"
  using assms by (simp add: set_events_def update_channel_def Channel_Poller.poller_update_def has_channel_def set_chan_def set_index_def
      index_consts is_event_none_def none_event_def Let_def)

lemma demo_conn_channel:
  "index (conn_channel demo_conn) = added_index" "has_channel (chan_addr demo_conn) (loop_poller demo_conn)"
  "\<not> has_high_water demo_conn"
  by (simp_all add: demo_conn_def conn_established_def on_channel_def enable_reading_def set_events_def update_channel_def TcpConnection_def
        EpollPoller_def new_channel_def index_consts Channel_Poller.poller_update_def Let_def set_chan_def set_index_def conn_channel_def has_channel_def)

lemma demo_pending_facts:
  "conn_reachable list_kernel (demo_pending, [1, 2, 3, 4, 5])" "state demo_pending = kConnected"
  "outgoing demo_pending = [3, 4, 5]" "has_channel (chan_addr demo_pending) (loop_poller demo_pending)"
proof -
  let ?d = "[1, 2, 3, 4, 5] :: byte list"
  have a: "accepts 2 0 demo_conn" by (simp add: accepts_def demo_conn_state)
  have "conn_step list_kernel (demo_conn, []) (demo_pending,
      [] @ (if state demo_conn = kConnected \<and> accepts 2 0 demo_conn then ?d else []))"
    unfolding demo_pending_def by (rule conn_step.send_here) simp_all
  then show r: "conn_reachable list_kernel (demo_pending, ?d)"
    using conn_reachable.step [OF demo_conn_reachable] a by (simp add: demo_conn_state)
  show "state demo_pending = kConnected" by (simp add: demo_pending_def send_def demo_conn_state)
  have "bb_bytes_readable (output_buffer demo_conn) = 0"
    using conn_reachable_stream [OF demo_conn_reachable] demo_conn_state(2) by (simp add: stream_inv_def outgoing_def readable_content)
  then have d: "demo_pending = snd (on_channel (enable_writing list_kernel)
      (demo_conn\<lparr>wire := [1, 2], output_buffer := bb_append (output_buffer demo_conn) [3, 4, 5]\<rparr>))"
    by (simp add: demo_pending_def send_def send_in_loop_def try_write_def demo_conn_state demo_conn_channel(3) Let_def)
  have "x OR write_event \<noteq> 0" for x using or_and_absorb [of x write_event] write_event_nonzero by (metis and_zero_eq bit.conj_zero_left)
  then show "has_channel (chan_addr demo_pending) (loop_poller demo_pending)"
    using demo_conn_channel by (simp add: d on_channel_def enable_writing_def case_prod_beta set_events_channel conn_channel_def)
  have "wire demo_pending = [1, 2]" by (simp add: d)
  then show "outgoing demo_pending = [3, 4, 5]" using conn_reachable_stream [OF r] by (simp add: stream_inv_def)
qed

theorem writable_socket_drains_witness:
  "\<exists>k \<le> 3. \<exists>c'. c' = drain_turns list_kernel (\<lambda>b. b) (\<lambda>i. 1) k demo_pending \<and> wire c' = [1, 2, 3, 4, 5] \<and> \<not> writing c'"
proof -
  note f = demo_pending_facts
  have "state demo_pending \<noteq> kDisconnected" "outgoing demo_pending \<noteq> []" by (simp_all add: f)
  from writable_socket_drains [OF f(1) this f(4), where w = "\<lambda>i. 1" and on_msg = "\<lambda>b. b"]
  show ?thesis unfolding f(3) by (simp add: numeral_3_eq_3) blast
qed


text \<open>
  C24: an event ends a connection exactly when it should, and reports it once. Whatever mask the
  poller reports and whatever the socket answers, an open connection is closed by the event if
  and only if the peer hung up with nothing left to read, the mask carries an error, the read
  ended or failed, or pending output could not be written; the close callback is called once
  then, however many of the handlers ran into the end of the connection, and not at all
  otherwise.
\<close>

theorem event_closes_once:
  assumes "conn_reachable ctl (c, acc)" and "state c = kConnected \<or> state c = kDisconnecting"
    and "r = revents (conn_channel c)" and "c' = conn_event ctl io on_msg t c"
    and "e \<longleftrightarrow> hangup r \<or> fault r \<or> input_ready r \<and> io_read io \<le> 0 \<or> output_ready r \<and> writing c \<and> io_write io \<le> 0"
  shows "state c' = (if e then kDisconnected else state c) \<and>
    count_list (calls c') CallClose = count_list (calls c) CallClose + (if e then 1 else 0)"
proof -
  have h: "conn_hooks c = (True, True, True, True)" using conn_reachable_hooks [OF assms(1)] by simp
  let ?ks = "(if hangup r then [CloseCallback] else []) @ (if fault r then [ErrorCallback] else []) @
    (if input_ready r then [ReadCallback t] else [])"
  define d b where "d = fold (run_callback ctl io on_msg) ?ks c" and "b \<longleftrightarrow> list_ex (closes io False) ?ks"
  have c': "c' = (if output_ready r then handle_write ctl (io_write io) d else d)"
    by (simp add: assms(4) d_def conn_event_def handle_event_bound [OF h assms(3)])
  have b: "b \<longleftrightarrow> hangup r \<or> fault r \<or> input_ready r \<and> io_read io \<le> 0" by (simp add: b_def)
  have "state c \<noteq> kDisconnected" using assms(2) by auto
  moreover have "WriteCallback \<notin> set ?ks" by simp
  ultimately have d: "state d = (if b then kDisconnected else state c)" "closings d = closings c + (if b then 1 else 0)"
    "\<not> b \<longrightarrow> writing d = writing c" using fold_callbacks [OF _ d_def b_def] by simp_all
  have "e \<longleftrightarrow> b \<or> output_ready r \<and> writing c \<and> io_write io \<le> 0" using b assms(5) by blast
  then show ?thesis using d \<open>state c \<noteq> kDisconnected\<close>
    by (cases b) (simp_all add: c' handle_write_effect [OF refl])
qed

text \<open>The connection of the examples, for which the poll reports an error and a hang-up at once.\<close>

definition demo_reported :: "mask \<Rightarrow> (int \<rightharpoonup> mask \<times> caddr) tcp_connection" where
  "demo_reported ev = demo_conn\<lparr>loop_poller := set_chan 0 (set_revents ev (conn_channel demo_conn)) (loop_poller demo_conn)\<rparr>"

lemma demo_conn_addr: "chan_addr demo_conn = 0"
  by (simp add: demo_conn_def conn_established_def TcpConnection_def handle_close_def on_channel_def Let_def
      case_prod_beta bool.case_eq_if)

lemma demo_reported_facts:
  "conn_reachable list_kernel (demo_reported ev, [])" "state (demo_reported ev) = kConnected"
  "revents (conn_channel (demo_reported ev)) = ev" "calls (demo_reported ev) = calls demo_conn"
proof -
  have "conn_step list_kernel (demo_conn, []) (demo_reported ev, [])"
    unfolding demo_reported_def by (rule conn_step.loop_goes_on [where ev = ev]) (simp add: demo_conn_addr)
  then show "conn_reachable list_kernel (demo_reported ev, [])" by (rule conn_reachable.step [OF demo_conn_reachable])
  show "state (demo_reported ev) = kConnected" "calls (demo_reported ev) = calls demo_conn"
    by (simp_all add: demo_reported_def demo_conn_state)
  show "revents (conn_channel (demo_reported ev)) = ev"
    by (simp add: demo_reported_def conn_channel_def demo_conn_addr)
qed

theorem event_closes_once_witness:
  "let c' = conn_event list_kernel \<lparr>io_read = 0, io_bytes = [], io_errno = 0, io_write = 0\<rparr> (\<lambda>b. b) (Timestamp 0)
       (demo_reported (POLLHUP OR POLLERR))
   in state c' = kDisconnected \<and> count_list (calls c') CallClose = count_list (calls demo_conn) CallClose + 1"
proof -
  have "hangup (POLLHUP OR POLLERR)" by (simp add: hangup_def POLLHUP_def POLLERR_def POLLIN_def)
  moreover note f = demo_reported_facts [of "POLLHUP OR POLLERR"]
  ultimately show ?thesis
    using event_closes_once [OF f(1) disjI1 [OF f(2)] f(3) [symmetric] refl refl,
        where io = "\<lparr>io_read = 0, io_bytes = [], io_errno = 0, io_write = 0\<rparr>" and on_msg = "\<lambda>b. b" and t = "Timestamp 0"]
    by (simp add: Let_def)
qed

text \<open>
  The read handler still runs after the error handler has closed the connection: bytes that
  arrived together with an error are handed to the message callback of a connection that has
  already been reported as closed.
\<close>

theorem message_after_close:
  assumes "conn_reachable ctl (c, acc)" and "state c = kConnected" and "revents (conn_channel c) = POLLERR OR POLLIN"
    and "0 < io_read io"
  shows "calls (conn_event ctl io on_msg t c) = calls c @ [CallConn, CallClose, CallMessage t]"
proof -
  have h: "conn_hooks c = (True, True, True, True)" using conn_reachable_hooks [OF assms(1)] by simp
  have "handle_event (conn_channel c) t = [ErrorCallback, ReadCallback t]"
    unfolding handle_event_bound [OF h refl] assms(3)
    by (simp add: hangup_def fault_def input_ready_def output_ready_def POLLERR_def POLLIN_def POLLHUP_def POLLNVAL_def
        POLLPRI_def POLLRDHUP_def POLLOUT_def)
  moreover have "fst (snd (bb_read_fd b n d err)) = n" for b n d err by (simp add: bb_read_fd_def Let_def)
  ultimately show ?thesis using assms(2,4)
    by (simp add: conn_event_def handle_error_def Tcp_Connection.handle_read_def handle_close_frame Let_def case_prod_beta)
qed

end
