(* ===== verification/User_Race.thy ===== *)
theory User_Race
  imports Bussiness_Logic "HOL-Library.Multiset"
begin

text \<open>
  Registration on several threads. Each connection is served by the loop thread it was given to,
  and all of them reach the one \<^verbatim>\<open>UserManager\<close>; its mutex protects each pass over the cache, but
  \<^verbatim>\<open>register_user\<close> (\<^verbatim>\<open>service/bussiness_logic.cpp\<close>) and \<^verbatim>\<open>addUser\<close>
  (\<^verbatim>\<open>service/user_manager.cpp\<close>) are sequences of such accesses. Here a request is cut at every
  access to what the threads share: the look-up under the lock, the connection, the increment of
  the atomic \<^verbatim>\<open>base_user_id_\<close>, its load for the text of the INSERT, the statement, the second load
  for \<^verbatim>\<open>u.userid\<close>, and \<^verbatim>\<open>push_back\<close> under the lock. A schedule is a list of request numbers; each
  entry lets that request make its next access.
\<close>

section \<open>Definitions\<close>

text \<open>The access a request makes next; an answered request carries the code of its reply.\<close>

datatype signup_stage =
    LookUp | Connecting | Counting | Loading | Inserting int | Filling | Caching | Answered nat

record signup_request =
  stage :: signup_stage
  new_account :: user

definition ask :: "user \<Rightarrow> signup_request" where
  "ask u = \<lparr>stage = LookUp, new_account = u\<rparr>"

fun access :: "'d database \<Rightarrow> signup_stage \<Rightarrow> user \<Rightarrow> user_manager \<Rightarrow> 'd \<Rightarrow> signup_stage \<times> user \<times> user_manager \<times> 'd" where
  "access db LookUp u m d =
     (let cached_userid = (case getUserInfoByUsername (username u) m of None \<Rightarrow> 0 | Some c \<Rightarrow> userid c)
      in (if cached_userid \<noteq> 0 then Answered 101 else Connecting, u, m, d))"
| "access db Connecting u m d =
     (case connect db m d of (ok, d1) \<Rightarrow> (if ok then Counting else Answered 100, u, m, d1))"
| "access db Counting u m d = (Loading, u, m\<lparr>base_user_id := wrap32 (base_user_id m + 1)\<rparr>, d)"
| "access db Loading u m d = (Inserting (base_user_id m), u, m, d)"
| "access db (Inserting v) u m d =
     (case execute db (snprintf 256 (sql_add_user v u)) d of (ok, d1) \<Rightarrow> (if ok then Filling else Answered 100, u, m, d1))"
| "access db Filling u m d =
     (Caching, u\<lparr>userid := base_user_id m, facetype := 0, birthday := 19900101, gender := 0, ownerid := 0\<rparr>, m, d)"
| "access db Caching u m d = (Answered 0, u, m\<lparr>all_cached_users := all_cached_users m @ [u]\<rparr>, d)"
| "access db (Answered code) u m d = (Answered code, u, m, d)"

record 'd signups =
  manager :: user_manager
  tables :: 'd
  requests :: "signup_request list"

definition request_step :: "'d database \<Rightarrow> nat \<Rightarrow> 'd signups \<Rightarrow> 'd signups" where
  "request_step db i s =
     (if i < length (requests s) then
        case access db (stage (requests s ! i)) (new_account (requests s ! i)) (manager s) (tables s) of
          (st, u, m, d) \<Rightarrow> \<lparr>manager = m, tables = d, requests = (requests s)[i := \<lparr>stage = st, new_account = u\<rparr>]\<rparr>
      else s)"

definition run_schedule :: "'d database \<Rightarrow> nat list \<Rightarrow> 'd signups \<Rightarrow> 'd signups" where
  "run_schedule db sched s = fold (request_step db) sched s"

definition signups_start :: "user list \<Rightarrow> user_manager \<Rightarrow> 'd \<Rightarrow> 'd signups" where
  "signups_start us m d = \<lparr>manager = m, tables = d, requests = map ask us\<rparr>"

section \<open>One request alone\<close>

text \<open>Seven accesses in a row are \<^verbatim>\<open>register_user\<close> from its look-up on.\<close>

lemma access_alone:
  assumes "um.signup db u (m, d) = (code, m', d')"
  shows "\<exists>u'. ((\<lambda>(st, u, m, d). access db st u m d) ^^ 7) (LookUp, u, m, d) = (Answered code, u', m', d')"
proof -
  have seven: "f ^^ 7 = f \<circ> f \<circ> f \<circ> f \<circ> f \<circ> f \<circ> f" for f :: "'x \<Rightarrow> 'x" by (simp add: eval_nat_numeral fun_eq_iff)
  show ?thesis
    using assms
    by (auto simp: seven um.signup_def directory_add_def addUser_def Let_def split: prod.splits bool.splits if_splits)
qed

lemma run_schedule_simps [simp]:
  "run_schedule db [] s = s" "run_schedule db (i # is) s = run_schedule db is (request_step db i s)"
  "run_schedule db (xs @ ys) s = run_schedule db ys (run_schedule db xs s)"
  by (simp_all add: run_schedule_def)

lemma request_step_length [simp]: "length (requests (request_step db i s)) = length (requests s)"
  by (simp add: request_step_def case_prod_beta)

lemma run_schedule_length [simp]: "length (requests (run_schedule db sched s)) = length (requests s)"
  by (induction sched arbitrary: s) simp_all

lemma run_replicate:
  assumes "i < length (requests s)" and "requests s ! i = \<lparr>stage = st, new_account = u\<rparr>"
    and "((\<lambda>(st, u, m, d). access db st u m d) ^^ n) (st, u, manager s, tables s) = (st', u', m', d')"
  shows "run_schedule db (replicate n i) s =
    \<lparr>manager = m', tables = d', requests = (requests s)[i := \<lparr>stage = st', new_account = u'\<rparr>]\<rparr>"
  using assms
proof (induction n arbitrary: s st u)
  case 0
  then show ?case using list_update_id [of "requests s" i] by simp
next
  case (Suc n)
  obtain st1 u1 m1 d1 where a: "access db st u (manager s) (tables s) = (st1, u1, m1, d1)" by (metis prod_cases4)
  let ?s = "\<lparr>manager = m1, tables = d1, requests = (requests s)[i := \<lparr>stage = st1, new_account = u1\<rparr>]\<rparr>"
  have s1: "request_step db i s = ?s" using Suc.prems(1,2) a by (simp add: request_step_def)
  have "((\<lambda>(st, u, m, d). access db st u m d) ^^ n) (st1, u1, manager ?s, tables ?s) = (st', u', m', d')"
    using Suc.prems(3) a by (simp add: funpow_Suc_right del: funpow.simps)
  from Suc.IH [of ?s st1 u1, OF _ _ this] show ?case using Suc.prems(1) s1 by simp
qed

lemma run_alone:
  assumes "i < length (requests s)" and "requests s ! i = ask u" and "um.signup db u (manager s, tables s) = (code, m', d')"
  obtains u' where "run_schedule db (replicate 7 i) s =
    \<lparr>manager = m', tables = d', requests = (requests s)[i := \<lparr>stage = Answered code, new_account = u'\<rparr>]\<rparr>"
  using access_alone [OF assms(3)] run_replicate [OF assms(1) assms(2) [unfolded ask_def]] by blast

section \<open>Any interleaving\<close>

text \<open>What a request is about, and whether it was answered with success.\<close>

definition account :: "user \<Rightarrow> string \<times> string \<times> string" where
  "account u = (username u, nickname u, password u)"

definition succeeded :: "signup_request \<Rightarrow> bool" where
  "succeeded r \<longleftrightarrow> stage r = Answered 0"

definition registered :: "signup_request list \<Rightarrow> (string \<times> string \<times> string) multiset" where
  "registered rs = mset (map (\<lambda>r. account (new_account r)) (filter succeeded rs))"

text \<open>Requests that may have incremented the counter.\<close>

definition past :: "signup_stage \<Rightarrow> bool" where
  "past st \<longleftrightarrow> st \<notin> {LookUp, Connecting, Counting}"

text \<open>A request between its increment of the counter and its last load of it.\<close>

fun busy :: "signup_stage \<Rightarrow> bool" where
  "busy Loading = True" | "busy (Inserting v) = True" | "busy Filling = True" | "busy _ = False"

abbreviation counter :: "'d signups \<Rightarrow> int" where
  "counter s \<equiv> base_user_id (manager s)"

text \<open>The requests keep their accounts, and the counter has moved by at most one for each of them.\<close>

definition counter_inv :: "user list \<Rightarrow> int \<Rightarrow> 'd signups \<Rightarrow> bool" where
  "counter_inv us b s \<longleftrightarrow>
     map (\<lambda>r. account (new_account r)) (requests s) = map account us \<and> b \<le> counter s \<and>
     counter s \<le> b + int (length (filter (\<lambda>r. past (stage r)) (requests s)))"

text \<open>New ids come from the counter, and the cache has grown by the accounts answered with success.\<close>

definition cache_inv :: "user list \<Rightarrow> int \<Rightarrow> 'd signups \<Rightarrow> bool" where
  "cache_inv cached b s \<longleftrightarrow>
     (\<forall>r \<in> set (requests s). busy (stage r) \<longrightarrow> b < counter s) \<and>
     (\<forall>r \<in> set (requests s). stage r = Caching \<longrightarrow> userid (new_account r) \<in> {b<..counter s}) \<and>
     (\<exists>added. all_cached_users (manager s) = cached @ added \<and> mset (map account added) = registered (requests s) \<and>
        userid ` set added \<subseteq> {b<..counter s})"

text \<open>What an update of one entry does to what is picked from a list.\<close>

lemma picks_update:
  "i < length rs \<Longrightarrow> mset (map g (filter P (rs[i := r]))) + (if P (rs ! i) then {#g (rs ! i)#} else {#}) =
     mset (map g (filter P rs)) + (if P r then {#g r#} else {#})"
proof (induction rs arbitrary: i)
  case (Cons a rs)
  show ?case
  proof (cases i)
    case (Suc j)
    then show ?thesis using Cons.IH [of j] Cons.prems by (simp split: if_splits)
  qed simp
qed simp

lemma registered_update:
  assumes "i < length rs" and "\<not> succeeded (rs ! i)"
  shows "registered (rs[i := r]) = registered rs + (if succeeded r then {#account (new_account r)#} else {#})"
  using picks_update [OF assms(1), where P = succeeded and g = "\<lambda>r. account (new_account r)" and r = r] assms(2)
  by (simp add: registered_def)

lemma filter_update:
  assumes "i < length rs"
  shows "length (filter P (rs[i := r])) + (if P (rs ! i) then 1 else 0) = length (filter P rs) + (if P r then 1 else 0)"
  using arg_cong [OF picks_update [OF assms, where P = P and g = "\<lambda>r. r" and r = r], of size] by (simp del: mset_filter split: if_splits)

text \<open>What one access does, as far as the invariant is concerned.\<close>

lemma access_frame:
  assumes "access db st u m d = (st', u', m', d')"
  shows "account u' = account u" and "past st \<Longrightarrow> past st'"
    and "base_user_id m' = (if st = Counting then wrap32 (base_user_id m + 1) else base_user_id m)"
    and "st = Counting \<Longrightarrow> st' = Loading"
    and "busy st' \<Longrightarrow> st = Counting \<or> busy st"
    and "st' = Caching \<longleftrightarrow> st = Filling" and "st' = Caching \<Longrightarrow> userid u' = base_user_id m"
    and "all_cached_users m' = all_cached_users m @ (if st = Caching then [u'] else [])"
    and "st = Caching \<Longrightarrow> u' = u" and "st = Answered 0 \<Longrightarrow> u' = u"
    and "st' = Answered 0 \<longleftrightarrow> st = Caching \<or> st = Answered 0"
  using assms by (cases st; auto simp: account_def past_def Let_def split: prod.splits if_splits)+

lemma request_step_cases:
  obtains (idle) "\<not> i < length (requests s)" "request_step db i s = s"
  | (moves) st u st' u' m' d' where "i < length (requests s)" "stage (requests s ! i) = st" "new_account (requests s ! i) = u"
      "access db st u (manager s) (tables s) = (st', u', m', d')" "manager (request_step db i s) = m'"
      "requests (request_step db i s) = (requests s)[i := \<lparr>stage = st', new_account = u'\<rparr>]"
proof (cases "i < length (requests s)")
  case True
  let ?r = "requests s ! i"
  obtain st' u' m' d' where a: "access db (stage ?r) (new_account ?r) (manager s) (tables s) = (st', u', m', d')" by (metis prod_cases4)
  show thesis by (rule moves [OF True refl refl a]) (simp_all add: request_step_def True a)
qed (simp add: request_step_def idle)

lemma counter_inv_step:
  assumes "counter_inv us b s" and "0 \<le> b" and "b + int (length us) < 2 ^ 31"
  shows "counter_inv us b (request_step db i s) \<and>
    counter (request_step db i s) = counter s + (if i < length (requests s) \<and> stage (requests s ! i) = Counting then 1 else 0)"
proof (cases rule: request_step_cases [where db = db and i = i and s = s])
  case idle
  then show ?thesis using assms(1) by simp
next
  case (moves st u st' u' m' d')
  let ?rs' = "requests (request_step db i s)" and ?past = "\<lambda>r. past (stage r)"
  note f = access_frame [OF moves(4)]
  have v: "map (\<lambda>r. account (new_account r)) (requests s) = map account us" "b \<le> counter s"
    "counter s \<le> b + int (length (filter ?past (requests s)))" using assms(1) by (simp_all add: counter_inv_def)
  have "map (\<lambda>r. account (new_account r)) ?rs' = map account us"
    using v(1) f(1) moves(1,3,6) by (simp add: map_update) (metis list_update_id nth_map)
  moreover have n: "length (filter ?past ?rs') \<le> length us"
    using length_filter_le [of ?past ?rs'] v(1) by (metis length_map request_step_length)
  moreover have "length (filter ?past (requests s)) + (if st = Counting then 1 else 0) \<le> length (filter ?past ?rs')"
    using filter_update [OF moves(1), of ?past "\<lparr>stage = st', new_account = u'\<rparr>"] moves(2,6) f(2,4) by (auto simp: past_def split: if_splits)
  moreover from this n have "wrap32 (counter s + 1) = counter s + 1" if "st = Counting"
    using that v(2,3) assms(2,3) by (intro wrap32_id) (simp add: int32_def)
  ultimately show ?thesis using v f(3) moves(1,2,5) by (auto simp: counter_inv_def)
qed

lemma cache_inv_step:
  assumes "cache_inv cached b s" and "b \<le> counter s" and s': "s' = request_step db i s"
    and "counter s' = counter s + (if i < length (requests s) \<and> stage (requests s ! i) = Counting then 1 else 0)"
  shows "cache_inv cached b s'"
proof (cases rule: request_step_cases [where db = db and i = i and s = s])
  case idle
  then show ?thesis using assms(1) by (simp add: s')
next
  case (moves st u st' u' m' d')
  note f = access_frame [OF moves(4)]
  let ?r' = "\<lparr>stage = st', new_account = u'\<rparr>"
  have r: "requests s ! i \<in> set (requests s)" using moves(1) by simp
  have old: "busy (stage r) \<Longrightarrow> b < counter s" "stage r = Caching \<Longrightarrow> userid (new_account r) \<in> {b<..counter s}"
    if "r \<in> set (requests s)" for r using assms(1) that by (auto simp: cache_inv_def)
  obtain added where v: "all_cached_users (manager s) = cached @ added" "mset (map account added) = registered (requests s)"
    "userid ` set added \<subseteq> {b<..counter s}" using assms(1) unfolding cache_inv_def by blast
  have sub: "set (requests s') \<subseteq> insert ?r' (set (requests s))" unfolding s' moves(6) by (rule set_update_subset_insert)
  have up: "counter s \<le> counter s'" using assms(4) by auto
  show ?thesis unfolding cache_inv_def
  proof (intro conjI ballI impI exI [of _ "added @ (if st = Caching then [u'] else [])"])
    fix r assume "r \<in> set (requests s')"
    then have "r = ?r' \<or> r \<in> set (requests s)" using sub by blast
    then show "b < counter s'" if "busy (stage r)"
      using that old(1) [of r] old(1) [OF r] f(5) moves(1,2) assms(2,4) up by (auto split: if_splits)
    show "userid (new_account r) \<in> {b<..counter s'}" if "stage r = Caching"
      using that \<open>r = ?r' \<or> r \<in> set (requests s)\<close> old(2) [of r] old(1) [OF r] f(6,7) moves(2) up by auto
  next
    show "all_cached_users (manager s') = cached @ added @ (if st = Caching then [u'] else [])"
      using v(1) f(8) moves(5) s' by simp
    show "mset (map account (added @ (if st = Caching then [u'] else []))) = registered (requests s')"
    proof (cases "st = Answered 0")
      case True
      then have "requests s ! i = ?r'" using f(10,11) moves(2,3) by (cases "requests s ! i") auto
      then have "requests s' = requests s" using moves(6) s' list_update_id by metis
      then show ?thesis using v(2) True by simp
    next
      case False
      then show ?thesis
        using v(2) registered_update [OF moves(1), of ?r'] f(11) moves(2,6) s' by (simp add: succeeded_def)
    qed
    show "userid ` set (added @ (if st = Caching then [u'] else [])) \<subseteq> {b<..counter s'}"
      using v(3) old(2) [OF r] f(9) moves(2,3) up by (auto split: if_splits)
  qed
qed

lemma signups_invs:
  assumes "0 \<le> base_user_id m" and "base_user_id m + int (length us) < 2 ^ 31"
    and "s = run_schedule db sched (signups_start us m d)"
  shows "counter_inv us (base_user_id m) s \<and> cache_inv (all_cached_users m) (base_user_id m) s"
  using assms(3)
proof (induction sched arbitrary: s rule: rev_induct)
  case Nil
  then show ?case by (auto simp: signups_start_def counter_inv_def cache_inv_def ask_def registered_def succeeded_def)
next
  case (snoc i sched)
  let ?s = "run_schedule db sched (signups_start us m d)"
  note ih = snoc.IH [OF refl]
  have s: "s = request_step db i ?s" using snoc.prems by simp
  note c = counter_inv_step [OF conjunct1 [OF ih] assms(1,2), of db i]
  show ?case using c cache_inv_step [OF conjunct2 [OF ih] _ s] conjunct1 [OF ih] unfolding s counter_inv_def by blast
qed

section \<open>Requests that do not overlap\<close>

text \<open>
  What a lock around \<^verbatim>\<open>addUser\<close> would give: at no moment are two requests between their increment
  of the counter and their last load of it.
\<close>

definition exclusive :: "'d signups \<Rightarrow> bool" where
  "exclusive s \<longleftrightarrow> length (filter (\<lambda>r. busy (stage r)) (requests s)) \<le> 1"

definition exclusive_run :: "'d database \<Rightarrow> nat list \<Rightarrow> 'd signups \<Rightarrow> bool" where
  "exclusive_run db sched s \<longleftrightarrow> (\<forall>k \<le> length sched. exclusive (run_schedule db (take k sched) s))"

text \<open>
  The ids handed out so far: those of the users cached behind the first \<open>n\<close>, and those of the
  requests about to enter the cache.
\<close>

definition handed :: "nat \<Rightarrow> 'd signups \<Rightarrow> int multiset" where
  "handed n s = mset (map userid (drop n (all_cached_users (manager s)))) +
     mset (map (\<lambda>r. userid (new_account r)) (filter (\<lambda>r. stage r = Caching) (requests s)))"

definition handed_inv :: "nat \<Rightarrow> 'd signups \<Rightarrow> bool" where
  "handed_inv n s \<longleftrightarrow> n \<le> length (all_cached_users (manager s)) \<and>
     (\<forall>x. count (handed n s) x \<le> 1) \<and> (\<forall>x \<in># handed n s. x \<le> counter s) \<and>
     (\<forall>r \<in> set (requests s). busy (stage r) \<longrightarrow> counter s \<notin># handed n s)"

lemma handed_step:
  assumes "n \<le> length (all_cached_users (manager s))" and "i < length (requests s)"
  shows "handed n (request_step db i s) = handed n s + (if stage (requests s ! i) = Filling then {#counter s#} else {#})"
proof (cases rule: request_step_cases [where db = db and i = i and s = s])
  case (moves st u st' u' m' d')
  note f = access_frame [OF moves(4)]
  let ?pick = "\<lambda>rs. mset (map (\<lambda>r. userid (new_account r)) (filter (\<lambda>r. stage r = Caching) rs))"
  define A B where "A = ?pick (requests (request_step db i s))" and "B = ?pick (requests s)"
  have q: "A + (if st = Caching then {#userid u#} else {#}) = B + (if st = Filling then {#counter s#} else {#})"
    using picks_update [OF moves(1), where P = "\<lambda>r. stage r = Caching" and g = "\<lambda>r. userid (new_account r)"
        and r = "\<lparr>stage = st', new_account = u'\<rparr>"] f(6,7) moves(2,3,6) by (simp only: A_def B_def signup_request.simps) (simp split: if_splits)
  have "handed n (request_step db i s) =
      mset (map userid (drop n (all_cached_users (manager s)))) + (if st = Caching then {#userid u#} else {#}) + A"
    using f(8,9) moves(5) assms(1) by (simp add: handed_def A_def)
  moreover have "handed n s = mset (map userid (drop n (all_cached_users (manager s)))) + B" by (simp add: handed_def B_def)
  ultimately show ?thesis unfolding moves(2) using q by (metis (no_types, lifting) add.assoc add.left_commute add.commute)
qed (use assms(2) in simp)

lemma handed_inv_step:
  assumes "handed_inv n s" and "exclusive s" and s': "s' = request_step db i s"
    and "counter s' = counter s + (if i < length (requests s) \<and> stage (requests s ! i) = Counting then 1 else 0)"
  shows "handed_inv n s'"
proof (cases rule: request_step_cases [where db = db and i = i and s = s])
  case idle
  then show ?thesis using assms(1) by (simp add: s')
next
  case (moves st u st' u' m' d')
  note f = access_frame [OF moves(4)]
  have v: "n \<le> length (all_cached_users (manager s))" "\<And>x. count (handed n s) x \<le> 1" "\<And>x. x \<in># handed n s \<Longrightarrow> x \<le> counter s"
    "\<And>r. r \<in> set (requests s) \<Longrightarrow> busy (stage r) \<Longrightarrow> counter s \<notin># handed n s"
    using assms(1) by (auto simp: handed_inv_def)
  have h: "handed n s' = handed n s + (if st = Filling then {#counter s#} else {#})"
    using handed_step [OF v(1) moves(1)] moves(2) s' by simp
  have grown: "n \<le> length (all_cached_users (manager s'))" using v(1) f(8) moves(5) s' by simp
  have r: "requests s ! i \<in> set (requests s)" using moves(1) by simp
  have sub: "set (requests s') \<subseteq> insert \<lparr>stage = st', new_account = u'\<rparr> (set (requests s))"
    unfolding s' moves(6) by (rule set_update_subset_insert)
  show ?thesis
  proof (cases "st = Filling")
    case True
    have "length (filter (\<lambda>r. busy (stage r)) (requests s')) = 0"
      using filter_update [OF moves(1), where P = "\<lambda>r. busy (stage r)" and r = "\<lparr>stage = st', new_account = u'\<rparr>"]
        assms(2) f(6) moves(2,6) s' True by (simp add: exclusive_def del: length_0_conv)
    then have "\<not> busy (stage r)" if "r \<in> set (requests s')" for r using that by (simp add: filter_empty_conv)
    moreover have "counter s \<notin># handed n s" using v(4) [OF r] moves(2) True by simp
    ultimately show ?thesis
      using v(2,3) h assms(4) moves(2) True grown by (auto simp: handed_inv_def not_in_iff)
  next
    case False
    have "counter s' \<notin># handed n s" if "r \<in> set (requests s')" "busy (stage r)" for r
    proof (cases "st = Counting")
      case True
      then show ?thesis using v(3) [of "counter s + 1"] assms(4) moves(1,2) by auto
    next
      case False
      then have "\<exists>r \<in> set (requests s). busy (stage r)" using that sub f(5) r moves(2) by fastforce
      then show ?thesis using v(4) assms(4) moves(2) False by auto
    qed
    moreover have "x \<le> counter s'" if "x \<in># handed n s" for x using v(3) [OF that] assms(4) by simp
    ultimately show ?thesis using v(2) h False grown by (auto simp: handed_inv_def)
  qed
qed

lemma handed_invs:
  assumes "0 \<le> base_user_id m" and "base_user_id m + int (length us) < 2 ^ 31"
    and "exclusive_run db sched (signups_start us m d)"
  shows "handed_inv (length (all_cached_users m)) (run_schedule db sched (signups_start us m d))"
  using assms(3)
proof (induction sched rule: rev_induct)
  case Nil
  then show ?case by (auto simp: handed_inv_def handed_def signups_start_def ask_def)
next
  case (snoc i sched)
  have pre: "exclusive (run_schedule db (take k sched) (signups_start us m d))" if "k \<le> length sched" for k
    using snoc.prems that by (auto simp: exclusive_run_def dest!: spec [of _ k])
  then have "exclusive_run db sched (signups_start us m d)" by (simp add: exclusive_run_def)
  note ih = snoc.IH [OF this]
  have c: "counter_inv us (base_user_id m) (run_schedule db sched (signups_start us m d))"
    by (rule conjunct1 [OF signups_invs [OF assms(1,2) refl]])
  show ?case using handed_inv_step [OF ih _ refl] pre [of "length sched"] counter_inv_step [OF c assms(1,2)] by simp
qed

section \<open>Properties\<close>


text \<open>Two requests for the same account on an empty manager.\<close>

definition race_junk :: junk where
  "race_junk = \<lparr>j_userid = 0, j_facetype = 0, j_gender = 0, j_birthday = 0, j_ownerid = 0\<rparr>"

definition race_user :: user where
  "race_user = request_user race_junk ''eve'' ''eve'' ''eve''"

definition race_start :: "string list signups" where
  "race_start = signups_start [race_user, race_user] UserManager []"


text \<open>
  C13: no interleaving loses or invents a user. However the accesses of any number of concurrent
  registrations are interleaved, the cache is what it was followed by exactly the accounts of
  the requests answered with code 0, each once, and the id of each of them is one the counter
  took since the start.
\<close>

theorem concurrent_signups_kept:
  assumes "0 \<le> base_user_id m" and "base_user_id m + int (length us) < 2 ^ 31"
    and "s = run_schedule db sched (signups_start us m d)"
  shows "\<exists>added. all_cached_users (manager s) = all_cached_users m @ added \<and>
    mset (map account added) = mset (map (\<lambda>r. account (new_account r)) (filter succeeded (requests s))) \<and>
    map (\<lambda>r. account (new_account r)) (requests s) = map account us \<and>
    (\<forall>u \<in> set added. base_user_id m < userid u \<and> userid u \<le> base_user_id (manager s)) \<and>
    base_user_id (manager s) \<le> base_user_id m + int (length us)"
proof -
  note v = signups_invs [OF assms]
  obtain added where a: "all_cached_users (manager s) = all_cached_users m @ added"
    "mset (map account added) = registered (requests s)" "userid ` set added \<subseteq> {base_user_id m<..counter s}"
    using conjunct2 [OF v] unfolding cache_inv_def by blast
  have c: "map (\<lambda>r. account (new_account r)) (requests s) = map account us"
    "counter s \<le> base_user_id m + int (length (filter (\<lambda>r. past (stage r)) (requests s)))"
    using conjunct1 [OF v] by (simp_all add: counter_inv_def)
  have "length (filter (\<lambda>r. past (stage r)) (requests s)) \<le> length us"
    using length_filter_le [of "\<lambda>r. past (stage r)" "requests s"] c(1) by (metis length_map)
  with a c show ?thesis by (intro exI [of _ added]) (auto simp: registered_def)
qed

text \<open>
  The accesses of two requests for the same name, the second one between the INSERT of the first
  and its last load of the counter.
\<close>

definition race_schedule :: "nat list" where
  "race_schedule = [0, 1, 0, 0, 0, 0, 1, 1, 1, 1, 1, 1, 0, 0]"

lemmas race_run = race_schedule_def race_start_def signups_start_def run_schedule_def request_step_def ask_def race_user_def
  getUserInfoByUsername_def UserManager_def connect_def table_db_def wrap32_def Let_def

theorem concurrent_signups_kept_witness:
  "\<exists>added. all_cached_users (manager (run_schedule (table_db [] []) race_schedule race_start)) = added \<and>
    (\<forall>u \<in> set added. 0 < userid u \<and> userid u \<le> base_user_id (manager (run_schedule (table_db [] []) race_schedule race_start)))"
proof -
  have "0 \<le> base_user_id UserManager" "base_user_id UserManager + int (length [race_user, race_user]) < 2 ^ 31"
    by (simp_all add: UserManager_def)
  from concurrent_signups_kept [OF this race_start_def [THEN arg_cong, of "run_schedule (table_db [] []) race_schedule"]]
  show ?thesis by (auto simp: UserManager_def)
qed

text \<open>
  C25: registrations that do not overlap get ids of their own. If at no moment two requests are
  between their increment of the counter and their last load of it, as a lock around
  \<^verbatim>\<open>addUser\<close> would ensure, then whatever else is interleaved all ids in the cache stay distinct.
\<close>

theorem exclusive_signups_distinct:
  assumes "um_wf m" and "base_user_id m + int (length us) < GROUPID_BOUBDARY"
    and "exclusive_run db sched (signups_start us m d)"
  shows "distinct (map userid (all_cached_users (manager (run_schedule db sched (signups_start us m d)))))"
proof -
  define s where "s = run_schedule db sched (signups_start us m d)"
  let ?n = "length (all_cached_users m)"
  have b: "0 \<le> base_user_id m" "base_user_id m + int (length us) < 2 ^ 31"
    using assms(1,2) by (simp_all add: um_wf_def GROUPID_BOUBDARY_def)
  note v = signups_invs [OF b s_def]
  obtain added where a: "all_cached_users (manager s) = all_cached_users m @ added"
    "userid ` set added \<subseteq> {base_user_id m<..counter s}" using conjunct2 [OF v] unfolding cache_inv_def by blast
  have top: "counter s < GROUPID_BOUBDARY"
  proof -
    have "length (filter (\<lambda>r. past (stage r)) (requests s)) \<le> length us"
      using length_filter_le [of "\<lambda>r. past (stage r)" "requests s"] by (simp add: s_def signups_start_def)
    then show ?thesis using conjunct1 [OF v] assms(2) by (simp add: counter_inv_def)
  qed
  have "handed_inv ?n s" unfolding s_def by (rule handed_invs [OF b assms(3)])
  then have "count (mset (map userid added)) x \<le> 1" for x
    using a(1) by (auto simp: handed_inv_def handed_def dest!: spec [of _ x])
  then have "distinct (map userid added)"
    unfolding distinct_count_atmost_1 by (metis One_nat_def count_greater_eq_one_iff le_antisym not_in_iff set_mset_mset)
  moreover have "set (map userid added) \<inter> set (map userid (all_cached_users m)) = {}"
    using a(2) assms(1) top by (fastforce simp: um_wf_def)
  ultimately show ?thesis using a(1) assms(1) by (auto simp: um_wf_def s_def)
qed

text \<open>One request after the other, but with the look-ups and the connections of both at the start.\<close>

theorem exclusive_signups_distinct_witness:
  "distinct (map userid (all_cached_users (manager
     (run_schedule (table_db [] []) [0, 1, 0, 1, 0, 0, 0, 0, 1, 1, 1, 1, 0, 1] race_start))))"
proof -
  have e: "exclusive_run (table_db [] []) [0, 1, 0, 1, 0, 0, 0, 0, 1, 1, 1, 1, 0, 1] race_start"
    by (simp add: exclusive_run_def le_Suc_eq numeral_eq_Suc exclusive_def race_run all_conj_distrib)
  have "base_user_id UserManager + int (length [race_user, race_user]) < GROUPID_BOUBDARY"
    by (simp add: UserManager_def GROUPID_BOUBDARY_def)
  from exclusive_signups_distinct [OF UserManager_wf this e [unfolded race_start_def]] show ?thesis unfolding race_start_def .
qed

text \<open>
  Without that condition it goes wrong: both requests find the name free and are answered with
  success, the database receives two rows with the ids 1 and 2, and the cache has two users of
  the same name with the id 2.
\<close>

theorem signup_race:
  "map stage (requests (run_schedule (table_db [] []) race_schedule race_start)) = [Answered 0, Answered 0]"
  "map (\<lambda>u. (userid u, username u)) (all_cached_users (manager (run_schedule (table_db [] []) race_schedule race_start))) =
     [(2, ''eve''), (2, ''eve'')]"
  "tables (run_schedule (table_db [] []) race_schedule race_start) =
     [snprintf 256 (sql_add_user 1 race_user), snprintf 256 (sql_add_user 2 race_user)]"
  by (simp_all add: race_run)

end
