(* ===== verification/Database_Demo.thy ===== *)
theory Database_Demo
  imports Talko_Prelude
begin

text \<open>
  The separate program \<^verbatim>\<open>database/demo.cpp\<close>, which opens a session, makes sure of a table,
  inserts two rows and prints the table. The MySQL client is the parameter \<open>api\<close>, a record of
  functions on the state of the server; each call throws (\<^const>\<open>Inl\<close>) or returns. A row is given
  by the texts its columns print as. What the destructor of the session does on the way out of
  the \<^verbatim>\<open>try\<close> block belongs to the client.
\<close>

section \<open>Definitions\<close>

datatype thrown = MysqlxError string | StdException string | OtherException

datatype line = Cout string | Cerr string

record 'w mysqlx =
  open_session :: "string \<Rightarrow> nat \<Rightarrow> string \<Rightarrow> string \<Rightarrow> 'w \<Rightarrow> (thrown + unit) \<times> 'w"
  getSchema :: "string \<Rightarrow> bool \<Rightarrow> 'w \<Rightarrow> (thrown + unit) \<times> 'w"
  getTable :: "string \<Rightarrow> bool \<Rightarrow> 'w \<Rightarrow> (thrown + unit) \<times> 'w"
  existsInDatabase :: "string \<Rightarrow> 'w \<Rightarrow> (thrown + bool) \<times> 'w"
  sql_execute :: "string \<Rightarrow> 'w \<Rightarrow> (thrown + unit) \<times> 'w"
  insert_execute :: "string \<Rightarrow> string list \<Rightarrow> string list list \<Rightarrow> 'w \<Rightarrow> (thrown + unit) \<times> 'w"
  select_execute :: "string \<Rightarrow> string list \<Rightarrow> 'w \<Rightarrow> (thrown + (nat \<Rightarrow> string) list) \<times> 'w"
  session_close :: "'w \<Rightarrow> (thrown + unit) \<times> 'w"

text \<open>A piece of the \<^verbatim>\<open>try\<close> block: what it throws or returns, the lines printed, the server.\<close>

type_synonym ('w, 'a) block = "'w \<Rightarrow> (thrown + 'a) \<times> line list \<times> 'w"

definition call :: "('w \<Rightarrow> (thrown + 'a) \<times> 'w) \<Rightarrow> ('w, 'a) block" where
  "call f w = (case f w of (r, w1) \<Rightarrow> (r, [], w1))"

definition print :: "string \<Rightarrow> ('w, unit) block" where
  "print s w = (Inr (), [Cout s], w)"

definition and_then :: "('w, 'a) block \<Rightarrow> ('a \<Rightarrow> ('w, 'b) block) \<Rightarrow> ('w, 'b) block" where
  "and_then f g w =
     (case f w of
        (Inl e, out, w1) \<Rightarrow> (Inl e, out, w1)
      | (Inr x, out, w1) \<Rightarrow> (case g x w1 of (r, out2, w2) \<Rightarrow> (r, out @ out2, w2)))"

definition create_user_info :: string where
  "create_user_info =
     ''CREATE TABLE user_info ('' @ ''id INT AUTO_INCREMENT PRIMARY KEY, '' @ ''username VARCHAR(255) NOT NULL, '' @
     ''password_hash VARCHAR(255) NOT NULL)''"

definition print_row :: "(nat \<Rightarrow> string) \<Rightarrow> ('w, unit) block" where
  "print_row row = print (''ID: '' @ row 0 @ '', '' @ ''Username: '' @ row 1 @ '', '' @ ''Password Hash: '' @ row 2)"

fun print_rows :: "(nat \<Rightarrow> string) list \<Rightarrow> ('w, unit) block" where
  "print_rows [] = (\<lambda>w. (Inr (), [], w))"
| "print_rows (row # rows) = and_then (print_row row) (\<lambda>_. print_rows rows)"

definition ensure_table :: "'w mysqlx \<Rightarrow> ('w, unit) block" where
  "ensure_table api =
     and_then (call (getTable api ''user_info'' True)) (\<lambda>_.
     and_then (call (existsInDatabase api ''user_info'')) (\<lambda>there.
       if \<not> there then
         and_then (call (sql_execute api create_user_info)) (\<lambda>_. print (''Table '' @ [CHR 0x27] @ ''user_info'' @ [CHR 0x27] @ '' created.''))
       else print (''Table '' @ [CHR 0x27] @ ''user_info'' @ [CHR 0x27] @ '' already exists.'')))"

definition fill_and_show :: "'w mysqlx \<Rightarrow> ('w, unit) block" where
  "fill_and_show api =
     and_then (call (insert_execute api ''user_info'' [''username'', ''password_hash''] [[''user1'', ''hash1''], [''user2'', ''hash2'']])) (\<lambda>_.
     and_then (print (''Data inserted into '' @ [CHR 0x27] @ ''user_info'' @ [CHR 0x27] @ ''.'')) (\<lambda>_.
     and_then (call (select_execute api ''user_info'' [''id'', ''username'', ''password_hash''])) (\<lambda>result.
     and_then (print ''Query results:'') (\<lambda>_.
     and_then (print_rows result) (\<lambda>_.
     and_then (call (session_close api)) (\<lambda>_. print ''Session closed.''))))))"

definition demo_try :: "'w mysqlx \<Rightarrow> ('w, unit) block" where
  "demo_try api =
     and_then (call (open_session api ''127.0.0.1'' 6603 ''root'' ''talko_root'')) (\<lambda>_.
     and_then (call (getSchema api ''talko_server'' True)) (\<lambda>_.
     and_then (print ''Connected to database: test_db'') (\<lambda>_.
     and_then (ensure_table api) (\<lambda>_. fill_and_show api))))"

fun report :: "thrown \<Rightarrow> line" where
  "report (MysqlxError what) = Cerr (''MySQL Error: '' @ what)"
| "report (StdException what) = Cerr (''Standard Exception: '' @ what)"
| "report OtherException = Cerr ''Unknown Exception!''"

definition demo_main :: "'w mysqlx \<Rightarrow> 'w \<Rightarrow> int \<times> line list \<times> 'w" where
  "demo_main api w =
     (case demo_try api w of
        (Inl e, out, w1) \<Rightarrow> (0, out @ [report e], w1)
      | (Inr _, out, w1) \<Rightarrow> (0, out, w1))"

section \<open>The table is never created\<close>

text \<open>
  What the client documents of the flag \<^verbatim>\<open>check_exists\<close>: a table that is not in the database is
  reported by an exception, and a returned table is there.
\<close>

definition checks_exists :: "'w mysqlx \<Rightarrow> bool" where
  "checks_exists api \<longleftrightarrow> (\<forall>name w w1 w2 there.
     getTable api name True w = (Inr (), w1) \<longrightarrow> existsInDatabase api name w1 = (Inr there, w2) \<longrightarrow> there)"

lemma ensure_table_runs:
  assumes "checks_exists api"
  shows "ensure_table api w =
    and_then (call (getTable api ''user_info'' True)) (\<lambda>_.
    and_then (call (existsInDatabase api ''user_info''))
      (\<lambda>_. print (''Table '' @ [CHR 0x27] @ ''user_info'' @ [CHR 0x27] @ '' already exists.''))) w"
proof (cases "getTable api ''user_info'' True w")
  case (Pair r w1)
  show ?thesis
  proof (cases r)
    case (Inr x)
    then have g: "getTable api ''user_info'' True w = (Inr (), w1)" using Pair by simp
    have there: "there" if "existsInDatabase api ''user_info'' w1 = (Inr there, w2)" for there w2
      using assms g that unfolding checks_exists_def by blast
    show ?thesis
      by (cases "existsInDatabase api ''user_info'' w1"; cases "fst (existsInDatabase api ''user_info'' w1)")
        (auto simp: ensure_table_def and_then_def call_def g dest: there)
  qed (simp add: ensure_table_def and_then_def call_def Pair)
qed

text \<open>
  The branch that creates the table cannot be taken: with a table that is missing, the call of
  \<^verbatim>\<open>getTable\<close> before it throws, and the program ends with that error. So nothing depends on what
  the statement would do.
\<close>

theorem demo_never_creates:
  assumes "checks_exists api"
  shows "demo_main api w = demo_main (api\<lparr>sql_execute := f\<rparr>) w"
proof -
  have c: "checks_exists (api\<lparr>sql_execute := f\<rparr>)" using assms by (simp add: checks_exists_def)
  have "ensure_table (api\<lparr>sql_execute := f\<rparr>) = ensure_table api"
    by (rule ext) (simp add: ensure_table_runs [OF assms] ensure_table_runs [OF c])
  moreover have "fill_and_show (api\<lparr>sql_execute := f\<rparr>) = fill_and_show api" by (simp add: fill_and_show_def)
  ultimately show ?thesis by (simp add: demo_main_def demo_try_def)
qed

end
