(* ===== verification/Spec2Isabelle.thy ===== *)
theory Spec2Isabelle
  imports Chat_Msg Chat_Directory Http_Connection Tcp_Server Acceptor String_Util Thread_Pool Timer_Memory Singletons User_Service
    Main_Program Net_Server Loop_Setup Conn_Events User_Race Database_Demo
begin

text \<open>
  \<^bold>\<open>Talko chat server.\<close> A model of the C++ sources under \<^verbatim>\<open>src/server/src\<close> and the theorems that
  make its parts correct.

  \<^bold>\<open>The program.\<close> A reactor on epoll. An \<^verbatim>\<open>EventLoop\<close> runs in each thread: it runs due timers,
  polls its channels, calls their handlers, and then runs the functors that other threads queued
  for it. A \<^verbatim>\<open>TcpServer\<close> owns an \<^verbatim>\<open>Acceptor\<close> in the base loop and a pool of loop threads; each
  accepted socket becomes a \<^verbatim>\<open>TcpConnection\<close> with two \<^verbatim>\<open>ByteBuffer\<close>s in one of these loops.
  On top are \<^verbatim>\<open>TcpSession\<close> (packages of fields written by \<^verbatim>\<open>BinaryStreamWriter\<close>, compressed
  with zlib) and \<^verbatim>\<open>HttpSession\<close>, whose requests reach \<^verbatim>\<open>BussinessLogic\<close> and the
  \<^verbatim>\<open>UserManager\<close>, a cache of users, groups and friendships in front of the database. Beside them
  stand the log, two pools of database connections, a thread pool, access to the table of users,
  a second registration service, a second small server, the configuration and \<^verbatim>\<open>main\<close>.

  \<^bold>\<open>Theories and sources.\<close>
  \<^item> \<open>Talko_Prelude\<close>: vocabulary shared by all (bytes of words, decimal printing, C strings,
    \<^verbatim>\<open>snprintf\<close>, wrap-around at 32 bits) with its lemmas.
  \<^item> \<open>Inet_Endian\<close>, \<open>Byte_Buffer\<close>, \<open>Protocol_Stream\<close>, \<open>Zlib_Util\<close>, \<open>Timestamp\<close>, \<open>String_Util\<close>:
    \<^verbatim>\<open>network/inet_endian.h\<close>, \<^verbatim>\<open>byte_buffer.*\<close>, \<^verbatim>\<open>protocol_stream.*\<close>, \<^verbatim>\<open>common/zlibutil.*\<close>,
    \<^verbatim>\<open>whisp_timestamp.*\<close>, \<^verbatim>\<open>stringutil.*\<close>. A buffer is its vector with the two indices; the lemmas
    are the index invariant under every operation, first-in first-out content (the locale
    \<open>byte_queue\<close>, on which connections rely), and round trips of fields, messages and compression.
  \<^item> \<open>Sockets\<close>, \<open>Acceptor\<close>: \<^verbatim>\<open>network/inet_address.*\<close>, \<^verbatim>\<open>w_sockets.*\<close>, \<^verbatim>\<open>acceptor.*\<close>. Addresses
    with their text, descriptors with their options; addresses survive printing and reading, and
    no descriptor is lost while accepting.
  \<^item> \<open>Timer_Queue\<close>, \<open>Timer_Memory\<close>, \<open>Channel_Poller\<close>, \<open>Event_Loop\<close>, \<open>Loop_Setup\<close>, \<open>Loop_Thread_Pool\<close>:
    \<^verbatim>\<open>network/timer*.*\<close>, \<^verbatim>\<open>channel.*\<close>, \<^verbatim>\<open>epoll_poller.*\<close>, \<^verbatim>\<open>event_loop*.*\<close>. The loop is a step relation
    over the phases of \<^verbatim>\<open>loop()\<close> interleaved with calls of other threads: functors run once and
    in order, wake-ups are not lost (queueing by another thread is two steps, the push under the
    mutex and the write to the eventfd, with anything in between), the kernel's interest list is
    a function of the poller's state. \<open>Timer_Memory\<close> follows the allocation of timers up to the
    destructor of their queue. The interface of pollers is the locale \<open>poller_interface\<close>, that of
    handing out loops the locale \<open>round_robin\<close>; both are interpreted on the model's definitions.
  \<^item> \<open>Tcp_Connection\<close>, \<open>Conn_Events\<close>, \<open>Tcp_Session\<close>, \<open>Chat_Msg\<close>, \<open>Tcp_Server\<close>: \<^verbatim>\<open>network/tcp_connect.*\<close>,
    \<^verbatim>\<open>tcp_session.*\<close>, the enumerations of \<^verbatim>\<open>common/msg.h\<close>, \<^verbatim>\<open>tcp_server.*\<close> and \<^verbatim>\<open>service/chat/http_server.*\<close>. The output of a connection is exactly what
    was accepted for sending, it closes once and only after it has drained. \<open>Conn_Events\<close> runs the
    handlers of a connection in turns of its loop: an event closes it exactly when it should, and
    a socket that keeps taking bytes gets them all. A server
    establishes and destroys each connection once. A sequence of commands sent through a session
    is read back from the stream by the reference reader \<open>read_messages\<close>.
  \<^item> \<open>User_Manager\<close>, \<open>Chat_Directory\<close>, \<open>Bussiness_Logic\<close>, \<open>User_Race\<close>, \<open>Http_Session\<close>, \<open>Http_Connection\<close>: \<^verbatim>\<open>service/user_manager.*\<close>,
    \<^verbatim>\<open>bussiness_logic.*\<close>, \<^verbatim>\<open>chat/http_session.*\<close>. Ids stay unique along every run of the operations,
    friendships are symmetric, a name is registered once (proved over the locale
    \<open>user_directory\<close>), a request is dispatched once. \<open>Chat_Directory\<close> is the abstract specification
    of the manager, profiles and contacts as functions of ids, with the refinement: every
    sequence of operations, whatever the database answers, is a run of the directory.
    In these theories an operation of the manager is one step; \<open>User_Race\<close> cuts registration at
    each access to shared state and interleaves any number of requests: no user is lost, ids are
    distinct while requests do not overlap, and may coincide when they do.
    \<open>Http_Connection\<close> joins session and connection: requests in pieces, and which part of a
    response reaches the client.
  \<^item> \<open>Whisp_Log\<close>, \<open>Conn_Pool\<close>, \<open>Thread_Pool\<close>: \<^verbatim>\<open>log/whisp_log.*\<close>, \<^verbatim>\<open>database/whisp_mysqlconn_pool.*\<close>
    and \<^verbatim>\<open>db_mysqlconn_pool.h\<close>, \<^verbatim>\<open>service/whisp_thread_pool.*\<close>. Every line reaches a file once and in
    order; connections are lent to one client at a time, proved once in the locale
    \<open>connection_pool\<close> and interpreted for both pools; every task runs once and the destructor of
    the thread pool returns.
  \<^item> \<open>Singletons\<close>: \<^verbatim>\<open>common/singleton.h\<close> and \<^verbatim>\<open>WhispDB::get_instance\<close>, interleaved at single accesses:
    the locked accessor makes one object, the unlocked one may make two.
  \<^item> \<open>User_Dao\<close>, \<open>User_Service\<close>, \<open>Config\<close>, \<open>Main_Program\<close>, \<open>Net_Server\<close>: \<^verbatim>\<open>database/db_user_info.*\<close>
    and \<^verbatim>\<open>whisp_db.cpp\<close>, \<^verbatim>\<open>service/register/*\<close>, \<^verbatim>\<open>config/parse_config.*\<close>, \<^verbatim>\<open>main.cpp\<close> with
    \<^verbatim>\<open>util/daemon_run.cpp\<close> and \<^verbatim>\<open>database/whisp_sqlconn_factory.h\<close>, \<^verbatim>\<open>service/net_server.*\<close>. Each
    error path has its answer, loaded values keep their types, and descriptors are accounted for.
  \<^item> \<open>Database_Demo\<close>: the separate program \<^verbatim>\<open>database/demo.cpp\<close>.
  \<^item> This theory: the acceptor and the server together.

  \<^bold>\<open>Conventions.\<close> A class is a record and a member function a function on it; a function that
  cannot change its object returns only its result. Errors are values: \<open>None\<close> stands for
  undefined behaviour of the call (a null pointer, an access out of range, an exception that is
  not caught), as each theory says, and \<open>Inl\<close> for an exception with its text. Integers are words
  where the code converts or shifts them, and integers with \<open>wrap32\<close> where a 32-bit counter may
  overflow. Loops without an obvious end are \<open>partial_function (option)\<close>, with theorems that
  they return; there is no fuel. Code that several threads run is an inductive step relation
  with one rule per critical section; what a mutex protects is one step. In \<open>User_Race\<close> it is a
  function of a schedule, the list of the requests that move, so that interleavings evaluate.

  \<^bold>\<open>Parameters.\<close> The operating system, MySQL, zlib, JSON and YAML are not part of the sources.
  Results of system calls are arguments of the functions that make them, so that each theorem
  holds for every behaviour of the system, or for those a named predicate describes:
  \<open>epoll_kernel\<close> for the interest list, \<open>fresh_fds\<close> and \<open>rounds_ok\<close> for descriptors, \<open>user_table\<close> for
  statements on a table, \<open>yaml_document\<close> for a document. Each has an instance on which the
  witnesses evaluate.

  \<^bold>\<open>Not modelled.\<close> The Windows branches; the wrappers that pass a single system call through;
  empty files and declarations without a definition (\<^verbatim>\<open>Talk*\<close>, \<^verbatim>\<open>db_message\<close>, \<^verbatim>\<open>urlencode_util\<close>);
  of \<^verbatim>\<open>whisp_db.h\<close> what names classes that do not exist; \<^verbatim>\<open>platform.h\<close> and \<^verbatim>\<open>net_callback.h\<close>, which
  hold includes and names of types; the protocol comments of \<^verbatim>\<open>msg.h\<close>, for which there are no
  handlers yet; functions that only log or only read a member; the tests. Time
  limits, scheduling fairness and memory exhaustion are outside the model, and so is the memory
  model of C++: an access to a shared variable is atomic.
\<close>

section \<open>The acceptor and the server\<close>

text \<open>
  The constructor of \<^verbatim>\<open>TcpServer\<close> installs \<^verbatim>\<open>new_conn\<close> as the callback of its acceptor. One
  readiness event of the listening socket: the acceptor accepts, and hands what it got to the
  server. The result is \<open>None\<close> when the server fails.
\<close>

record 'k front =
  front_acceptor :: "'k acceptor"
  front_server :: tcp_server

definition front_read ::
  "string \<Rightarrow> int \<Rightarrow> int \<Rightarrow> sockaddr_in \<Rightarrow> int \<Rightarrow> int \<Rightarrow> int \<Rightarrow> sockaddr_in option \<Rightarrow> 'k front \<Rightarrow> 'k front option" where
  "front_read errtext r err peer errno r2 devnull sockname f =
     (case acceptor_read errtext r err peer errno r2 devnull (front_acceptor f) of
        (None, a) \<Rightarrow> Some (f\<lparr>front_acceptor := a\<rparr>)
      | (Some (connfd, peerAddr), a) \<Rightarrow>
          map_option (\<lambda>s. f\<lparr>front_acceptor := a, front_server := s\<rparr>) (new_conn connfd peerAddr sockname (front_server f)))"

text \<open>
  What the kernel promises about descriptors: a new one was not open. On the overload path the
  spare descriptor has just been closed and may be given out again; opening \<^verbatim>\<open>/dev/null\<close>
  then succeeds.
\<close>

definition fresh_fds :: "int \<Rightarrow> int \<Rightarrow> int \<Rightarrow> 'k acceptor \<Rightarrow> bool" where
  "fresh_fds r r2 devnull a \<longleftrightarrow>
     r \<ge> - 1 \<and> (r \<ge> 0 \<longrightarrow> fd_table (acc_sys a) r = None) \<and>
     (r2 \<ge> 0 \<longrightarrow> fd_table (acc_sys a) r2 = None \<or> r2 = idle_fd a) \<and>
     devnull \<ge> 0 \<and> (fd_table (acc_sys a) devnull = None \<or> devnull = idle_fd a)"

inductive front_run :: "'k front \<Rightarrow> 'k front \<Rightarrow> bool" for f0 where
  begins: "front_run f0 f0"
| reads: "front_run f0 f \<Longrightarrow> fresh_fds r r2 devnull (front_acceptor f) \<Longrightarrow>
    front_read errtext r err peer errno r2 devnull sockname f = Some f' \<Longrightarrow> front_run f0 f'"

definition conn_fds :: "'k front \<Rightarrow> int list" where
  "conn_fds f = map conn_fd (objects (front_server f))"

definition front_inv :: "(nat \<Rightarrow> loop_id) \<Rightarrow> int \<Rightarrow> tcp_server \<Rightarrow> 'k front \<Rightarrow> bool" where
  "front_inv fresh n s0 f \<longleftrightarrow>
     (let a = front_acceptor f
      in has_new_conn_callback a \<and> accept_socket a \<ge> 0 \<and> idle_fd a \<ge> 0 \<and> idle_fd a \<noteq> accept_socket a \<and>
         dom (fd_table (acc_sys a)) = {accept_socket a, idle_fd a} \<union> set (conn_fds f) \<and>
         distinct (accept_socket a # idle_fd a # conn_fds f) \<and> (\<forall>d \<in> set (conn_fds f). d \<ge> 0) \<and>
         srv_started (front_server f) \<noteq> 0 \<and> serving fresh n s0 (front_server f))"

lemma new_conn_total:
  assumes "spread_inv fresh n s" and "0 < n" and "srv_started s \<noteq> 0"
  obtains s' where "new_conn d peer sockname s = Some s'"
proof -
  obtain p where p: "pool s = Some p" "pool_ready p" "loops p = map fresh [0..<nat n]"
      "next_index p = length (objects s) mod nat n"
    using assms by (auto simp: spread_inv_def split: option.splits)
  obtain q where "get_next_loop p = Some (map Some (loops p) ! next_index p, q)" using pool.serves [OF p(2)] by auto
  moreover have "map Some (loops p) ! next_index p = Some (fresh (length (objects s) mod nat n))"
    using assms(2) by (simp add: p(3,4))
  ultimately show thesis using that p(1) by (simp add: new_conn_def Let_def)
qed

lemma new_conn_objects:
  assumes "new_conn d peer sockname s = Some s'"
  shows "map conn_fd (objects s') = map conn_fd (objects s) @ [d]" "srv_started s' = srv_started s"
  using assms by (auto elim!: new_conn_cases)

lemma front_read_inv:
  assumes "front_inv fresh n (TcpServer l addr nm opt) f" and "0 < n" and "fresh_fds r r2 devnull (front_acceptor f)"
  shows "\<exists>f'. front_read errtext r err peer errno r2 devnull sockname f = Some f' \<and>
    front_inv fresh n (TcpServer l addr nm opt) f' \<and> (r \<ge> 0 \<longrightarrow> conn_fds f' = conn_fds f @ [r]) \<and> (r < 0 \<longrightarrow> conn_fds f' = conn_fds f)"
proof -
  let ?a = "front_acceptor f" and ?s = "front_server f"
  obtain call a' where rd: "acceptor_read errtext r err peer errno r2 devnull ?a = (call, a')" by fastforce
  have inv: "has_new_conn_callback ?a" "accept_socket ?a \<ge> 0" "idle_fd ?a \<ge> 0" "idle_fd ?a \<noteq> accept_socket ?a"
      "dom (fd_table (acc_sys ?a)) = {accept_socket ?a, idle_fd ?a} \<union> set (conn_fds f)"
      "distinct (accept_socket ?a # idle_fd ?a # conn_fds f)" "\<And>d. d \<in> set (conn_fds f) \<Longrightarrow> d \<ge> 0"
      "srv_started ?s \<noteq> 0" "serving fresh n (TcpServer l addr nm opt) ?s"
    using assms(1) by (auto simp: front_inv_def Let_def)
  have r: "r \<ge> - 1" "r \<ge> 0 \<Longrightarrow> fd_table (acc_sys ?a) r = None"
      "r2 \<ge> 0 \<Longrightarrow> fd_table (acc_sys ?a) r2 = None \<or> r2 = idle_fd ?a" "0 \<le> devnull"
      "fd_table (acc_sys ?a) devnull = None \<or> devnull = idle_fd ?a"
    using assms(3) by (auto simp: fresh_fds_def)
  have idle: "fd_table (acc_sys ?a) (idle_fd ?a) \<noteq> None" using inv(5) by blast
  have neg: "fd_table (acc_sys ?a) d = None" if "d < 0" for d
  proof -
    have "d \<noteq> accept_socket ?a" "d \<noteq> idle_fd ?a" "d \<notin> set (conn_fds f)" using inv(2,3) inv(7) [of d] that by auto
    then have "d \<notin> dom (fd_table (acc_sys ?a))" unfolding inv(5) by simp
    then show ?thesis by (simp add: domIff)
  qed
  note fds = acceptor_read_fds [OF rd idle r(1) r(2) r(3) r(4) r(5) neg]
  note fr = acceptor_read_frame [OF rd r(1)]
  show ?thesis
  proof (cases "r \<ge> 0")
    case True
    then have c: "call = Some (r, peer)" "dom (fd_table (acc_sys a')) = insert r (dom (fd_table (acc_sys ?a)))"
      "idle_fd a' = idle_fd ?a" using fds fr(3) inv(1) by auto
    obtain s' where s': "new_conn r peer sockname ?s = Some s'"
      using new_conn_total [OF serving_spread [OF inv(9) assms(2)] assms(2) inv(8)] .
    let ?f = "f\<lparr>front_acceptor := a', front_server := s'\<rparr>"
    have "r \<notin> dom (fd_table (acc_sys ?a))" using r(2) [OF True] by (simp add: domIff)
    moreover have "conn_fds ?f = conn_fds f @ [r]" using new_conn_objects [OF s'] by (simp add: conn_fds_def)
    moreover have "serving fresh n (TcpServer l addr nm opt) s'" using inv(9) serve_step.accept [OF s'] by (rule serving.step)
    ultimately have "front_inv fresh n (TcpServer l addr nm opt) ?f"
      using inv c fr(1,2) True new_conn_objects(2) [OF s'] by (auto simp: front_inv_def Let_def)
    then show ?thesis using True rd c(1) s' \<open>conn_fds ?f = _\<close> by (intro exI [of _ ?f]) (simp add: front_read_def)
  next
    case False
    let ?f = "f\<lparr>front_acceptor := a'\<rparr>"
    have c: "call = None" "dom (fd_table (acc_sys a')) = (if errno = EMFILE then insert devnull (dom (fd_table (acc_sys ?a)) - {idle_fd ?a})
        else dom (fd_table (acc_sys ?a)))" using fds False by auto
    have "devnull \<notin> dom (fd_table (acc_sys ?a)) \<or> devnull = idle_fd ?a" using r(5) by (simp add: domIff)
    moreover have "conn_fds ?f = conn_fds f" by (simp add: conn_fds_def)
    ultimately have "front_inv fresh n (TcpServer l addr nm opt) ?f"
      using inv c fr False r(4) by (auto simp: front_inv_def Let_def)
    then show ?thesis using False rd c(1) by (intro exI [of _ ?f]) (simp add: front_read_def conn_fds_def)
  qed
qed

section \<open>Properties across components\<close>


definition demo_front :: "unit front" where
  "demo_front =
     \<lparr>front_acceptor = set_new_conn_callback (Acceptor 3 4 0 0 0 zero_addr True \<lparr>fd_table = Map.empty, sock_logs = []\<rparr>
        (EpollPoller (\<lambda>_. new_channel 0) ())),
      front_server = srv_start (\<lambda>i. i + 10) 2 (TcpServer 1 zero_addr ''S'' kReusePort)\<rparr>"


end
